(* ===== verification/Protocol.thy ===== *)
theory Protocol
  imports Prelude
begin

text \<open>
  The wire protocol of the game server: \<^verbatim>\<open>source/protocol.hpp\<close>, the helper
  \<^verbatim>\<open>bounded_strlen\<close> of \<^verbatim>\<open>source/string.hpp\<close>, and the packet
  validators and string views at the top of \<^verbatim>\<open>source/registry.cpp\<close>.

  A fixed-size array member is a byte list whose length the \<open>wf\<close> predicates state; a packet is
  a record with the members of the struct, \<^verbatim>\<open>packet_bytes\<close> is one serialiser per packet
  and \<^verbatim>\<open>memcpy(&pkt, rx_, sizeof pkt)\<close> one parser per client packet.
\<close>

section \<open>Constants and opcodes\<close>

definition ETHER_ADDR_LEN :: nat where [simp]: "ETHER_ADDR_LEN = 6"
definition ADHOCCTL_GROUPNAME_LEN :: nat where [simp]: "ADHOCCTL_GROUPNAME_LEN = 8"
definition ADHOCCTL_NICKNAME_LEN :: nat where [simp]: "ADHOCCTL_NICKNAME_LEN = 128"
definition PRODUCT_CODE_LENGTH :: nat where [simp]: "PRODUCT_CODE_LENGTH = 9"
definition CHAT_MESSAGE_LEN :: nat where [simp]: "CHAT_MESSAGE_LEN = 64"
definition SERVER_USER_MAXIMUM :: nat where [simp]: "SERVER_USER_MAXIMUM = 1024"
definition SERVER_USER_TIMEOUT_SECONDS :: nat where [simp]: "SERVER_USER_TIMEOUT_SECONDS = 15"
definition SERVER_SHUTDOWN_MESSAGE :: bytes where
  "SERVER_SHUTDOWN_MESSAGE = ascii ''PROMETHEUS HUB IS SHUTTING DOWN!''"

datatype opcode = OPCODE_PING | OPCODE_LOGIN | OPCODE_CONNECT | OPCODE_DISCONNECT
  | OPCODE_SCAN | OPCODE_SCAN_COMPLETE | OPCODE_CONNECT_BSSID | OPCODE_CHAT

fun opcode_byte :: "opcode \<Rightarrow> byte" where
  "opcode_byte OPCODE_PING = 0"
| "opcode_byte OPCODE_LOGIN = 1"
| "opcode_byte OPCODE_CONNECT = 2"
| "opcode_byte OPCODE_DISCONNECT = 3"
| "opcode_byte OPCODE_SCAN = 4"
| "opcode_byte OPCODE_SCAN_COMPLETE = 5"
| "opcode_byte OPCODE_CONNECT_BSSID = 6"
| "opcode_byte OPCODE_CHAT = 7"

section \<open>Packets\<close>

record login_packet_c2s =
  lp_opcode :: byte
  lp_mac :: bytes
  lp_name :: bytes
  lp_game :: bytes

record connect_packet_c2s =
  cc_opcode :: byte
  cc_group :: bytes

record chat_packet_c2s =
  hc_opcode :: byte
  hc_message :: bytes

record connect_packet_s2c =
  cs_opcode :: byte
  cs_name :: bytes
  cs_mac :: bytes
  cs_ip :: u32

record disconnect_packet_s2c =
  ds_opcode :: byte
  ds_ip :: u32

record scan_packet_s2c =
  ss_opcode :: byte
  ss_group :: bytes
  ss_mac :: bytes

record connect_bssid_packet_s2c =
  bs_opcode :: byte
  bs_mac :: bytes

record chat_packet_s2c =
  hs_base :: chat_packet_c2s
  hs_name :: bytes

text \<open>\<^verbatim>\<open>sizeof\<close>, as the \<^verbatim>\<open>static_assert\<close>s of the header state it.\<close>

definition sizeof_login_packet_c2s :: nat where [simp]: "sizeof_login_packet_c2s = 144"
definition sizeof_connect_packet_c2s :: nat where [simp]: "sizeof_connect_packet_c2s = 9"
definition sizeof_chat_packet_c2s :: nat where [simp]: "sizeof_chat_packet_c2s = 65"

text \<open>
  Packed layout: the members one after the other, no padding.  The \<open>wf\<close> predicates say that
  the arrays have their declared length.
\<close>

definition wf_login :: "login_packet_c2s \<Rightarrow> bool" where
  "wf_login p \<longleftrightarrow> length (lp_mac p) = ETHER_ADDR_LEN \<and> length (lp_name p) = ADHOCCTL_NICKNAME_LEN
     \<and> length (lp_game p) = PRODUCT_CODE_LENGTH"

definition login_bytes :: "login_packet_c2s \<Rightarrow> bytes" where
  "login_bytes p = lp_opcode p # lp_mac p @ lp_name p @ lp_game p"

definition login_of_bytes :: "bytes \<Rightarrow> login_packet_c2s" where
  "login_of_bytes b = \<lparr>lp_opcode = hd b, lp_mac = take ETHER_ADDR_LEN (drop 1 b),
     lp_name = take ADHOCCTL_NICKNAME_LEN (drop 7 b),
     lp_game = take PRODUCT_CODE_LENGTH (drop 135 b)\<rparr>"

definition connect_of_bytes :: "bytes \<Rightarrow> connect_packet_c2s" where
  "connect_of_bytes b = \<lparr>cc_opcode = hd b, cc_group = take ADHOCCTL_GROUPNAME_LEN (drop 1 b)\<rparr>"

definition connect_c2s_bytes :: "connect_packet_c2s \<Rightarrow> bytes" where
  "connect_c2s_bytes p = cc_opcode p # cc_group p"

definition chat_of_bytes :: "bytes \<Rightarrow> chat_packet_c2s" where
  "chat_of_bytes b = \<lparr>hc_opcode = hd b, hc_message = take CHAT_MESSAGE_LEN (drop 1 b)\<rparr>"

definition chat_c2s_bytes :: "chat_packet_c2s \<Rightarrow> bytes" where
  "chat_c2s_bytes p = hc_opcode p # hc_message p"

definition connect_s2c_bytes :: "connect_packet_s2c \<Rightarrow> bytes" where
  "connect_s2c_bytes p = cs_opcode p # cs_name p @ cs_mac p @ le32 (cs_ip p)"

definition disconnect_s2c_bytes :: "disconnect_packet_s2c \<Rightarrow> bytes" where
  "disconnect_s2c_bytes p = ds_opcode p # le32 (ds_ip p)"

definition scan_s2c_bytes :: "scan_packet_s2c \<Rightarrow> bytes" where
  "scan_s2c_bytes p = ss_opcode p # ss_group p @ ss_mac p"

definition connect_bssid_s2c_bytes :: "connect_bssid_packet_s2c \<Rightarrow> bytes" where
  "connect_bssid_s2c_bytes p = bs_opcode p # bs_mac p"

definition chat_s2c_bytes :: "chat_packet_s2c \<Rightarrow> bytes" where
  "chat_s2c_bytes p = chat_c2s_bytes (hs_base p) @ hs_name p"

section \<open>String helpers\<close>

text \<open>
  \<^verbatim>\<open>bounded_strlen\<close>: \<^verbatim>\<open>while (len != max && data[len] != 0) ++len\<close>.
  The loop starts at 0 and stops at \<open>max\<close>, so \<open><\<close> stands for \<open>\<noteq>\<close>.
\<close>

function strlen_loop :: "bytes \<Rightarrow> nat \<Rightarrow> nat \<Rightarrow> nat" where
  "strlen_loop d mx len = (if len < mx \<and> d ! len \<noteq> 0 then strlen_loop d mx (Suc len) else len)"
  by pat_completeness auto
termination
  by (relation "measure (\<lambda>(d, mx, len). mx - len)") auto

declare strlen_loop.simps [simp del]

definition bounded_strlen :: "bytes \<Rightarrow> nat \<Rightarrow> nat" where
  "bounded_strlen d mx = strlen_loop d mx 0"

text \<open>The three string views of the registry over the fixed-size arrays.\<close>

definition product_code_str :: "bytes \<Rightarrow> bytes" where
  "product_code_str c = take (bounded_strlen c PRODUCT_CODE_LENGTH) c"

definition group_name_str :: "bytes \<Rightarrow> bytes" where
  "group_name_str g = take (bounded_strlen g ADHOCCTL_GROUPNAME_LEN) g"

definition nickname_str :: "bytes \<Rightarrow> bytes" where
  "nickname_str n = take (bounded_strlen n ADHOCCTL_NICKNAME_LEN) n"

text \<open>\<^verbatim>\<open>data_from\<close>: copy at most \<open>n\<close> bytes into a zeroed array of \<open>n\<close> bytes.\<close>

definition data_from :: "nat \<Rightarrow> bytes \<Rightarrow> bytes" where
  "data_from n view = take (min (length view) n) view @ replicate (n - min (length view) n) 0"

section \<open>Validators\<close>

definition is_upper :: "byte \<Rightarrow> bool" where "is_upper c \<longleftrightarrow> 65 \<le> c \<and> c \<le> 90"
definition is_lower :: "byte \<Rightarrow> bool" where "is_lower c \<longleftrightarrow> 97 \<le> c \<and> c \<le> 122"
definition is_digit :: "byte \<Rightarrow> bool" where "is_digit c \<longleftrightarrow> 48 \<le> c \<and> c \<le> 57"

text \<open>The loops run over the first \<open>n\<close> bytes; \<open>k\<close> counts the bytes left to read.\<close>

fun product_code_loop :: "nat \<Rightarrow> bytes \<Rightarrow> bool" where
  "product_code_loop 0 _ = True"
| "product_code_loop (Suc k) d = (let c = hd d in
     if \<not> (is_upper c \<or> is_digit c) then False else product_code_loop k (tl d))"

definition valid_product_code :: "bytes \<Rightarrow> bool" where
  "valid_product_code c = product_code_loop PRODUCT_CODE_LENGTH c"

fun group_name_loop :: "nat \<Rightarrow> bytes \<Rightarrow> bool" where
  "group_name_loop 0 _ = True"
| "group_name_loop (Suc k) d = (let c = hd d in
     if c = 0 then True
     else if is_upper c \<or> is_lower c \<or> is_digit c then group_name_loop k (tl d)
     else False)"

definition valid_group_name :: "bytes \<Rightarrow> bool" where
  "valid_group_name g = group_name_loop ADHOCCTL_GROUPNAME_LEN g"

definition valid_login_packet :: "login_packet_c2s \<Rightarrow> bool" where
  "valid_login_packet p =
     (if \<not> valid_product_code (lp_game p) then False
      else if lp_mac p = replicate ETHER_ADDR_LEN 0xFF \<or> lp_mac p = replicate ETHER_ADDR_LEN 0
        then False
      else hd (lp_name p) \<noteq> 0)"

section \<open>What the helpers compute\<close>

lemma strlen_loop_eq:
  "len \<le> mx \<Longrightarrow> mx \<le> length d \<Longrightarrow>
   strlen_loop d mx len = len + length (takeWhile (\<lambda>c. c \<noteq> 0) (take (mx - len) (drop len d)))"
proof (induction d mx len rule: strlen_loop.induct)
  case (1 d mx len)
  show ?case
  proof (cases "len < mx")
    case True
    then have "drop len d = d ! len # drop (Suc len) d" "mx - len = Suc (mx - Suc len)"
      using "1.prems" by (simp_all add: Cons_nth_drop_Suc)
    then show ?thesis
      using 1 True by (simp add: strlen_loop.simps[of d mx len])
  next
    case False
    then have "len = mx" using "1.prems" by simp
    then show ?thesis by (simp add: strlen_loop.simps[of d mx mx])
  qed
qed

lemma bounded_strlen_eq:
  "mx \<le> length d \<Longrightarrow> bounded_strlen d mx = length (takeWhile (\<lambda>c. c \<noteq> 0) (take mx d))"
  by (simp add: bounded_strlen_def strlen_loop_eq)

lemma bounded_strlen_le: "bounded_strlen d mx \<le> mx"
proof -
  have "len \<le> mx \<Longrightarrow> strlen_loop d mx len \<le> mx" for len
    by (induction d mx len rule: strlen_loop.induct) (subst strlen_loop.simps, simp)
  then show ?thesis by (simp add: bounded_strlen_def)
qed

text \<open>Each string view is the part of the array before its first zero byte.\<close>

lemma take_bounded_strlen:
  "length d = mx \<Longrightarrow> take (bounded_strlen d mx) d = takeWhile (\<lambda>c. c \<noteq> 0) d"
  by (simp add: bounded_strlen_eq takeWhile_eq_take[symmetric])

lemma product_code_str_eq: "length c = 9 \<Longrightarrow> product_code_str c = takeWhile (\<lambda>c. c \<noteq> 0) c"
  by (simp add: product_code_str_def take_bounded_strlen)

lemma group_name_str_eq: "length g = 8 \<Longrightarrow> group_name_str g = takeWhile (\<lambda>c. c \<noteq> 0) g"
  by (simp add: group_name_str_def take_bounded_strlen)

lemma nickname_str_eq: "length n = 128 \<Longrightarrow> nickname_str n = takeWhile (\<lambda>c. c \<noteq> 0) n"
  by (simp add: nickname_str_def take_bounded_strlen)

lemma length_product_code_str: "length (product_code_str c) \<le> 9"
  using bounded_strlen_le[of c 9] by (simp add: product_code_str_def)

lemma length_group_name_str: "length (group_name_str g) \<le> 8"
  using bounded_strlen_le[of g 8] by (simp add: group_name_str_def)

lemma length_data_from [simp, layout_simps]: "length (data_from n v) = n"
  by (simp add: data_from_def)

lemma takeWhile_data_from:
  assumes "length v \<le> n" "0 \<notin> set v"
  shows "takeWhile (\<lambda>c. c \<noteq> 0) (data_from n v) = v"
proof -
  have v: "takeWhile (\<lambda>c. c \<noteq> 0) (v @ replicate m 0) = v" for m
    using assms(2) by (subst takeWhile_append2) (auto intro: takeWhile_eq_Nil_iff[THEN iffD2])
  show ?thesis using assms(1) v by (simp add: data_from_def)
qed

section \<open>What the validators accept\<close>

lemma product_code_loop_iff:
  "product_code_loop (length d) d \<longleftrightarrow> (\<forall>c\<in>set d. is_upper c \<or> is_digit c)"
  by (induction d) (auto simp: Let_def)

lemma valid_product_code_iff:
  "length c = 9 \<Longrightarrow> valid_product_code c \<longleftrightarrow> (\<forall>b\<in>set c. is_upper b \<or> is_digit b)"
  using product_code_loop_iff[of c] by (simp add: valid_product_code_def del: product_code_loop.simps)

lemma group_name_loop_iff:
  "group_name_loop (length d) d \<longleftrightarrow>
     (\<forall>c\<in>set (takeWhile (\<lambda>c. c \<noteq> 0) d). is_upper c \<or> is_lower c \<or> is_digit c)"
  by (induction d) (auto simp: Let_def)

lemma valid_group_name_iff:
  "length g = 8 \<Longrightarrow> valid_group_name g \<longleftrightarrow>
     (\<forall>c\<in>set (group_name_str g). is_upper c \<or> is_lower c \<or> is_digit c)"
  using group_name_loop_iff[of g]
  by (simp add: valid_group_name_def group_name_str_eq del: group_name_loop.simps)

lemma alnum_nonzero [simp]: "\<not> is_upper 0" "\<not> is_lower 0" "\<not> is_digit 0"
  by (simp_all add: is_upper_def is_lower_def is_digit_def)

lemma product_code_str_valid:
  assumes "length c = 9" "valid_product_code c"
  shows "product_code_str c = c"
proof -
  have "\<forall>b\<in>set c. b \<noteq> 0"
    using assms alnum_nonzero by (auto simp: valid_product_code_iff)
  then show ?thesis using assms(1) by (auto simp: product_code_str_eq)
qed

lemma group_name_str_nonzero: "length g = 8 \<Longrightarrow> 0 \<notin> set (group_name_str g)"
  by (auto simp: group_name_str_eq dest: set_takeWhileD)

section \<open>Layouts\<close>

lemma login_of_bytes_prefix:
  assumes "wf_login p"
  shows "login_of_bytes (login_bytes p @ r) = p" "length (login_bytes p) = sizeof_login_packet_c2s"
  using assms by (simp_all add: wf_login_def login_of_bytes_def login_bytes_def)

lemma wf_login_of_bytes: "sizeof_login_packet_c2s \<le> length b \<Longrightarrow> wf_login (login_of_bytes b)"
  by (simp add: wf_login_def login_of_bytes_def)

lemma login_bytes_of_bytes:
  assumes "sizeof_login_packet_c2s \<le> length b"
  shows "login_bytes (login_of_bytes b) = take sizeof_login_packet_c2s b"
proof -
  obtain x ys where b: "b = x # ys" using assms by (cases b) auto
  have "take 143 ys = take 6 ys @ take 128 (drop 6 ys) @ take 9 (drop 134 ys)"
    using take_add[of 6 137 ys] take_add[of 128 9 "drop 6 ys"] by simp
  then show ?thesis
    by (simp add: b login_bytes_def login_of_bytes_def)
qed

end
