(* ===== verification/Database.thy ===== *)
theory Database
  imports Protocol
begin

text \<open>
  The product database, \<^verbatim>\<open>source/database.cpp\<close>.  SQLite is third-party code: its
  entry points are a parameter of the model, a record of functions on an opaque connection
  (\<^term>\<open>None\<close> is the null \<^verbatim>\<open>sqlite3*\<close>).  The locale
  \<open>sqlite_tables\<close> states what SQLite documents for the four statements the code prepares, over
  the two tables of the schema, and \<open>table_api\<close> is an instance of it on association lists.

  A C++ exception is the left value of a sum; the connection after the throw is kept.
\<close>

section \<open>SQLite as a parameter\<close>

definition SQLITE_OK :: int where [simp]: "SQLITE_OK = 0"
definition SQLITE_MISUSE :: int where [simp]: "SQLITE_MISUSE = 21"
definition SQLITE_ROW :: int where [simp]: "SQLITE_ROW = 100"
definition SQLITE_DONE :: int where [simp]: "SQLITE_DONE = 101"

text \<open>
  \<open>sq_step\<close> gives the return code and the connection afterwards; \<open>sq_column_text\<close> is
  column 0 of the current row, \<^term>\<open>None\<close> for a null pointer.  A statement is named by its
  SQL text and the bound parameters.
\<close>

record 'db sqlite_api =
  sq_prepare :: "'db option \<Rightarrow> string \<Rightarrow> int"
  sq_bind :: "'db option \<Rightarrow> string \<Rightarrow> nat \<Rightarrow> bytes \<Rightarrow> int"
  sq_step :: "'db option \<Rightarrow> string \<Rightarrow> bytes list \<Rightarrow> int \<times> 'db option"
  sq_column_text :: "'db option \<Rightarrow> string \<Rightarrow> bytes list \<Rightarrow> bytes option"

datatype exn = Runtime_error

definition SQL_CROSSLINK :: string where
  "SQL_CROSSLINK = ''SELECT id_to FROM crosslinks WHERE id_from = ?;''"
definition SQL_NAME :: string where
  "SQL_NAME = ''SELECT name FROM productids WHERE id = ?;''"
definition SQL_KNOWN :: string where
  "SQL_KNOWN = ''SELECT 1 FROM productids WHERE id = ?;''"
definition SQL_INSERT :: string where
  "SQL_INSERT = ''INSERT INTO productids (id, name) VALUES (?, ?);''"

section \<open>The checked calls\<close>

definition ckd :: "int \<Rightarrow> int \<Rightarrow> exn + bool" where
  "ckd actual expected =
     (if actual \<noteq> expected then
        if expected = SQLITE_ROW \<and> actual = SQLITE_DONE
           \<or> expected = SQLITE_DONE \<and> actual = SQLITE_ROW
        then Inr False
        else Inl Runtime_error
      else Inr True)"

definition bind_text :: "'db sqlite_api \<Rightarrow> 'db option \<Rightarrow> string \<Rightarrow> nat \<Rightarrow> bytes \<Rightarrow> exn + bool" where
  "bind_text api h sql idx str = ckd (sq_bind api h sql idx str) SQLITE_OK"

definition prepare :: "'db sqlite_api \<Rightarrow> 'db option \<Rightarrow> string \<Rightarrow> exn + bool" where
  "prepare api h sql = ckd (sq_prepare api h sql) SQLITE_OK"

section \<open>The operations of product\_db\<close>

text \<open>
  The constructor.  What the file system and SQLite answer is given: whether the file exists, the
  return code and handle of \<^verbatim>\<open>sqlite3_open_v2\<close>, and what executing the schema returns.
\<close>

definition product_db_open ::
    "bool \<Rightarrow> int \<times> 'db option \<Rightarrow> ('db option \<Rightarrow> int \<times> 'db option) \<Rightarrow> exn + 'db option" where
  "product_db_open file_exists opened exec_schema =
     (if \<not> file_exists then Inr None
      else case opened of (ret, h) \<Rightarrow>
        if ret \<noteq> SQLITE_OK then Inl Runtime_error
        else case exec_schema h of (rc, h') \<Rightarrow>
          if rc \<noteq> SQLITE_OK then Inl Runtime_error else Inr h')"

definition apply_crosslink ::
    "'db sqlite_api \<Rightarrow> 'db option \<Rightarrow> bytes \<Rightarrow> (exn + bytes) \<times> 'db option" where
  "apply_crosslink api h code =
     (let pid = product_code_str code in
      case prepare api h SQL_CROSSLINK of Inl e \<Rightarrow> (Inl e, h) | Inr _ \<Rightarrow>
      case bind_text api h SQL_CROSSLINK 1 pid of Inl e \<Rightarrow> (Inl e, h) | Inr _ \<Rightarrow>
      case sq_step api h SQL_CROSSLINK [pid] of (rc, h') \<Rightarrow>
      case ckd rc SQLITE_DONE of
        Inl e \<Rightarrow> (Inl e, h')
      | Inr True \<Rightarrow> (Inr code, h')
      | Inr False \<Rightarrow>
        (case sq_column_text api h SQL_CROSSLINK [pid] of
           None \<Rightarrow> (Inr code, h')
         | Some dst \<Rightarrow>
           let n = min (length dst) PRODUCT_CODE_LENGTH; new_id = take n dst in
           if new_id = pid then (Inr code, h')
           else (Inr (take n dst @ replicate (PRODUCT_CODE_LENGTH - n) 0), h')))"

definition display_name_for ::
    "'db sqlite_api \<Rightarrow> 'db option \<Rightarrow> bytes \<Rightarrow> (exn + bytes) \<times> 'db option" where
  "display_name_for api h code =
     (case prepare api h SQL_NAME of Inl e \<Rightarrow> (Inl e, h) | Inr _ \<Rightarrow>
      case bind_text api h SQL_NAME 1 code of Inl e \<Rightarrow> (Inl e, h) | Inr _ \<Rightarrow>
      case sq_step api h SQL_NAME [code] of (rc, h') \<Rightarrow>
      case ckd rc SQLITE_ROW of
        Inl e \<Rightarrow> (Inl e, h')
      | Inr True \<Rightarrow>
        (case sq_column_text api h SQL_NAME [code] of
           Some name \<Rightarrow> (Inr name, h')
         | None \<Rightarrow> (Inr code, h'))
      | Inr False \<Rightarrow> (Inr code, h'))"

definition insert_product ::
    "'db sqlite_api \<Rightarrow> 'db option \<Rightarrow> bytes \<Rightarrow> (exn + unit) \<times> 'db option" where
  "insert_product api h pid =
     (case prepare api h SQL_INSERT of Inl e \<Rightarrow> (Inl e, h) | Inr _ \<Rightarrow>
      case bind_text api h SQL_INSERT 1 pid of Inl e \<Rightarrow> (Inl e, h) | Inr _ \<Rightarrow>
      case bind_text api h SQL_INSERT 2 pid of Inl e \<Rightarrow> (Inl e, h) | Inr _ \<Rightarrow>
      case sq_step api h SQL_INSERT [pid, pid] of (rc, h') \<Rightarrow>
      case ckd rc SQLITE_DONE of Inl e \<Rightarrow> (Inl e, h') | Inr _ \<Rightarrow> (Inr (), h'))"

definition record_unknown_product ::
    "'db sqlite_api \<Rightarrow> 'db option \<Rightarrow> bytes \<Rightarrow> (exn + unit) \<times> 'db option" where
  "record_unknown_product api h code =
     (let pid = product_code_str code in
      case prepare api h SQL_KNOWN of Inl e \<Rightarrow> (Inl e, h) | Inr _ \<Rightarrow>
      case bind_text api h SQL_KNOWN 1 pid of Inl e \<Rightarrow> (Inl e, h) | Inr _ \<Rightarrow>
      case sq_step api h SQL_KNOWN [pid] of (rc, h') \<Rightarrow>
      case ckd rc SQLITE_ROW of
        Inl e \<Rightarrow> (Inl e, h')
      | Inr True \<Rightarrow> (Inr (), h')
      | Inr False \<Rightarrow> insert_product api h' pid)"

section \<open>What SQLite promises for these statements\<close>

text \<open>
  \<open>ok\<close> is a healthy open connection; \<open>names\<close> and \<open>links\<close> are the two tables.  A
  SELECT on the primary key returns SQLITE\_ROW with the row, or SQLITE\_DONE, and leaves the
  tables alone; the INSERT of a key that is not there returns SQLITE\_DONE and adds the row.
  Preparing on a null connection is a misuse.
\<close>

locale sqlite_tables =
  fixes api :: "'db sqlite_api" and ok :: "'db \<Rightarrow> bool"
    and names :: "'db \<Rightarrow> bytes \<Rightarrow> bytes option" and links :: "'db \<Rightarrow> bytes \<Rightarrow> bytes option"
  assumes prepare_ok: "ok h \<Longrightarrow> sql \<in> {SQL_CROSSLINK, SQL_NAME, SQL_KNOWN, SQL_INSERT} \<Longrightarrow>
      sq_prepare api (Some h) sql = SQLITE_OK"
    and prepare_null: "sq_prepare api None sql = SQLITE_MISUSE"
    and bind_ok: "ok h \<Longrightarrow> sql \<in> {SQL_CROSSLINK, SQL_NAME, SQL_KNOWN, SQL_INSERT} \<Longrightarrow>
      sq_bind api (Some h) sql i v = SQLITE_OK"
    and step_crosslink: "ok h \<Longrightarrow> sq_step api (Some h) SQL_CROSSLINK [k] =
      (if links h k = None then SQLITE_DONE else SQLITE_ROW, Some h)"
    and text_crosslink: "ok h \<Longrightarrow> sq_column_text api (Some h) SQL_CROSSLINK [k] = links h k"
    and step_name: "ok h \<Longrightarrow> sq_step api (Some h) SQL_NAME [k] =
      (if names h k = None then SQLITE_DONE else SQLITE_ROW, Some h)"
    and text_name: "ok h \<Longrightarrow> sq_column_text api (Some h) SQL_NAME [k] = names h k"
    and step_known: "ok h \<Longrightarrow> sq_step api (Some h) SQL_KNOWN [k] =
      (if names h k = None then SQLITE_DONE else SQLITE_ROW, Some h)"
    and step_insert: "ok h \<Longrightarrow> names h k = None \<Longrightarrow>
      \<exists>h'. sq_step api (Some h) SQL_INSERT [k, v] = (SQLITE_DONE, Some h') \<and> ok h'
        \<and> names h' = (names h)(k \<mapsto> v) \<and> links h' = links h"
begin

lemma checks [simp]:
  "ok h \<Longrightarrow> sql \<in> {SQL_CROSSLINK, SQL_NAME, SQL_KNOWN, SQL_INSERT} \<Longrightarrow>
     prepare api (Some h) sql = Inr True"
  "ok h \<Longrightarrow> sql \<in> {SQL_CROSSLINK, SQL_NAME, SQL_KNOWN, SQL_INSERT} \<Longrightarrow>
     bind_text api (Some h) sql i v = Inr True"
  "prepare api None sql = Inl Runtime_error"
  by (auto simp: prepare_def bind_text_def ckd_def prepare_ok bind_ok prepare_null)

lemma crosslink_result:
  assumes "ok h"
  shows "apply_crosslink api (Some h) code =
    (Inr (case links h (product_code_str code) of None \<Rightarrow> code
      | Some dst \<Rightarrow> if take 9 dst = product_code_str code then code else data_from 9 dst), Some h)"
  using assms
  by (auto simp: apply_crosslink_def step_crosslink text_crosslink ckd_def Let_def data_from_def
      min_def split: option.splits)

lemma display_result:
  assumes "ok h"
  shows "display_name_for api (Some h) code =
    (Inr (case names h code of None \<Rightarrow> code | Some n \<Rightarrow> n), Some h)"
  using assms by (auto simp: display_name_for_def step_name text_name ckd_def split: option.splits)

lemma record_result:
  assumes "ok h"
  obtains h' where "record_unknown_product api (Some h) code = (Inr (), Some h')" "ok h'"
    "links h' = links h"
    "names h' = (case names h (product_code_str code) of
       None \<Rightarrow> (names h)(product_code_str code \<mapsto> product_code_str code) | Some _ \<Rightarrow> names h)"
proof (cases "names h (product_code_str code)")
  case None
  then obtain h' where "sq_step api (Some h) SQL_INSERT [product_code_str code, product_code_str code]
      = (SQLITE_DONE, Some h')" "ok h'" "links h' = links h"
      "names h' = (names h)(product_code_str code \<mapsto> product_code_str code)"
    using step_insert[OF assms None] by blast
  then show ?thesis
    using assms None that
    by (simp add: record_unknown_product_def insert_product_def step_known ckd_def Let_def)
next
  case (Some v)
  then show ?thesis
    using assms that by (simp add: record_unknown_product_def step_known ckd_def Let_def)
qed

lemma null_throws:
  "apply_crosslink api None code = (Inl Runtime_error, None)"
  "display_name_for api None code = (Inl Runtime_error, None)"
  "record_unknown_product api None code = (Inl Runtime_error, None)"
  by (simp_all add: apply_crosslink_def display_name_for_def record_unknown_product_def Let_def)

end

section \<open>The two tables as association lists\<close>

text \<open>
  The schema of the constructor as data: \<^verbatim>\<open>productids(id PRIMARY KEY, name NOT NULL)\<close>
  and \<^verbatim>\<open>crosslinks(id_from PRIMARY KEY, id_to NOT NULL)\<close>.  An INSERT of a key that
  is there answers SQLITE\_CONSTRAINT (19).
\<close>

record tables =
  tb_productids :: "(bytes \<times> bytes) list"
  tb_crosslinks :: "(bytes \<times> bytes) list"

definition table_step :: "tables option \<Rightarrow> string \<Rightarrow> bytes list \<Rightarrow> int \<times> tables option" where
  "table_step h sql args = (case h of None \<Rightarrow> (SQLITE_MISUSE, None) | Some t \<Rightarrow>
     if sql = SQL_CROSSLINK then
       (if map_of (tb_crosslinks t) (hd args) = None then SQLITE_DONE else SQLITE_ROW, Some t)
     else if sql = SQL_INSERT then
       (if map_of (tb_productids t) (hd args) = None
        then (SQLITE_DONE, Some (t\<lparr>tb_productids := (hd args, args ! 1) # tb_productids t\<rparr>))
        else (19, Some t))
     else
       (if map_of (tb_productids t) (hd args) = None then SQLITE_DONE else SQLITE_ROW, Some t))"

definition table_text :: "tables option \<Rightarrow> string \<Rightarrow> bytes list \<Rightarrow> bytes option" where
  "table_text h sql args = (case h of None \<Rightarrow> None | Some t \<Rightarrow>
     if sql = SQL_CROSSLINK then map_of (tb_crosslinks t) (hd args)
     else map_of (tb_productids t) (hd args))"

definition table_api :: "tables sqlite_api" where
  "table_api = \<lparr>sq_prepare = (\<lambda>h sql. if h = None then SQLITE_MISUSE else SQLITE_OK),
     sq_bind = (\<lambda>h sql i v. if h = None then SQLITE_MISUSE else SQLITE_OK),
     sq_step = table_step, sq_column_text = table_text\<rparr>"

lemma sql_distinct [simp]:
  "SQL_CROSSLINK \<noteq> SQL_INSERT" "SQL_NAME \<noteq> SQL_INSERT" "SQL_KNOWN \<noteq> SQL_INSERT"
  "SQL_NAME \<noteq> SQL_CROSSLINK" "SQL_KNOWN \<noteq> SQL_CROSSLINK" "SQL_INSERT \<noteq> SQL_CROSSLINK"
  by (simp_all add: SQL_CROSSLINK_def SQL_INSERT_def SQL_NAME_def SQL_KNOWN_def)

interpretation tb: sqlite_tables table_api "\<lambda>_. True"
    "\<lambda>t. map_of (tb_productids t)" "\<lambda>t. map_of (tb_crosslinks t)"
  by unfold_locales (auto simp: table_api_def table_step_def table_text_def)

end
