(* ===== verification/Outbox.thy ===== *)
theory Outbox
  imports Prelude
begin

text \<open>
  The write queue both kinds of sessions have (\<^verbatim>\<open>user_session\<close> of
  \<^verbatim>\<open>source/session.cpp\<close> and \<^verbatim>\<open>relay_session\<close> of
  \<^verbatim>\<open>source/relay_server.cpp\<close>): senders append blocks and wake a writer coroutine, which
  takes the front block and writes it to the socket.  The locale \<open>outbox\<close> states the contract
  of the operations; the lemmas about runs (blocks leave in the order they were accepted, and a
  sleeping writer never has work) are proved once in it.

  A coroutine is a program counter: the place of its pending \<^verbatim>\<open>co_await\<close>.  The server
  runs on one thread (\<^verbatim>\<open>io_context{1}\<close>), so the code between two awaits is one step.
\<close>

text \<open>
  The writer: not started; waiting on \<^verbatim>\<open>write_signal_\<close>, whose flag says that the wait was
  cancelled, so that the coroutine will resume; writing a block; or finished.
\<close>

datatype writer_pc = Wr_start | Wr_wait bool | Wr_write bytes | Wr_done

text \<open>\<^verbatim>\<open>write_signal_.cancel()\<close> and \<^verbatim>\<open>cancel_one()\<close>: the one waiter is woken.\<close>

fun wake :: "writer_pc \<Rightarrow> writer_pc" where
  "wake (Wr_wait _) = Wr_wait True"
| "wake pc = pc"

lemma wake_not_asleep [simp]: "wake pc \<noteq> Wr_wait False"
  by (cases pc) auto

lemma wake_simps [simp]:
  "wake pc = Wr_start \<longleftrightarrow> pc = Wr_start" "wake pc = Wr_write b \<longleftrightarrow> pc = Wr_write b"
  "wake pc = Wr_done \<longleftrightarrow> pc = Wr_done"
  by (cases pc; simp)+

text \<open>What can happen to a session's outbox.\<close>

datatype outbox_event = Ob_send bytes | Ob_close | Ob_resume | Ob_written | Ob_write_failed

locale outbox =
  fixes queue :: "'s \<Rightarrow> bytes list" and closed :: "'s \<Rightarrow> bool" and pc :: "'s \<Rightarrow> writer_pc"
    and send :: "bytes \<Rightarrow> 's \<Rightarrow> 's" and close :: "'s \<Rightarrow> 's" and loop :: "'s \<Rightarrow> 's"
    and finish :: "'s \<Rightarrow> 's"
  assumes send_refused: "closed x \<or> b = [] \<Longrightarrow> send b x = x"
    and send_queue: "\<not> closed x \<Longrightarrow> b \<noteq> [] \<Longrightarrow> queue (send b x) = queue x @ [b]"
    and send_pc: "\<not> closed x \<Longrightarrow> b \<noteq> [] \<Longrightarrow> pc (send b x) = wake (pc x)"
    and close_closed: "closed (close x)"
    and close_queue: "queue (close x) = queue x"
    and close_pc: "pc (close x) = (if closed x then pc x else wake (pc x))"
    and loop_closed: "closed (loop x) = closed x"
    and loop_queue: "queue (loop x) = (if closed x then queue x else tl (queue x))"
    and loop_pc: "pc (loop x) = (if closed x then Wr_done
        else case queue x of [] \<Rightarrow> Wr_wait False | b # _ \<Rightarrow> Wr_write b)"
    and finish_queue: "queue (finish x) = queue x"
    and finish_closed: "closed (finish x) = closed x"
    and finish_pc: "pc (finish x) = Wr_done"
begin

text \<open>One event; an event the writer's program counter does not allow changes nothing.\<close>

definition ob_step :: "outbox_event \<Rightarrow> 's \<Rightarrow> 's" where
  "ob_step e x = (case e of
     Ob_send b \<Rightarrow> send b x
   | Ob_close \<Rightarrow> close x
   | Ob_resume \<Rightarrow> (if pc x = Wr_start \<or> pc x = Wr_wait True then loop x else x)
   | Ob_written \<Rightarrow> (case pc x of Wr_write _ \<Rightarrow> loop x | _ \<Rightarrow> x)
   | Ob_write_failed \<Rightarrow> (case pc x of Wr_write _ \<Rightarrow> finish (close x) | _ \<Rightarrow> x))"

text \<open>
  What an event hands to the socket: when it resumes the writer's loop, the block of the write the writer
  then waits for.  And the block an event accepts.
\<close>

definition ob_started :: "outbox_event \<Rightarrow> 's \<Rightarrow> bytes list" where
  "ob_started e x = (if (case e of Ob_resume \<Rightarrow> pc x = Wr_start \<or> pc x = Wr_wait True
       | Ob_written \<Rightarrow> (\<exists>b. pc x = Wr_write b) | _ \<Rightarrow> False)
     then (case pc (ob_step e x) of Wr_write b \<Rightarrow> [b] | _ \<Rightarrow> []) else [])"

definition ob_accepted :: "outbox_event \<Rightarrow> 's \<Rightarrow> bytes list" where
  "ob_accepted e x = (case e of Ob_send b \<Rightarrow> if closed x \<or> b = [] then [] else [b] | _ \<Rightarrow> [])"

fun ob_run :: "outbox_event list \<Rightarrow> 's \<Rightarrow> 's \<times> bytes list \<times> bytes list" where
  "ob_run [] x = (x, [], [])"
| "ob_run (e # es) x = (case ob_run es (ob_step e x) of
     (y, started, accepted) \<Rightarrow> (y, ob_started e x @ started, ob_accepted e x @ accepted))"

text \<open>No event but a started write takes blocks from the front, and sends append at the back.\<close>

lemma loop_started: "(case pc (loop x) of Wr_write b \<Rightarrow> [b] | _ \<Rightarrow> []) @ queue (loop x) = queue x"
  by (auto simp: loop_pc loop_queue split: list.splits)

lemma ob_step_queue: "ob_started e x @ queue (ob_step e x) = queue x @ ob_accepted e x"
proof (cases e)
  case Ob_resume
  then show ?thesis using loop_started[of x] by (simp add: ob_step_def ob_started_def ob_accepted_def)
next
  case Ob_written
  then show ?thesis
    using loop_started[of x] by (cases "pc x") (simp_all add: ob_step_def ob_started_def ob_accepted_def)
qed (auto simp: ob_step_def ob_started_def ob_accepted_def send_refused send_queue close_queue finish_queue
    split: writer_pc.splits)

theorem ob_run_fifo:
  "ob_run es x = (y, started, accepted) \<Longrightarrow> started @ queue y = queue x @ accepted"
proof (induction es arbitrary: x y started accepted)
  case Nil
  then show ?case by simp
next
  case (Cons e es)
  obtain y' st ac where r: "ob_run es (ob_step e x) = (y', st, ac)" by (cases "ob_run es (ob_step e x)")
  with Cons.prems have eqs: "y = y'" "started = ob_started e x @ st" "accepted = ob_accepted e x @ ac"
    by auto
  have "started @ queue y = ob_started e x @ (queue (ob_step e x) @ ac)"
    using Cons.IH[OF r] by (simp add: eqs)
  also have "\<dots> = (ob_started e x @ queue (ob_step e x)) @ ac" by simp
  also have "\<dots> = queue x @ accepted"
    unfolding ob_step_queue by (simp add: eqs)
  finally show ?case .
qed

text \<open>
  No lost wake-up: a writer that sleeps uncancelled has an empty queue and an open session, so the
  next send or close wakes it.
\<close>

definition awake_inv :: "'s \<Rightarrow> bool" where
  "awake_inv x \<longleftrightarrow> (pc x = Wr_wait False \<longrightarrow> queue x = [] \<and> \<not> closed x)"

lemma awake_send: "awake_inv x \<Longrightarrow> awake_inv (send b x)"
  by (cases "closed x \<or> b = []") (auto simp: awake_inv_def send_refused send_pc)

lemma awake_close: "awake_inv x \<Longrightarrow> awake_inv (close x)"
  by (auto simp: awake_inv_def close_pc close_queue)

lemma awake_loop: "awake_inv (loop x)"
  by (auto simp: awake_inv_def loop_pc loop_queue loop_closed split: list.splits)

lemma awake_finish: "awake_inv (finish x)"
  by (simp add: awake_inv_def finish_pc)

lemma awake_step: "awake_inv x \<Longrightarrow> awake_inv (ob_step e x)"
  by (cases e)
    (auto simp: ob_step_def awake_send awake_close awake_loop awake_finish split: writer_pc.splits)

theorem awake_run: "awake_inv x \<Longrightarrow> ob_run es x = (y, st, ac) \<Longrightarrow> awake_inv y"
proof (induction es arbitrary: x st ac)
  case (Cons e es)
  then show ?case
    by (auto split: prod.splits intro: awake_step)
qed simp

text \<open>Draining: on an open session, resumes and successful writes hand the whole queue to the socket.\<close>

lemma ob_drain:
  assumes "\<not> closed x" "pc x = Wr_write b" "queue x = q"
  shows "\<exists>y. ob_run (replicate (length q) Ob_written) x = (y, q, []) \<and> queue y = [] \<and> \<not> closed y"
  using assms
proof (induction q arbitrary: x b)
  case Nil
  then show ?case by simp
next
  case (Cons c q)
  have 1: "ob_step Ob_written x = loop x" "ob_started Ob_written x = [c]" "ob_accepted Ob_written x = []"
    using Cons.prems by (auto simp: ob_step_def ob_started_def ob_accepted_def loop_pc)
  have "\<exists>y. ob_run (replicate (length q) Ob_written) (loop x) = (y, q, []) \<and> queue y = [] \<and> \<not> closed y"
    using Cons.prems by (intro Cons.IH[of _ c]) (auto simp: loop_closed loop_pc loop_queue)
  then show ?case using 1 by auto
qed

end

end
