(* ===== verification/Session.thy ===== *)
theory Session
  imports Protocol Outbox
begin

text \<open>
  A connected game client: \<^verbatim>\<open>user_session\<close> and \<^verbatim>\<open>session_impl\<close> of
  \<^verbatim>\<open>source/session.hpp\<close> and the parts of \<^verbatim>\<open>source/session.cpp\<close> that touch
  the session only (\<^verbatim>\<open>send_bytes\<close>, \<^verbatim>\<open>close\<close>, \<^verbatim>\<open>consume_rx\<close>,
  \<^verbatim>\<open>start\<close>, the writer and the watchdog).  The reader, which calls the registry, is in
  Reader.

  The derived class is a record extension.  Its last fields are the program counters of the three
  coroutines; sockets and timers are the environment, so of \<^verbatim>\<open>timer_\<close> the expiry is kept
  (in seconds, as SERVER\_USER\_TIMEOUT\_SECONDS) and of \<^verbatim>\<open>write_signal_\<close> nothing but
  who waits on it.
\<close>

type_synonym sid = nat
type_synonym game_ptr = nat
type_synonym group_ptr = nat

record user_session =
  us_ip_be :: u32
  us_peer_label :: bytes
  us_mac :: bytes
  us_name :: bytes
  us_game :: "game_ptr option"
  us_group :: "group_ptr option"
  us_reaped :: bool

text \<open>
  Reader: not started, awaiting a read (or running the step after it), returned, or ended by an
  exception, which \<^verbatim>\<open>co_spawn(..., detached)\<close> discards.  Watchdog: not started, waiting
  on \<^verbatim>\<open>timer_\<close> (the flag: the wait was cancelled), returned.
\<close>

datatype reader_pc = Rd_start | Rd_read | Rd_done | Rd_threw
datatype watchdog_pc = Wd_start | Wd_wait bool | Wd_done

record session_impl = user_session +
  si_expiry :: nat
  si_rx :: bytes
  si_rxpos :: nat
  si_write_queue :: "bytes list"
  si_closed :: bool
  si_reader :: reader_pc
  si_writer :: writer_pc
  si_watchdog :: watchdog_pc

definition RX_SIZE :: nat where [simp]: "RX_SIZE = 1024"

text \<open>The object exists as long as a coroutine holds its \<^verbatim>\<open>shared_ptr\<close>.\<close>

definition alive :: "session_impl \<Rightarrow> bool" where
  "alive x \<longleftrightarrow> si_reader x \<in> {Rd_start, Rd_read} \<or> si_writer x \<noteq> Wr_done \<or> si_watchdog x \<noteq> Wd_done"

fun wake_watchdog :: "watchdog_pc \<Rightarrow> watchdog_pc" where
  "wake_watchdog (Wd_wait _) = Wd_wait True"
| "wake_watchdog pc = pc"

text \<open>\<^verbatim>\<open>timer_.expires_after\<close>: cancels the wait on the timer and sets the expiry.\<close>

definition timer_expires_after :: "nat \<Rightarrow> nat \<Rightarrow> session_impl \<Rightarrow> session_impl" where
  "timer_expires_after now secs x =
     x\<lparr>si_expiry := now + secs, si_watchdog := wake_watchdog (si_watchdog x)\<rparr>"

text \<open>
  A fresh session as the accept code makes it, and \<^verbatim>\<open>start()\<close>: the expiry is set and the
  three coroutines are spawned.
\<close>

definition new_session :: "u32 \<Rightarrow> bytes \<Rightarrow> session_impl" where
  "new_session ip label = \<lparr>us_ip_be = ip, us_peer_label = label, us_mac = replicate 6 0,
     us_name = replicate 128 0, us_game = None, us_group = None, us_reaped = False,
     si_expiry = 0, si_rx = replicate 1024 0, si_rxpos = 0, si_write_queue = [],
     si_closed = False, si_reader = Rd_done, si_writer = Wr_done, si_watchdog = Wd_done\<rparr>"

definition session_start :: "nat \<Rightarrow> session_impl \<Rightarrow> session_impl" where
  "session_start now x = (timer_expires_after now SERVER_USER_TIMEOUT_SECONDS x)
     \<lparr>si_reader := Rd_start, si_writer := Wr_start, si_watchdog := Wd_start\<rparr>"

definition send_bytes :: "bytes \<Rightarrow> session_impl \<Rightarrow> session_impl" where
  "send_bytes b x =
     (if si_closed x \<or> b = [] then x
      else x\<lparr>si_write_queue := si_write_queue x @ [b], si_writer := wake (si_writer x)\<rparr>)"

definition session_close :: "session_impl \<Rightarrow> session_impl" where
  "session_close x =
     (if si_closed x then x
      else x\<lparr>si_closed := True, si_watchdog := wake_watchdog (si_watchdog x),
             si_writer := wake (si_writer x)\<rparr>)"

text \<open>
  \<^verbatim>\<open>consume_rx(n)\<close>: \<^verbatim>\<open>memmove(rx_, rx_ + n, rxpos_ - n)\<close> moves the rest to the
  front and leaves what is behind it in place.
\<close>

definition consume_rx :: "nat \<Rightarrow> session_impl \<Rightarrow> session_impl" where
  "consume_rx n x = (let n = (if n > si_rxpos x then si_rxpos x else n); m = si_rxpos x - n in
     x\<lparr>si_rx := take m (drop n (si_rx x)) @ drop m (si_rx x), si_rxpos := m\<rparr>)"

text \<open>A completed read of \<open>b\<close> at \<^verbatim>\<open>rx_ + rxpos_\<close>, and \<^verbatim>\<open>rxpos_ += n\<close>.\<close>

definition receive :: "bytes \<Rightarrow> session_impl \<Rightarrow> session_impl" where
  "receive b x = x\<lparr>si_rx := take (si_rxpos x) (si_rx x) @ b @ drop (si_rxpos x + length b) (si_rx x),
     si_rxpos := si_rxpos x + length b\<rparr>"

section \<open>The writer\<close>

text \<open>
  From the head of the loop to the next await: return when closed, wait on the signal when the queue
  is empty, otherwise take the front block and write it.
\<close>

definition writer_loop :: "session_impl \<Rightarrow> session_impl" where
  "writer_loop x =
     (if si_closed x then x\<lparr>si_writer := Wr_done\<rparr>
      else case si_write_queue x of
        [] \<Rightarrow> x\<lparr>si_writer := Wr_wait False\<rparr>
      | b # q \<Rightarrow> x\<lparr>si_write_queue := q, si_writer := Wr_write b\<rparr>)"

definition writer_finish :: "session_impl \<Rightarrow> session_impl" where
  "writer_finish x = x\<lparr>si_writer := Wr_done\<rparr>"

text \<open>The completion of \<^verbatim>\<open>async_write\<close>, with or without an error.\<close>

definition writer_written :: "bool \<Rightarrow> session_impl \<Rightarrow> session_impl" where
  "writer_written ec x = (if ec then writer_finish (session_close x) else writer_loop x)"

section \<open>The watchdog\<close>

definition watchdog_loop :: "session_impl \<Rightarrow> session_impl" where
  "watchdog_loop x = x\<lparr>si_watchdog := (if si_closed x then Wd_done else Wd_wait False)\<rparr>"

text \<open>The timer wait completes; \<open>aborted\<close> says whether its code is operation\_aborted.\<close>

definition watchdog_wake :: "bool \<Rightarrow> nat \<Rightarrow> session_impl \<Rightarrow> session_impl" where
  "watchdog_wake aborted now x =
     (if si_closed x then x\<lparr>si_watchdog := Wd_done\<rparr>
      else if aborted then watchdog_loop x
      else if now \<ge> si_expiry x then (session_close x)\<lparr>si_watchdog := Wd_done\<rparr>
      else watchdog_loop x)"

section \<open>The receive buffer as a byte string\<close>

text \<open>What the buffer holds, and the invariant on its position.\<close>

definition rx_view :: "session_impl \<Rightarrow> bytes" where
  "rx_view x = take (si_rxpos x) (si_rx x)"

definition rx_wf :: "session_impl \<Rightarrow> bool" where
  "rx_wf x \<longleftrightarrow> length (si_rx x) = RX_SIZE \<and> si_rxpos x \<le> RX_SIZE"

lemma length_rx_view: "rx_wf x \<Longrightarrow> length (rx_view x) = si_rxpos x"
  by (simp add: rx_view_def rx_wf_def)

lemma rx_view_consume [simp]: "rx_wf x \<Longrightarrow> rx_view (consume_rx n x) = drop n (rx_view x)"
  by (auto simp: rx_view_def rx_wf_def consume_rx_def Let_def take_drop)

lemma rx_wf_consume [simp]: "rx_wf x \<Longrightarrow> rx_wf (consume_rx n x)"
  by (auto simp: rx_wf_def consume_rx_def Let_def)

lemma rxpos_consume: "rx_wf x \<Longrightarrow> si_rxpos (consume_rx n x) = si_rxpos x - n"
  by (auto simp: consume_rx_def Let_def)

lemma rx_view_receive [simp]: "rx_wf x \<Longrightarrow> rx_view (receive b x) = rx_view x @ b"
  by (simp add: rx_view_def rx_wf_def receive_def)

lemma rx_wf_receive [simp]: "rx_wf x \<Longrightarrow> si_rxpos x + length b \<le> RX_SIZE \<Longrightarrow> rx_wf (receive b x)"
  by (simp add: rx_wf_def receive_def)

section \<open>What the session operations leave alone\<close>

lemma send_bytes_frame [frame_simps]:
  "us_game (send_bytes b x) = us_game x" "us_group (send_bytes b x) = us_group x"
  "us_reaped (send_bytes b x) = us_reaped x" "us_mac (send_bytes b x) = us_mac x"
  "us_name (send_bytes b x) = us_name x" "us_ip_be (send_bytes b x) = us_ip_be x"
  "si_rx (send_bytes b x) = si_rx x" "si_rxpos (send_bytes b x) = si_rxpos x"
  "si_closed (send_bytes b x) = si_closed x" "si_reader (send_bytes b x) = si_reader x"
  "si_watchdog (send_bytes b x) = si_watchdog x" "si_expiry (send_bytes b x) = si_expiry x"
  by (auto simp: send_bytes_def)

lemma session_close_frame [frame_simps]:
  "us_game (session_close x) = us_game x" "us_group (session_close x) = us_group x"
  "us_reaped (session_close x) = us_reaped x" "us_mac (session_close x) = us_mac x"
  "us_name (session_close x) = us_name x" "us_ip_be (session_close x) = us_ip_be x"
  "si_rx (session_close x) = si_rx x" "si_rxpos (session_close x) = si_rxpos x"
  "si_write_queue (session_close x) = si_write_queue x"
  "si_closed (session_close x)" "si_reader (session_close x) = si_reader x"
  "si_expiry (session_close x) = si_expiry x"
  by (auto simp: session_close_def)

lemma session_close_watchdog:
  "si_watchdog (session_close x) = (if si_closed x then si_watchdog x else wake_watchdog (si_watchdog x))"
  by (simp add: session_close_def)

lemma writer_frame [frame_simps]:
  "us_game (writer_loop x) = us_game x" "us_group (writer_loop x) = us_group x"
  "us_reaped (writer_loop x) = us_reaped x" "us_mac (writer_loop x) = us_mac x"
  "us_name (writer_loop x) = us_name x" "us_ip_be (writer_loop x) = us_ip_be x"
  "si_rx (writer_loop x) = si_rx x" "si_rxpos (writer_loop x) = si_rxpos x"
  "si_closed (writer_loop x) = si_closed x" "si_reader (writer_loop x) = si_reader x"
  "si_watchdog (writer_loop x) = si_watchdog x" "si_expiry (writer_loop x) = si_expiry x"
  by (auto simp: writer_loop_def split: list.splits)

lemma watchdog_frame [frame_simps]:
  "us_game (watchdog_wake ab now x) = us_game x" "us_group (watchdog_wake ab now x) = us_group x"
  "us_reaped (watchdog_wake ab now x) = us_reaped x" "us_mac (watchdog_wake ab now x) = us_mac x"
  "us_name (watchdog_wake ab now x) = us_name x" "us_ip_be (watchdog_wake ab now x) = us_ip_be x"
  "si_rx (watchdog_wake ab now x) = si_rx x" "si_rxpos (watchdog_wake ab now x) = si_rxpos x"
  "si_reader (watchdog_wake ab now x) = si_reader x" "si_expiry (watchdog_wake ab now x) = si_expiry x"
  "si_write_queue (watchdog_wake ab now x) = si_write_queue x"
  by (auto simp: watchdog_wake_def watchdog_loop_def session_close_def)

lemma watchdog_loop_frame [frame_simps]:
  "us_game (watchdog_loop x) = us_game x" "us_group (watchdog_loop x) = us_group x"
  "us_reaped (watchdog_loop x) = us_reaped x" "si_reader (watchdog_loop x) = si_reader x"
  by (simp_all add: watchdog_loop_def)

lemma consume_rx_frame [frame_simps]:
  "us_game (consume_rx n x) = us_game x" "us_group (consume_rx n x) = us_group x"
  "us_reaped (consume_rx n x) = us_reaped x" "us_mac (consume_rx n x) = us_mac x"
  "us_name (consume_rx n x) = us_name x" "us_ip_be (consume_rx n x) = us_ip_be x"
  "si_write_queue (consume_rx n x) = si_write_queue x"
  "si_closed (consume_rx n x) = si_closed x" "si_reader (consume_rx n x) = si_reader x"
  "si_writer (consume_rx n x) = si_writer x" "si_watchdog (consume_rx n x) = si_watchdog x"
  "si_expiry (consume_rx n x) = si_expiry x"
  by (auto simp: consume_rx_def Let_def)

lemma receive_frame [frame_simps]:
  "us_game (receive b x) = us_game x" "us_group (receive b x) = us_group x"
  "us_reaped (receive b x) = us_reaped x" "us_mac (receive b x) = us_mac x"
  "us_name (receive b x) = us_name x" "us_ip_be (receive b x) = us_ip_be x"
  "si_write_queue (receive b x) = si_write_queue x"
  "si_closed (receive b x) = si_closed x" "si_reader (receive b x) = si_reader x"
  "si_writer (receive b x) = si_writer x" "si_watchdog (receive b x) = si_watchdog x"
  "si_expiry (receive b x) = si_expiry x"
  by (auto simp: receive_def)

lemma alive_send [simp]: "alive (send_bytes b x) \<longleftrightarrow> alive x"
  by (auto simp: alive_def send_bytes_def)

lemma wake_watchdog_done [simp]: "wake_watchdog pc = Wd_done \<longleftrightarrow> pc = Wd_done"
  by (cases pc) auto

lemma alive_close [simp]: "alive (session_close x) \<longleftrightarrow> alive x"
  by (auto simp: alive_def session_close_def)

lemma alive_consume [simp]: "alive (consume_rx n x) \<longleftrightarrow> alive x"
  by (simp add: alive_def consume_rx_def Let_def)

lemma alive_receive [simp]: "alive (receive b x) \<longleftrightarrow> alive x"
  by (simp add: alive_def receive_def)

section \<open>The session provides the outbox contract\<close>

interpretation so: outbox si_write_queue si_closed si_writer send_bytes session_close
    writer_loop writer_finish
  by unfold_locales
    (auto simp: send_bytes_def session_close_def writer_loop_def writer_finish_def split: list.splits)

end
