(* ===== verification/Registry.thy ===== *)
theory Registry
  imports Database Session
begin

text \<open>
  The registry of the game server: the node types and the class of \<^verbatim>\<open>source/registry.hpp\<close>
  and every operation of \<^verbatim>\<open>source/registry.cpp\<close>.

  Pointers are explicit.  \<^verbatim>\<open>game_node*\<close> and \<^verbatim>\<open>group_node*\<close> are addresses
  into two heaps, \<^verbatim>\<open>std::unique_ptr\<close> ownership is the entry of the owning map, erasing the
  entry frees the node, and \<^verbatim>\<open>user_session*\<close> is the identity of a session object, alive as
  long as one of its coroutines is.  Every dereference is checked: an operation that follows a dangling
  pointer is \<^term>\<open>None\<close>.  Addresses come from a counter and are never reused, so a stale pointer
  can never be mistaken for a live one.

  Log lines are not modelled, but a dereference a log line makes is.
\<close>

section \<open>State\<close>

record group_node =
  gn_name :: bytes
  gn_game :: game_ptr
  gn_players :: "sid list"

record game_node =
  gm_code :: bytes
  gm_code_str :: bytes
  gm_groups :: "(bytes, group_ptr) umap"
  gm_users :: "sid list"

text \<open>The registry's members, with the heaps its pointers point into and the session objects.\<close>

record 'db world =
  w_sessions :: "sid \<Rightarrow> session_impl option"
  w_game_heap :: "game_ptr \<Rightarrow> game_node option"
  w_group_heap :: "group_ptr \<Rightarrow> group_node option"
  w_games :: "(bytes, game_ptr) umap"
  w_connection_count :: nat
  w_shutdown_broadcasted :: bool
  w_db :: "'db option"
  w_next_node :: nat
  w_next_sid :: sid

definition registry_init :: "'db option \<Rightarrow> 'db world" where
  "registry_init h = \<lparr>w_sessions = (\<lambda>_. None), w_game_heap = (\<lambda>_. None), w_group_heap = (\<lambda>_. None),
     w_games = [], w_connection_count = 0, w_shutdown_broadcasted = False, w_db = h,
     w_next_node = 0, w_next_sid = 0\<rparr>"

section \<open>Checked dereferences\<close>

definition session_at :: "'db world \<Rightarrow> sid \<Rightarrow> session_impl option" where
  "session_at w s = (case w_sessions w s of Some x \<Rightarrow> if alive x then Some x else None | None \<Rightarrow> None)"

definition set_session :: "sid \<Rightarrow> session_impl \<Rightarrow> 'db world \<Rightarrow> 'db world" where
  "set_session s x w = w\<lparr>w_sessions := (w_sessions w)(s \<mapsto> x)\<rparr>"

definition on_session :: "sid \<Rightarrow> (session_impl \<Rightarrow> session_impl) \<Rightarrow> 'db world \<Rightarrow> 'db world option" where
  "on_session s f w = do { x \<leftarrow> session_at w s; Some (set_session s (f x) w) }"

definition game_at :: "'db world \<Rightarrow> game_ptr \<Rightarrow> game_node option" where
  "game_at w p = w_game_heap w p"

definition set_game :: "game_ptr \<Rightarrow> game_node \<Rightarrow> 'db world \<Rightarrow> 'db world" where
  "set_game p g w = w\<lparr>w_game_heap := (w_game_heap w)(p \<mapsto> g)\<rparr>"

definition group_at :: "'db world \<Rightarrow> group_ptr \<Rightarrow> group_node option" where
  "group_at w q = w_group_heap w q"

definition set_group :: "group_ptr \<Rightarrow> group_node \<Rightarrow> 'db world \<Rightarrow> 'db world" where
  "set_group q g w = w\<lparr>w_group_heap := (w_group_heap w)(q \<mapsto> g)\<rparr>"

text \<open>\<^verbatim>\<open>vector_remove\<close>: erase the first occurrence.\<close>

definition vector_remove :: "'a \<Rightarrow> 'a list \<Rightarrow> 'a list" where
  "vector_remove x v = remove1 x v"

text \<open>The virtual call \<^verbatim>\<open>peer->send_bytes(bytes)\<close>, and the loops that make it.\<close>

definition send_to :: "sid \<Rightarrow> bytes \<Rightarrow> 'db world \<Rightarrow> 'db world option" where
  "send_to s b w = on_session s (send_bytes b) w"

fun send_each :: "sid list \<Rightarrow> bytes \<Rightarrow> 'db world \<Rightarrow> 'db world option" where
  "send_each [] b w = Some w"
| "send_each (p # ps) b w = do { w \<leftarrow> send_to p b w; send_each ps b w }"

section \<open>Connections\<close>

definition try_open_connection :: "'db world \<Rightarrow> bool \<times> 'db world" where
  "try_open_connection w =
     (if w_connection_count w \<ge> SERVER_USER_MAXIMUM then (False, w)
      else (True, w\<lparr>w_connection_count := w_connection_count w + 1\<rparr>))"

text \<open>\<^verbatim>\<open>groups.erase(key)\<close> on a game: the entry goes and its node is freed.\<close>

definition erase_group :: "game_ptr \<Rightarrow> bytes \<Rightarrow> 'db world \<Rightarrow> 'db world option" where
  "erase_group p key w = do {
     g \<leftarrow> game_at w p;
     case map_of (gm_groups g) key of
       None \<Rightarrow> Some w
     | Some q \<Rightarrow> Some ((set_game p (g\<lparr>gm_groups := um_erase key (gm_groups g)\<rparr>) w)
         \<lparr>w_group_heap := (w_group_heap w)(q := None)\<rparr>) }"

text \<open>\<^verbatim>\<open>games_.erase(game->code_str)\<close>: the entry goes and its node is freed.\<close>

definition erase_game :: "bytes \<Rightarrow> 'db world \<Rightarrow> 'db world" where
  "erase_game key w = (case map_of (w_games w) key of
     None \<Rightarrow> w
   | Some p \<Rightarrow> w\<lparr>w_games := um_erase key (w_games w), w_game_heap := (w_game_heap w)(p := None)\<rparr>)"

definition destroy_game_if_empty :: "game_ptr \<Rightarrow> 'db world \<Rightarrow> 'db world option" where
  "destroy_game_if_empty p w = do {
     g \<leftarrow> game_at w p;
     Some (if gm_users g = [] then erase_game (gm_code_str g) w else w) }"

text \<open>\<^verbatim>\<open>packet_bytes(disconnect_packet_s2c{...})\<close>.\<close>

definition disconnect_notice :: "u32 \<Rightarrow> bytes" where
  "disconnect_notice ip = disconnect_s2c_bytes \<lparr>ds_opcode = opcode_byte OPCODE_DISCONNECT, ds_ip = ip\<rparr>"

definition leave_group :: "sid \<Rightarrow> 'db world \<Rightarrow> 'db world option" where
  "leave_group s w = do {
     x \<leftarrow> session_at w s;
     case us_group x of
       None \<Rightarrow> Some w
     | Some q \<Rightarrow> do {
         w \<leftarrow> on_session s (us_group_update (\<lambda>_. None)) w;
         g \<leftarrow> group_at w q;
         let players = vector_remove s (gn_players g);
         let w = set_group q (g\<lparr>gn_players := players\<rparr>) w;
         w \<leftarrow> send_each players (disconnect_notice (us_ip_be x)) w;
         _ \<leftarrow> (case us_game x of None \<Rightarrow> Some [] | Some p \<Rightarrow> map_option gm_code_str (game_at w p));
         if players = [] then
           (case us_game x of None \<Rightarrow> Some w | Some p \<Rightarrow> erase_group p (gn_name g) w)
         else Some w } }"

definition close_connection :: "sid \<Rightarrow> 'db world \<Rightarrow> 'db world option" where
  "close_connection s w = do {
     x \<leftarrow> session_at w s;
     if us_reaped x then Some w
     else do {
       w \<leftarrow> on_session s (us_reaped_update (\<lambda>_. True)) w;
       w \<leftarrow> (if us_group x \<noteq> None then leave_group s w else Some w);
       w \<leftarrow> (case us_game x of
          None \<Rightarrow> Some w
        | Some p \<Rightarrow> do {
            w \<leftarrow> on_session s (us_game_update (\<lambda>_. None)) w;
            g \<leftarrow> game_at w p;
            destroy_game_if_empty p (set_game p (g\<lparr>gm_users := vector_remove s (gm_users g)\<rparr>) w) });
       Some (if w_connection_count w \<noteq> 0
             then w\<lparr>w_connection_count := w_connection_count w - 1\<rparr> else w) } }"

section \<open>Login\<close>

text \<open>\<^verbatim>\<open>games_.find(key)\<close>, or a new node under that key.\<close>

definition find_or_create_game :: "bytes \<Rightarrow> bytes \<Rightarrow> 'db world \<Rightarrow> game_ptr \<times> 'db world" where
  "find_or_create_game code key w = (case map_of (w_games w) key of
     Some p \<Rightarrow> (p, w)
   | None \<Rightarrow> let p = w_next_node w in
       (p, (set_game p \<lparr>gm_code = code, gm_code_str = key, gm_groups = [], gm_users = []\<rparr> w)
          \<lparr>w_games := um_emplace key p (w_games w), w_next_node := Suc p\<rparr>))"

text \<open>The part of \<^verbatim>\<open>handle_login\<close> after the database calls.\<close>

definition login_to :: "sid \<Rightarrow> login_packet_c2s \<Rightarrow> bytes \<Rightarrow> 'db world \<Rightarrow> 'db world option" where
  "login_to s pkt code w = (case find_or_create_game code (product_code_str code) w of
     (p, w) \<Rightarrow> do {
       w \<leftarrow> on_session s (\<lambda>x. x\<lparr>us_mac := lp_mac pkt, us_name := lp_name pkt, us_game := Some p\<rparr>) w;
       g \<leftarrow> game_at w p;
       Some (set_game p (g\<lparr>gm_users := gm_users g @ [s]\<rparr>) w) })"

definition handle_login ::
    "'db sqlite_api \<Rightarrow> sid \<Rightarrow> login_packet_c2s \<Rightarrow> 'db world \<Rightarrow> ((exn + bool) \<times> 'db world) option" where
  "handle_login api s pkt w = do {
     x \<leftarrow> session_at w s;
     if us_game x \<noteq> None then Some (Inr False, w)
     else if \<not> valid_login_packet pkt then Some (Inr False, w)
     else case apply_crosslink api (w_db w) (lp_game pkt) of
       (Inl e, h) \<Rightarrow> Some (Inl e, w\<lparr>w_db := h\<rparr>)
     | (Inr code, h) \<Rightarrow> (case record_unknown_product api h code of
         (Inl e, h) \<Rightarrow> Some (Inl e, w\<lparr>w_db := h\<rparr>)
       | (Inr _, h) \<Rightarrow> do { w \<leftarrow> login_to s pkt code (w\<lparr>w_db := h\<rparr>); Some (Inr True, w) }) }"

section \<open>Groups\<close>

definition connect_notice :: "session_impl \<Rightarrow> bytes" where
  "connect_notice x = connect_s2c_bytes \<lparr>cs_opcode = opcode_byte OPCODE_CONNECT, cs_name = us_name x,
     cs_mac = us_mac x, cs_ip = us_ip_be x\<rparr>"

definition bssid_notice :: "bytes \<Rightarrow> bytes" where
  "bssid_notice m = connect_bssid_s2c_bytes \<lparr>bs_opcode = opcode_byte OPCODE_CONNECT_BSSID, bs_mac = m\<rparr>"

text \<open>The loop of \<^verbatim>\<open>handle_connect\<close>: the peer learns of the session, the session of the peer.\<close>

fun introduce :: "sid \<Rightarrow> sid list \<Rightarrow> 'db world \<Rightarrow> 'db world option" where
  "introduce s [] w = Some w"
| "introduce s (p # ps) w = do {
     x \<leftarrow> session_at w s;
     w \<leftarrow> send_to p (connect_notice x) w;
     y \<leftarrow> session_at w p;
     w \<leftarrow> send_to s (connect_notice y) w;
     introduce s ps w }"

definition find_or_create_group :: "game_ptr \<Rightarrow> bytes \<Rightarrow> 'db world \<Rightarrow> (group_ptr \<times> 'db world) option" where
  "find_or_create_group p key w = do {
     g \<leftarrow> game_at w p;
     case map_of (gm_groups g) key of
       Some q \<Rightarrow> Some (q, w)
     | None \<Rightarrow> let q = w_next_node w in
         Some (q, (set_group q \<lparr>gn_name = key, gn_game = p, gn_players = []\<rparr>
             (set_game p (g\<lparr>gm_groups := um_emplace key q (gm_groups g)\<rparr>) w))
           \<lparr>w_next_node := Suc q\<rparr>) }"

text \<open>The part of \<^verbatim>\<open>handle_connect\<close> after the group is known.\<close>

definition join_group :: "sid \<Rightarrow> group_ptr \<Rightarrow> 'db world \<Rightarrow> 'db world option" where
  "join_group s q w = do {
     gr \<leftarrow> group_at w q;
     w \<leftarrow> introduce s (gn_players gr) w;
     gr \<leftarrow> group_at w q;
     let players = gn_players gr @ [s];
     let w = set_group q (gr\<lparr>gn_players := players\<rparr>) w;
     w \<leftarrow> on_session s (us_group_update (\<lambda>_. Some q)) w;
     x \<leftarrow> session_at w s;
     founder \<leftarrow> (if players = [] then Some (us_mac x) else map_option us_mac (session_at w (hd players)));
     send_to s (bssid_notice founder) w }"

definition handle_connect :: "sid \<Rightarrow> bytes \<Rightarrow> 'db world \<Rightarrow> (bool \<times> 'db world) option" where
  "handle_connect s group_name w = do {
     x \<leftarrow> session_at w s;
     case us_game x of
       None \<Rightarrow> Some (False, w)
     | Some p \<Rightarrow>
       if \<not> valid_group_name group_name then do { _ \<leftarrow> game_at w p; Some (False, w) }
       else if us_group x \<noteq> None then Some (False, w)
       else do {
         (q, w) \<leftarrow> find_or_create_group p (group_name_str group_name) w;
         w \<leftarrow> join_group s q w;
         _ \<leftarrow> game_at w p;
         Some (True, w) } }"

definition handle_disconnect :: "sid \<Rightarrow> 'db world \<Rightarrow> (bool \<times> 'db world) option" where
  "handle_disconnect s w = do {
     x \<leftarrow> session_at w s;
     if us_game x = None then Some (False, w)
     else if us_group x = None then Some (False, w)
     else do { w \<leftarrow> leave_group s w; Some (True, w) } }"

definition scan_notice :: "bytes \<Rightarrow> bytes \<Rightarrow> bytes" where
  "scan_notice name m = scan_s2c_bytes \<lparr>ss_opcode = opcode_byte OPCODE_SCAN,
     ss_group = data_from ADHOCCTL_GROUPNAME_LEN name, ss_mac = m\<rparr>"

text \<open>The loop of \<^verbatim>\<open>handle_scan\<close> over the groups of the session's game.\<close>

fun scan_each :: "sid \<Rightarrow> (bytes, group_ptr) umap \<Rightarrow> 'db world \<Rightarrow> 'db world option" where
  "scan_each s [] w = Some w"
| "scan_each s ((key, q) # gs) w = do {
     gr \<leftarrow> group_at w q;
     x \<leftarrow> session_at w s;
     m \<leftarrow> (case gn_players gr of [] \<Rightarrow> Some (us_mac x) | p # _ \<Rightarrow> map_option us_mac (session_at w p));
     w \<leftarrow> send_to s (scan_notice (gn_name gr) m) w;
     scan_each s gs w }"

definition handle_scan :: "sid \<Rightarrow> 'db world \<Rightarrow> (bool \<times> 'db world) option" where
  "handle_scan s w = do {
     x \<leftarrow> session_at w s;
     case us_game x of
       None \<Rightarrow> Some (False, w)
     | Some p \<Rightarrow>
       if us_group x \<noteq> None then Some (False, w)
       else do {
         g \<leftarrow> game_at w p;
         w \<leftarrow> scan_each s (gm_groups g) w;
         w \<leftarrow> send_to s [opcode_byte OPCODE_SCAN_COMPLETE] w;
         Some (True, w) } }"

definition chat_notice :: "bytes \<Rightarrow> bytes \<Rightarrow> bytes" where
  "chat_notice message nick = chat_s2c_bytes \<lparr>hs_base = \<lparr>hc_opcode = opcode_byte OPCODE_CHAT,
     hc_message = data_from CHAT_MESSAGE_LEN message\<rparr>, hs_name = nick\<rparr>"

text \<open>
  The loop over the players skips the sender.  The dereferences of the log line are made when at
  least one peer was sent to.
\<close>

definition handle_chat :: "sid \<Rightarrow> bytes \<Rightarrow> 'db world \<Rightarrow> (bool \<times> 'db world) option" where
  "handle_chat s message w = do {
     x \<leftarrow> session_at w s;
     case us_game x of
       None \<Rightarrow> Some (False, w)
     | Some p \<Rightarrow> (case us_group x of
         None \<Rightarrow> Some (False, w)
       | Some q \<Rightarrow> do {
           gr \<leftarrow> group_at w q;
           let peers = filter (\<lambda>t. t \<noteq> s) (gn_players gr);
           w \<leftarrow> send_each peers (chat_notice message (us_name x)) w;
           _ \<leftarrow> (if peers \<noteq> [] then map_option gm_code_str (game_at w p) else Some []);
           Some (True, w) }) }"

section \<open>Shutdown and status\<close>

fun broadcast_groups :: "(bytes, group_ptr) umap \<Rightarrow> bytes \<Rightarrow> 'db world \<Rightarrow> 'db world option" where
  "broadcast_groups [] b w = Some w"
| "broadcast_groups ((key, q) # gs) b w = do {
     gr \<leftarrow> group_at w q; w \<leftarrow> send_each (gn_players gr) b w; broadcast_groups gs b w }"

fun broadcast_games :: "(bytes, game_ptr) umap \<Rightarrow> bytes \<Rightarrow> 'db world \<Rightarrow> 'db world option" where
  "broadcast_games [] b w = Some w"
| "broadcast_games ((key, p) # ps) b w = do {
     g \<leftarrow> game_at w p; w \<leftarrow> broadcast_groups (gm_groups g) b w; broadcast_games ps b w }"

definition shutdown_notice :: bytes where
  "shutdown_notice = chat_notice SERVER_SHUTDOWN_MESSAGE (replicate ADHOCCTL_NICKNAME_LEN 0)"

definition broadcast_shutdown :: "'db world \<Rightarrow> 'db world option" where
  "broadcast_shutdown w =
     (if w_shutdown_broadcasted w then Some w
      else broadcast_games (w_games w) shutdown_notice (w\<lparr>w_shutdown_broadcasted := True\<rparr>))"

record status_user =
  su_name :: bytes
  su_mac :: bytes
  su_product_code :: bytes
  su_group :: "bytes option"

fun snapshot_users :: "bytes \<Rightarrow> sid list \<Rightarrow> 'db world \<Rightarrow> status_user list option" where
  "snapshot_users code [] w = Some []"
| "snapshot_users code (s # ss) w = do {
     x \<leftarrow> session_at w s;
     grp \<leftarrow> (case us_group x of None \<Rightarrow> Some None
       | Some q \<Rightarrow> do { gr \<leftarrow> group_at w q; Some (Some (gn_name gr)) });
     rest \<leftarrow> snapshot_users code ss w;
     Some (\<lparr>su_name = nickname_str (us_name x), su_mac = us_mac x, su_product_code = code,
            su_group = grp\<rparr> # rest) }"

fun snapshot_games :: "(bytes, game_ptr) umap \<Rightarrow> 'db world \<Rightarrow> status_user list option" where
  "snapshot_games [] w = Some []"
| "snapshot_games ((key, p) # ps) w = do {
     g \<leftarrow> game_at w p;
     us \<leftarrow> snapshot_users (gm_code_str g) (gm_users g) w;
     rest \<leftarrow> snapshot_games ps w;
     Some (us @ rest) }"

definition snapshot_for_status :: "'db world \<Rightarrow> status_user list option" where
  "snapshot_for_status w = snapshot_games (w_games w) w"

end
