(* ===== verification/Registry_Links.thy ===== *)
theory Registry_Links
  imports Registry
begin

text \<open>
  The pointer structure of the registry and what the operations do to it.  \<open>links_inv\<close> says
  that no pointer dangles: maps, heaps and back pointers agree, every node has a user or a player, and
  every session a node names is alive.  Sends never touch that structure, so every loop of sends has a
  closed form (\<open>deliver\<close>), and each operation's effect is a change of links followed by one
  \<open>deliver\<close>.
\<close>

section \<open>Links\<close>

definition gm_of :: "'db world \<Rightarrow> sid \<Rightarrow> game_ptr option" where
  "gm_of w s = (case w_sessions w s of None \<Rightarrow> None | Some x \<Rightarrow> us_game x)"

definition gr_of :: "'db world \<Rightarrow> sid \<Rightarrow> group_ptr option" where
  "gr_of w s = (case w_sessions w s of None \<Rightarrow> None | Some x \<Rightarrow> us_group x)"

text \<open>The game map and the game heap are inverse to each other by the code string.\<close>

definition games_wf :: "'db world \<Rightarrow> bool" where
  "games_wf w \<longleftrightarrow> um_wf (w_games w)
     \<and> (\<forall>k p. map_of (w_games w) k = Some p \<longrightarrow> w_game_heap w p \<noteq> None)
     \<and> (\<forall>p g k. w_game_heap w p = Some g \<longrightarrow>
          (map_of (w_games w) k = Some p \<longleftrightarrow> gm_code_str g = k))"

text \<open>A game's group map holds exactly the groups that point back to the game, by their name.\<close>

definition groups_wf :: "'db world \<Rightarrow> bool" where
  "groups_wf w \<longleftrightarrow>
     (\<forall>p g. w_game_heap w p = Some g \<longrightarrow> um_wf (gm_groups g))
     \<and> (\<forall>p g k q. w_game_heap w p = Some g \<longrightarrow> map_of (gm_groups g) k = Some q \<longrightarrow> w_group_heap w q \<noteq> None)
     \<and> (\<forall>q gr. w_group_heap w q = Some gr \<longrightarrow> w_game_heap w (gn_game gr) \<noteq> None)
     \<and> (\<forall>p g q gr k. w_game_heap w p = Some g \<longrightarrow> w_group_heap w q = Some gr \<longrightarrow>
          (map_of (gm_groups g) k = Some q \<longleftrightarrow> gn_name gr = k \<and> gn_game gr = p))"

definition users_wf :: "'db world \<Rightarrow> bool" where
  "users_wf w \<longleftrightarrow>
     (\<forall>p g. w_game_heap w p = Some g \<longrightarrow> gm_users g \<noteq> [] \<and> distinct (gm_users g))
     \<and> (\<forall>p g s. w_game_heap w p = Some g \<longrightarrow> (s \<in> set (gm_users g) \<longleftrightarrow> gm_of w s = Some p))
     \<and> (\<forall>s p. gm_of w s = Some p \<longrightarrow> w_game_heap w p \<noteq> None)"

definition players_wf :: "'db world \<Rightarrow> bool" where
  "players_wf w \<longleftrightarrow>
     (\<forall>q gr. w_group_heap w q = Some gr \<longrightarrow> gn_players gr \<noteq> [] \<and> distinct (gn_players gr))
     \<and> (\<forall>q gr s. w_group_heap w q = Some gr \<longrightarrow> (s \<in> set (gn_players gr) \<longleftrightarrow> gr_of w s = Some q))
     \<and> (\<forall>s q. gr_of w s = Some q \<longrightarrow> w_group_heap w q \<noteq> None)
     \<and> (\<forall>s q gr. gr_of w s = Some q \<longrightarrow> w_group_heap w q = Some gr \<longrightarrow> gm_of w s = Some (gn_game gr))"

definition fresh_wf :: "'db world \<Rightarrow> bool" where
  "fresh_wf w \<longleftrightarrow> (\<forall>p. w_next_node w \<le> p \<longrightarrow> w_game_heap w p = None \<and> w_group_heap w p = None)"

definition live_wf :: "'db world \<Rightarrow> bool" where
  "live_wf w \<longleftrightarrow> (\<forall>s. gm_of w s \<noteq> None \<longrightarrow> session_at w s \<noteq> None)"

definition links_inv :: "'db world \<Rightarrow> bool" where
  "links_inv w \<longleftrightarrow> games_wf w \<and> groups_wf w \<and> users_wf w \<and> players_wf w \<and> fresh_wf w \<and> live_wf w"

lemmas links_defs = games_wf_def groups_wf_def users_wf_def players_wf_def fresh_wf_def live_wf_def

lemma links_inv_init: "links_inv (registry_init h)"
  by (simp add: links_inv_def links_defs registry_init_def gm_of_def gr_of_def)

text \<open>The invariant read forwards, for the proofs of the operations.\<close>

lemma games_wfD:
  assumes "games_wf w"
  shows "um_wf (w_games w)"
    "map_of (w_games w) k = Some p \<Longrightarrow> \<exists>g. w_game_heap w p = Some g \<and> gm_code_str g = k"
    "w_game_heap w p = Some g \<Longrightarrow> map_of (w_games w) k = Some p \<longleftrightarrow> gm_code_str g = k"
proof -
  show "um_wf (w_games w)" using assms by (simp add: games_wf_def)
  show iff: "w_game_heap w p = Some g \<Longrightarrow> map_of (w_games w) k = Some p \<longleftrightarrow> gm_code_str g = k" for g
    using assms unfolding games_wf_def by blast
  show "map_of (w_games w) k = Some p \<Longrightarrow> \<exists>g. w_game_heap w p = Some g \<and> gm_code_str g = k"
    using assms iff unfolding games_wf_def by (metis not_None_eq)
qed

lemma groups_wfD:
  assumes "groups_wf w"
  shows "w_game_heap w p = Some g \<Longrightarrow> um_wf (gm_groups g)"
    "w_game_heap w p = Some g \<Longrightarrow> map_of (gm_groups g) k = Some q \<Longrightarrow>
       \<exists>gr. w_group_heap w q = Some gr \<and> gn_name gr = k \<and> gn_game gr = p"
    "w_group_heap w q = Some gr \<Longrightarrow>
       \<exists>g. w_game_heap w (gn_game gr) = Some g \<and> map_of (gm_groups g) (gn_name gr) = Some q"
    "w_game_heap w p = Some g \<Longrightarrow> w_group_heap w q = Some gr \<Longrightarrow>
       map_of (gm_groups g) k = Some q \<longleftrightarrow> gn_name gr = k \<and> gn_game gr = p"
proof -
  show "w_game_heap w p = Some g \<Longrightarrow> um_wf (gm_groups g)"
    using assms unfolding groups_wf_def by blast
  have iff: "w_game_heap w p = Some g \<Longrightarrow> w_group_heap w q = Some gr \<Longrightarrow>
       map_of (gm_groups g) k = Some q \<longleftrightarrow> gn_name gr = k \<and> gn_game gr = p" for p g q gr k
    using assms unfolding groups_wf_def by blast
  then show "w_game_heap w p = Some g \<Longrightarrow> w_group_heap w q = Some gr \<Longrightarrow>
       map_of (gm_groups g) k = Some q \<longleftrightarrow> gn_name gr = k \<and> gn_game gr = p" .
  show "w_game_heap w p = Some g \<Longrightarrow> map_of (gm_groups g) k = Some q \<Longrightarrow>
       \<exists>gr. w_group_heap w q = Some gr \<and> gn_name gr = k \<and> gn_game gr = p"
    using assms iff unfolding groups_wf_def by (metis not_None_eq)
  show "w_group_heap w q = Some gr \<Longrightarrow>
       \<exists>g. w_game_heap w (gn_game gr) = Some g \<and> map_of (gm_groups g) (gn_name gr) = Some q"
    using assms iff unfolding groups_wf_def by (metis not_None_eq)
qed

lemma group_unique:
  assumes "groups_wf w" "w_group_heap w q = Some gr" "w_group_heap w q' = Some gr'"
    "gn_name gr' = gn_name gr" "gn_game gr' = gn_game gr"
  shows "q' = q"
  using groups_wfD(3)[OF assms(1,2)] groups_wfD(3)[OF assms(1,3)] assms(4,5) by auto

lemma users_wfD:
  assumes "users_wf w" "w_game_heap w p = Some g"
  shows "gm_users g \<noteq> []" "distinct (gm_users g)" "gm_of w s = Some p \<longleftrightarrow> s \<in> set (gm_users g)"
  using assms unfolding users_wf_def by blast+

lemma users_wf_game: "users_wf w \<Longrightarrow> gm_of w s = Some p \<Longrightarrow> \<exists>g. w_game_heap w p = Some g"
  unfolding users_wf_def by blast

lemma players_wfD:
  assumes "players_wf w" "w_group_heap w q = Some gr"
  shows "gn_players gr \<noteq> []" "distinct (gn_players gr)"
    "gr_of w s = Some q \<longleftrightarrow> s \<in> set (gn_players gr)"
    "s \<in> set (gn_players gr) \<Longrightarrow> gm_of w s = Some (gn_game gr)"
  using assms unfolding players_wf_def by blast+

lemma players_wf_group: "players_wf w \<Longrightarrow> gr_of w s = Some q \<Longrightarrow> \<exists>gr. w_group_heap w q = Some gr"
  unfolding players_wf_def by blast

lemma links_invD:
  assumes "links_inv w"
  shows "games_wf w" "groups_wf w" "users_wf w" "players_wf w" "fresh_wf w" "live_wf w"
  using assms by (simp_all add: links_inv_def)

lemma user_alive:
  assumes "links_inv w" "gm_of w s = Some p"
  obtains x g where "session_at w s = Some x" "us_game x = Some p" "w_sessions w s = Some x" "alive x"
    "w_game_heap w p = Some g" "s \<in> set (gm_users g)"
proof -
  note wf = links_invD[OF assms(1)]
  from wf(6) assms(2) have "session_at w s \<noteq> None" by (simp add: live_wf_def)
  then obtain x where x: "session_at w s = Some x" "w_sessions w s = Some x" "alive x"
    by (auto simp: session_at_def split: option.splits if_splits)
  moreover from x assms(2) have "us_game x = Some p" by (simp add: gm_of_def)
  moreover obtain g where g: "w_game_heap w p = Some g"
    using users_wf_game[OF wf(3) assms(2)] by blast
  moreover have "s \<in> set (gm_users g)" using users_wfD(3)[OF wf(3) g] assms(2) by blast
  ultimately show ?thesis using that by blast
qed

lemma player_group:
  assumes "links_inv w" "gr_of w s = Some q"
  obtains gr where "w_group_heap w q = Some gr" "gm_of w s = Some (gn_game gr)"
    "s \<in> set (gn_players gr)" "distinct (gn_players gr)"
proof -
  note wf = links_invD(4)[OF assms(1)]
  obtain gr where gr: "w_group_heap w q = Some gr" using players_wf_group[OF wf assms(2)] by blast
  then show ?thesis using that players_wfD[OF wf gr] assms(2) by blast
qed

lemma player_alive:
  assumes "links_inv w" "w_group_heap w q = Some gr" "s \<in> set (gn_players gr)"
  shows "session_at w s \<noteq> None" "gr_of w s = Some q" "gm_of w s = Some (gn_game gr)"
proof -
  note wf = links_invD(4)[OF assms(1)]
  show "gr_of w s = Some q" using players_wfD(3)[OF wf assms(2)] assms(3) by blast
  show "gm_of w s = Some (gn_game gr)" using players_wfD(4)[OF wf assms(2,3)] .
  then show "session_at w s \<noteq> None"
    using links_invD(6)[OF assms(1)] by (simp add: live_wf_def)
qed

section \<open>Deliveries\<close>

text \<open>\<open>deliver f w\<close>: every session \<open>s\<close> is sent the messages \<open>f s\<close>, in order.\<close>

definition send_all :: "bytes list \<Rightarrow> session_impl \<Rightarrow> session_impl" where
  "send_all bs x = fold send_bytes bs x"

definition deliver :: "(sid \<Rightarrow> bytes list) \<Rightarrow> 'db world \<Rightarrow> 'db world" where
  "deliver f w = w\<lparr>w_sessions := (\<lambda>s. map_option (send_all (f s)) (w_sessions w s))\<rparr>"

lemma send_all_Nil [simp]: "send_all [] = (\<lambda>x. x)"
  by (simp add: send_all_def fun_eq_iff)

lemma send_all_simps [simp]:
  "send_all (b # bs) x = send_all bs (send_bytes b x)"
  "send_all bs' (send_all bs x) = send_all (bs @ bs') x"
  by (simp_all add: send_all_def)

lemma send_all_frame [frame_simps]:
  "us_game (send_all bs x) = us_game x" "us_group (send_all bs x) = us_group x"
  "us_reaped (send_all bs x) = us_reaped x" "us_mac (send_all bs x) = us_mac x"
  "us_name (send_all bs x) = us_name x" "us_ip_be (send_all bs x) = us_ip_be x"
  "si_rx (send_all bs x) = si_rx x" "si_rxpos (send_all bs x) = si_rxpos x"
  "si_closed (send_all bs x) = si_closed x" "si_reader (send_all bs x) = si_reader x"
  "si_watchdog (send_all bs x) = si_watchdog x" "si_expiry (send_all bs x) = si_expiry x"
  "alive (send_all bs x) = alive x"
  by (induction bs arbitrary: x) (simp_all add: frame_simps)

lemma send_all_queue:
  "\<not> si_closed x \<Longrightarrow> [] \<notin> set bs \<Longrightarrow> si_write_queue (send_all bs x) = si_write_queue x @ bs"
proof (induction bs arbitrary: x)
  case (Cons b bs)
  then show ?case by (auto simp: frame_simps) (simp add: send_bytes_def)
qed simp

lemma deliver_frame [simp]:
  "w_game_heap (deliver f w) = w_game_heap w" "w_group_heap (deliver f w) = w_group_heap w"
  "w_games (deliver f w) = w_games w" "w_connection_count (deliver f w) = w_connection_count w"
  "w_shutdown_broadcasted (deliver f w) = w_shutdown_broadcasted w" "w_db (deliver f w) = w_db w"
  "w_next_node (deliver f w) = w_next_node w" "w_next_sid (deliver f w) = w_next_sid w"
  "game_at (deliver f w) p = game_at w p" "group_at (deliver f w) q = group_at w q"
  "gm_of (deliver f w) = gm_of w" "gr_of (deliver f w) = gr_of w"
  by (auto simp: deliver_def game_at_def group_at_def gm_of_def gr_of_def frame_simps fun_eq_iff
      split: option.splits)

lemma deliver_sessions: "w_sessions (deliver f w) s = map_option (send_all (f s)) (w_sessions w s)"
  by (simp add: deliver_def)

lemma session_at_deliver [simp]:
  "session_at (deliver f w) s = map_option (send_all (f s)) (session_at w s)"
  by (auto simp: session_at_def deliver_def frame_simps split: option.splits)

lemma deliver_none [simp]: "deliver (\<lambda>_. []) w = w"
  by (simp add: deliver_def option.map_ident cong: option.map_cong)

lemma deliver_deliver [simp]: "deliver g (deliver f w) = deliver (\<lambda>s. f s @ g s) w"
  by (simp add: deliver_def option.map_comp comp_def)

lemma links_inv_deliver [simp]: "links_inv (deliver f w) \<longleftrightarrow> links_inv w"
  by (simp add: links_inv_def links_defs)

lemma deliver_cong: "(\<And>s. f s = g s) \<Longrightarrow> deliver f w = deliver g w"
  by (simp add: deliver_def)

lemma deliver_nothing: "(\<And>s. f s = []) \<Longrightarrow> deliver f w = w"
  using deliver_cong[of f "\<lambda>_. []" w] by simp

section \<open>Closed forms of the send loops\<close>

lemma sessions_cong: "(\<And>s. f s = g s) \<Longrightarrow> w\<lparr>w_sessions := f\<rparr> = w\<lparr>w_sessions := g\<rparr>"
  by (metis ext)

lemma send_to_eq: "session_at w s \<noteq> None \<Longrightarrow> send_to s b w = Some (deliver (\<lambda>t. if t = s then [b] else []) w)"
  by (auto simp: send_to_def on_session_def set_session_def deliver_def session_at_def
      option.map_ident intro!: sessions_cong split: option.splits if_splits)

lemma send_each_eq:
  "\<forall>p\<in>set ps. session_at w p \<noteq> None \<Longrightarrow> distinct ps \<Longrightarrow>
   send_each ps b w = Some (deliver (\<lambda>t. if t \<in> set ps then [b] else []) w)"
proof (induction ps arbitrary: w)
  case (Cons p ps)
  have "send_each (p # ps) b w = send_each ps b (deliver (\<lambda>t. if t = p then [b] else []) w)"
    using Cons.prems by (simp add: send_to_eq)
  also have "\<dots> = Some (deliver (\<lambda>t. if t \<in> set ps then [b] else [])
      (deliver (\<lambda>t. if t = p then [b] else []) w))"
    using Cons.prems by (intro Cons.IH) auto
  also have "\<dots> = Some (deliver (\<lambda>t. if t \<in> set (p # ps) then [b] else []) w)"
    using Cons.prems(2) by (auto intro!: deliver_cong)
  finally show ?case .
qed simp

text \<open>What a session's peers learn of it; sends do not change it.\<close>

definition notice_of :: "'db world \<Rightarrow> sid \<Rightarrow> bytes" where
  "notice_of w s = (case session_at w s of None \<Rightarrow> [] | Some x \<Rightarrow> connect_notice x)"

lemma connect_notice_send_all [simp]:
  "connect_notice (send_all bs x) = connect_notice x"
  "connect_notice (send_bytes b x) = connect_notice x"
  by (simp_all add: connect_notice_def frame_simps)

lemma notice_of_deliver [simp]: "notice_of (deliver f w) = notice_of w"
  by (auto simp: notice_of_def fun_eq_iff split: option.splits)

lemma introduce_eq:
  "\<forall>p\<in>set (s # ps). session_at w p \<noteq> None \<Longrightarrow> distinct (s # ps) \<Longrightarrow>
   introduce s ps w = Some (deliver (\<lambda>t. if t = s then map (notice_of w) ps
     else if t \<in> set ps then [notice_of w s] else []) w)"
proof (induction ps arbitrary: w)
  case (Cons p ps)
  let ?f = "\<lambda>t. if t = p then [notice_of w s] else if t = s then [notice_of w p] else []"
  have "introduce s (p # ps) w = introduce s ps (deliver ?f w)"
    using Cons.prems by (auto simp: send_to_eq notice_of_def intro!: deliver_cong arg_cong[of _ _ "introduce s ps"])
  also have "\<dots> = Some (deliver (\<lambda>t. if t = s then map (notice_of w) ps
     else if t \<in> set ps then [notice_of w s] else []) (deliver ?f w))"
    using Cons.prems by (subst Cons.IH) (auto intro!: deliver_cong)
  also have "\<dots> = Some (deliver (\<lambda>t. if t = s then map (notice_of w) (p # ps)
     else if t \<in> set (p # ps) then [notice_of w s] else []) w)"
    using Cons.prems(2) by (auto intro!: deliver_cong)
  finally show ?case .
qed (simp add: deliver_nothing)

end
