(* ===== verification/Registry_Leave.thy ===== *)
theory Registry_Leave
  imports Registry_Links
begin

text \<open>
  Leaving: \<^verbatim>\<open>leave_group\<close>, \<^verbatim>\<open>handle_disconnect\<close> and
  \<^verbatim>\<open>close_connection\<close>.  Each is undefined on no state that satisfies \<open>links_inv\<close>,
  has a closed form there, and keeps the invariant.
\<close>

section \<open>Frame lemmas for the setters\<close>

lemmas setter_defs = set_session_def set_game_def set_group_def

lemma gm_of_set_session [simp]: "gm_of (set_session s x w) = (gm_of w)(s := us_game x)"
  by (auto simp: gm_of_def set_session_def)

lemma gr_of_set_session [simp]: "gr_of (set_session s x w) = (gr_of w)(s := us_group x)"
  by (auto simp: gr_of_def set_session_def)

lemma session_at_set_session [simp]:
  "session_at (set_session s x w) t = (if t = s then (if alive x then Some x else None) else session_at w t)"
  by (simp add: session_at_def set_session_def)

lemma links_of_sessions_cong:
  "w_sessions w = w_sessions w' \<Longrightarrow> gm_of w = gm_of w'"
  "w_sessions w = w_sessions w' \<Longrightarrow> gr_of w = gr_of w'"
  "w_sessions w = w_sessions w' \<Longrightarrow> session_at w = session_at w'"
  by (auto simp: gm_of_def gr_of_def session_at_def fun_eq_iff)

lemma gm_of_setters [simp]:
  "gm_of (set_game p g w) = gm_of w" "gm_of (set_group q gr w) = gm_of w"
  "gm_of (w\<lparr>w_group_heap := gh\<rparr>) = gm_of w" "gm_of (w\<lparr>w_games := gs\<rparr>) = gm_of w"
  "gm_of (w\<lparr>w_game_heap := h\<rparr>) = gm_of w" "gm_of (w\<lparr>w_next_node := n\<rparr>) = gm_of w"
  "gm_of (w\<lparr>w_connection_count := n\<rparr>) = gm_of w" "gm_of (w\<lparr>w_db := d\<rparr>) = gm_of w"
  "gm_of (w\<lparr>w_shutdown_broadcasted := b\<rparr>) = gm_of w"
  by (auto intro!: links_of_sessions_cong simp: setter_defs)

lemma gr_of_setters [simp]:
  "gr_of (set_game p g w) = gr_of w" "gr_of (set_group q gr w) = gr_of w"
  "gr_of (w\<lparr>w_group_heap := gh\<rparr>) = gr_of w" "gr_of (w\<lparr>w_games := gs\<rparr>) = gr_of w"
  "gr_of (w\<lparr>w_game_heap := h\<rparr>) = gr_of w" "gr_of (w\<lparr>w_next_node := n\<rparr>) = gr_of w"
  "gr_of (w\<lparr>w_connection_count := n\<rparr>) = gr_of w" "gr_of (w\<lparr>w_db := d\<rparr>) = gr_of w"
  "gr_of (w\<lparr>w_shutdown_broadcasted := b\<rparr>) = gr_of w"
  by (auto intro!: links_of_sessions_cong simp: setter_defs)

lemma session_at_setters [simp]:
  "session_at (set_game p g w) = session_at w" "session_at (set_group q gr w) = session_at w"
  "session_at (w\<lparr>w_group_heap := gh\<rparr>) = session_at w" "session_at (w\<lparr>w_games := gs\<rparr>) = session_at w"
  "session_at (w\<lparr>w_game_heap := h\<rparr>) = session_at w" "session_at (w\<lparr>w_next_node := n\<rparr>) = session_at w"
  "session_at (w\<lparr>w_connection_count := n\<rparr>) = session_at w" "session_at (w\<lparr>w_db := d\<rparr>) = session_at w"
  "session_at (w\<lparr>w_shutdown_broadcasted := b\<rparr>) = session_at w"
  by (auto intro!: links_of_sessions_cong simp: setter_defs)

lemma setters_heap [simp]:
  "w_game_heap (set_session s x w) = w_game_heap w" "w_group_heap (set_session s x w) = w_group_heap w"
  "w_games (set_session s x w) = w_games w" "w_next_node (set_session s x w) = w_next_node w"
  "w_game_heap (set_game p g w) = (w_game_heap w)(p \<mapsto> g)" "w_group_heap (set_game p g w) = w_group_heap w"
  "w_games (set_game p g w) = w_games w" "w_next_node (set_game p g w) = w_next_node w"
  "w_game_heap (set_group q gr w) = w_game_heap w"
  "w_group_heap (set_group q gr w) = (w_group_heap w)(q \<mapsto> gr)"
  "w_games (set_group q gr w) = w_games w" "w_next_node (set_group q gr w) = w_next_node w"
  "w_sessions (set_game p g w) = w_sessions w" "w_sessions (set_group q gr w) = w_sessions w"
  "w_sessions (set_session s x w) = (w_sessions w)(s \<mapsto> x)"
  by (simp_all add: setter_defs)

lemma setters_rest [simp]:
  "w_connection_count (set_session s x w) = w_connection_count w" "w_db (set_session s x w) = w_db w"
  "w_next_sid (set_session s x w) = w_next_sid w"
  "w_shutdown_broadcasted (set_session s x w) = w_shutdown_broadcasted w"
  "w_connection_count (set_game p g w) = w_connection_count w" "w_db (set_game p g w) = w_db w"
  "w_next_sid (set_game p g w) = w_next_sid w"
  "w_shutdown_broadcasted (set_game p g w) = w_shutdown_broadcasted w"
  "w_connection_count (set_group q gr w) = w_connection_count w" "w_db (set_group q gr w) = w_db w"
  "w_next_sid (set_group q gr w) = w_next_sid w"
  "w_shutdown_broadcasted (set_group q gr w) = w_shutdown_broadcasted w"
  by (simp_all add: setter_defs)

lemma deliver_setters:
  "set_game p g (deliver f w) = deliver f (set_game p g w)"
  "set_group q gr (deliver f w) = deliver f (set_group q gr w)"
  "(deliver f w)\<lparr>w_group_heap := gh\<rparr> = deliver f (w\<lparr>w_group_heap := gh\<rparr>)"
  "(deliver f w)\<lparr>w_game_heap := h\<rparr> = deliver f (w\<lparr>w_game_heap := h\<rparr>)"
  "(deliver f w)\<lparr>w_games := gs\<rparr> = deliver f (w\<lparr>w_games := gs\<rparr>)"
  "(deliver f w)\<lparr>w_connection_count := n\<rparr> = deliver f (w\<lparr>w_connection_count := n\<rparr>)"
  by (simp_all add: deliver_def setter_defs)

lemma set_session_set_group: "set_session s x (set_group q gr w) = set_group q gr (set_session s x w)"
  by (simp add: setter_defs)

lemma on_session_eq:
  "session_at w s = Some x \<Longrightarrow> on_session s f w = Some (set_session s (f x) w)"
  by (simp add: on_session_def)

section \<open>Leaving a group\<close>

text \<open>How the links change when session \<open>s\<close> leaves group \<open>q\<close>.\<close>

definition leave_links :: "sid \<Rightarrow> group_ptr \<Rightarrow> 'db world \<Rightarrow> 'db world" where
  "leave_links s q w =
     (let gr = the (w_group_heap w q); ps = remove1 s (gn_players gr); p = gn_game gr;
          w1 = set_session s ((the (w_sessions w s))\<lparr>us_group := None\<rparr>) w
      in if ps \<noteq> [] then set_group q (gr\<lparr>gn_players := ps\<rparr>) w1
         else let g = the (w_game_heap w p) in
           (set_game p (g\<lparr>gm_groups := um_erase (gn_name gr) (gm_groups g)\<rparr>) w1)
             \<lparr>w_group_heap := (w_group_heap w)(q := None)\<rparr>)"

lemma alive_group_update [simp]: "alive (us_group_update f x) \<longleftrightarrow> alive x"
  by (simp add: alive_def)

lemma alive_game_update [simp]: "alive (us_game_update f x) \<longleftrightarrow> alive x"
  by (simp add: alive_def)

lemma alive_reaped_update [simp]: "alive (us_reaped_update f x) \<longleftrightarrow> alive x"
  by (simp add: alive_def)

lemma leave_facts:
  assumes "links_inv w" "gr_of w s = Some q"
  obtains gr g x where "w_group_heap w q = Some gr" "w_game_heap w (gn_game gr) = Some g"
    "map_of (gm_groups g) (gn_name gr) = Some q" "session_at w s = Some x" "w_sessions w s = Some x"
    "alive x" "us_group x = Some q" "us_game x = Some (gn_game gr)" "s \<in> set (gn_players gr)"
    "distinct (gn_players gr)"
proof -
  obtain gr where gr: "w_group_heap w q = Some gr" "gm_of w s = Some (gn_game gr)"
    "s \<in> set (gn_players gr)" "distinct (gn_players gr)"
    using player_group[OF assms] by blast
  obtain x where x: "session_at w s = Some x" "us_game x = Some (gn_game gr)" "w_sessions w s = Some x"
    "alive x"
    using user_alive[OF assms(1) gr(2)] by blast
  obtain g where "w_game_heap w (gn_game gr) = Some g" "map_of (gm_groups g) (gn_name gr) = Some q"
    using groups_wfD(3)[OF links_invD(2)[OF assms(1)] gr(1)] by blast
  moreover have "us_group x = Some q" using assms(2) x by (simp add: gr_of_def)
  ultimately show ?thesis using that gr x by blast
qed

lemma send_players_eq:
  assumes "links_inv w" "w_group_heap w q = Some gr" "set ps \<subseteq> set (gn_players gr)" "distinct ps"
    "\<And>t. session_at w' t = None \<Longrightarrow> session_at w t = None"
  shows "send_each ps b w' = Some (deliver (\<lambda>t. if t \<in> set ps then [b] else []) w')"
  using assms player_alive(1)[OF assms(1,2)] by (intro send_each_eq) blast+

lemma leave_group_eq:
  assumes "links_inv w" "gr_of w s = Some q" "w_group_heap w q = Some gr" "w_sessions w s = Some x"
  shows "leave_group s w = Some (deliver
    (\<lambda>t. if t \<in> set (gn_players gr) - {s} then [disconnect_notice (us_ip_be x)] else [])
    (leave_links s q w))"
proof -
  obtain gr' g x' where f: "w_group_heap w q = Some gr'" "w_game_heap w (gn_game gr') = Some g"
    "map_of (gm_groups g) (gn_name gr') = Some q" "session_at w s = Some x'" "w_sessions w s = Some x'"
    "alive x'" "us_group x' = Some q" "us_game x' = Some (gn_game gr')" "s \<in> set (gn_players gr')"
    "distinct (gn_players gr')"
    by (rule leave_facts[OF assms(1,2)])
  with assms have [simp]: "gr' = gr" "x' = x" by auto
  let ?ps = "remove1 s (gn_players gr)" and ?b = "disconnect_notice (us_ip_be x)"
  let ?w1 = "set_session s (x\<lparr>us_group := None\<rparr>) w"
  let ?w2 = "set_group q (gr\<lparr>gn_players := ?ps\<rparr>) ?w1"
  let ?f = "\<lambda>t. if t \<in> set ?ps then [?b] else []"
  have send: "send_each ?ps ?b ?w2 = Some (deliver ?f ?w2)"
    using f by (intro send_players_eq[OF assms(1,3)])
      (auto dest: notin_set_remove1 split: if_splits simp: set_remove1_eq)
  have fs: "(\<lambda>t. if t \<in> set (gn_players gr) - {s} then [?b] else []) = ?f"
    using f by (auto simp: fun_eq_iff)
  show ?thesis
  proof (cases "?ps = []")
    case True
    then show ?thesis
      using f send unfolding fs
      by (simp add: leave_group_def on_session_eq leave_links_def Let_def group_at_def game_at_def
          vector_remove_def erase_group_def deliver_setters deliver_nothing)
  next
    case False
    then show ?thesis
      using f send unfolding fs
      by (simp add: leave_group_def on_session_eq leave_links_def Let_def group_at_def game_at_def
          vector_remove_def)
  qed
qed

lemma leave_links_gm [simp]: "w_sessions w s = Some x \<Longrightarrow> gm_of (leave_links s q w) = gm_of w"
  by (auto simp: leave_links_def Let_def gm_of_def fun_eq_iff)

lemma leave_links_gr [simp]: "gr_of (leave_links s q w) = (gr_of w)(s := None)"
  by (simp add: leave_links_def Let_def)

lemma leave_links_sessions [simp]:
  "w_sessions (leave_links s q w) = (w_sessions w)(s \<mapsto> (the (w_sessions w s))\<lparr>us_group := None\<rparr>)"
  by (simp add: leave_links_def Let_def)

lemma leave_links_rest [simp]:
  "w_connection_count (leave_links s q w) = w_connection_count w" "w_db (leave_links s q w) = w_db w"
  "w_next_sid (leave_links s q w) = w_next_sid w"
  "w_shutdown_broadcasted (leave_links s q w) = w_shutdown_broadcasted w"
  by (simp_all add: leave_links_def Let_def)

lemma leave_links_session_at:
  "session_at w s = Some x \<Longrightarrow> session_at (leave_links s q w) t =
     (if t = s then Some (x\<lparr>us_group := None\<rparr>) else session_at w t)"
  by (auto simp: leave_links_def Let_def session_at_def split: option.splits if_splits)

lemma leave_links_inv:
  assumes inv: "links_inv w" and q: "gr_of w s = Some q"
  shows "links_inv (leave_links s q w)"
proof -
  obtain gr g x where f: "w_group_heap w q = Some gr" "w_game_heap w (gn_game gr) = Some g"
    "map_of (gm_groups g) (gn_name gr) = Some q" "session_at w s = Some x" "w_sessions w s = Some x"
    "alive x" "us_group x = Some q" "us_game x = Some (gn_game gr)" "s \<in> set (gn_players gr)"
    "distinct (gn_players gr)"
    by (rule leave_facts[OF assms(1,2)])
  let ?w = "leave_links s q w"
  note wf = inv[unfolded links_inv_def]
  have unf: "leave_links s q w = (if remove1 s (gn_players gr) \<noteq> []
      then set_group q (gr\<lparr>gn_players := remove1 s (gn_players gr)\<rparr>) (set_session s (x\<lparr>us_group := None\<rparr>) w)
      else (set_game (gn_game gr) (g\<lparr>gm_groups := um_erase (gn_name gr) (gm_groups g)\<rparr>)
         (set_session s (x\<lparr>us_group := None\<rparr>) w))\<lparr>w_group_heap := (w_group_heap w)(q := None)\<rparr>)"
    using f by (simp add: leave_links_def Let_def)
  have gm: "gm_of ?w = gm_of w" and gr': "gr_of ?w = (gr_of w)(s := None)"
    using f by simp_all
  have "games_wf ?w"
    using wf f unfolding games_wf_def unf by auto
  moreover have "groups_wf ?w"
    using wf f unfolding groups_wf_def unf
    by (auto simp: map_of_um_erase split: if_splits dest: group_unique[OF links_invD(2)[OF inv] f(1)])
  moreover have alone: "gn_players gr = [s] \<Longrightarrow> gr_of w t = Some q \<Longrightarrow> t = s" for t
    using players_wfD(3)[OF links_invD(4)[OF inv] f(1), of t] by simp
  moreover have "users_wf ?w"
    using wf f unfolding users_wf_def gm unfolding unf by auto
  moreover have "players_wf ?w"
    using wf f unfolding players_wf_def gm gr' unfolding unf
    by (auto simp: remove1_Nil_iff split: if_splits dest: alone)
  moreover have "fresh_wf ?w"
    using wf f unfolding fresh_wf_def unf by auto
  moreover have "live_wf ?w"
    using wf f unfolding live_wf_def gm by (auto simp: leave_links_session_at)
  ultimately show ?thesis by (simp add: links_inv_def)
qed

section \<open>Leaving the game\<close>

text \<open>The peers that share a group with \<open>s\<close>.\<close>

definition peers_of :: "'db world \<Rightarrow> sid \<Rightarrow> sid set" where
  "peers_of w s = (case gr_of w s of None \<Rightarrow> {} | Some q \<Rightarrow>
     (case w_group_heap w q of None \<Rightarrow> {} | Some gr \<Rightarrow> set (gn_players gr) - {s}))"

definition leave_game :: "sid \<Rightarrow> game_ptr \<Rightarrow> 'db world \<Rightarrow> 'db world" where
  "leave_game s p w =
     (let g = the (w_game_heap w p); us = remove1 s (gm_users g);
          w1 = set_session s ((the (w_sessions w s))\<lparr>us_game := None\<rparr>) w
      in if us \<noteq> [] then set_game p (g\<lparr>gm_users := us\<rparr>) w1
         else w1\<lparr>w_games := um_erase (gm_code_str g) (w_games w),
                 w_game_heap := (w_game_heap w)(p := None)\<rparr>)"

definition closed_world :: "sid \<Rightarrow> 'db world \<Rightarrow> 'db world" where
  "closed_world s w =
     (let x = the (w_sessions w s); w1 = set_session s (x\<lparr>us_reaped := True\<rparr>) w;
          w2 = (case us_group x of None \<Rightarrow> w1 | Some q \<Rightarrow> leave_links s q w1);
          w3 = (case us_game x of None \<Rightarrow> w2 | Some p \<Rightarrow> leave_game s p w2)
      in w3\<lparr>w_connection_count := w_connection_count w - 1\<rparr>)"

lemma send_bytes_updates:
  "send_bytes b (us_game_update f x) = us_game_update f (send_bytes b x)"
  "send_bytes b (us_group_update g x) = us_group_update g (send_bytes b x)"
  by (simp_all add: send_bytes_def)

lemma send_all_updates:
  "send_all bs (us_game_update f x) = us_game_update f (send_all bs x)"
  "send_all bs (us_group_update g x) = us_group_update g (send_all bs x)"
  by (induction bs arbitrary: x) (simp_all add: send_bytes_updates)

lemma set_session_deliver:
  "set_session s (send_all (f s) y) (deliver f w) = deliver f (set_session s y w)"
  unfolding set_session_def deliver_def by (auto intro!: sessions_cong)

lemma on_session_deliver:
  assumes "w_sessions w s = Some x" "alive x" "\<And>bs. h (send_all bs x) = send_all bs (h x)"
  shows "on_session s h (deliver f w) = Some (deliver f (set_session s (h x) w))"
proof -
  have "session_at (deliver f w) s = Some (send_all (f s) x)"
    using assms(1,2) by (simp add: session_at_def deliver_sessions frame_simps)
  then show ?thesis by (simp add: on_session_eq assms(3) set_session_deliver)
qed

lemma leave_game_deliver:
  "w_sessions w s = Some x \<Longrightarrow> leave_game s p (deliver f w) = deliver f (leave_game s p w)"
  by (simp add: leave_game_def Let_def deliver_sessions send_all_updates[symmetric] set_session_deliver
      deliver_setters)

lemma links_inv_count [simp]:
  "links_inv (w\<lparr>w_connection_count := n\<rparr>) \<longleftrightarrow> links_inv w" "links_inv (w\<lparr>w_db := h\<rparr>) \<longleftrightarrow> links_inv w"
  "links_inv (w\<lparr>w_shutdown_broadcasted := b\<rparr>) \<longleftrightarrow> links_inv w"
  by (simp_all add: links_inv_def links_defs)

lemma links_inv_set_session:
  assumes "links_inv w" "us_game y = gm_of w s" "us_group y = gr_of w s" "us_game y = None \<or> alive y"
  shows "links_inv (set_session s y w)"
proof -
  have "gm_of (set_session s y w) = gm_of w" "gr_of (set_session s y w) = gr_of w"
    using assms by (auto simp: fun_eq_iff)
  then show ?thesis
    using assms unfolding links_inv_def links_defs by auto
qed

lemma leave_game_sessions [simp]:
  "w_sessions (leave_game s p w) = (w_sessions w)(s \<mapsto> (the (w_sessions w s))\<lparr>us_game := None\<rparr>)"
  by (simp add: leave_game_def Let_def)

lemma leave_game_rest [simp]:
  "w_connection_count (leave_game s p w) = w_connection_count w" "w_db (leave_game s p w) = w_db w"
  "w_next_sid (leave_game s p w) = w_next_sid w"
  "w_shutdown_broadcasted (leave_game s p w) = w_shutdown_broadcasted w"
  by (simp_all add: leave_game_def Let_def)

lemma leave_game_gm [simp]: "gm_of (leave_game s p w) = (gm_of w)(s := None)"
  by (simp add: leave_game_def Let_def)

lemma leave_game_gr [simp]: "w_sessions w s = Some x \<Longrightarrow> gr_of (leave_game s p w) = gr_of w"
  by (auto simp: leave_game_def Let_def gr_of_def fun_eq_iff)

lemma leave_game_inv:
  assumes inv: "links_inv w" and p: "gm_of w s = Some p" and nogroup: "gr_of w s = None"
  shows "links_inv (leave_game s p w)"
proof -
  note wf = links_invD[OF inv]
  obtain x g where x: "session_at w s = Some x" "us_game x = Some p" "w_sessions w s = Some x"
    "alive x" and g: "w_game_heap w p = Some g" "s \<in> set (gm_users g)"
    by (rule user_alive[OF inv p])
  have usrs: "distinct (gm_users g)" using users_wfD(2)[OF wf(3) g(1)] .
  let ?w = "leave_game s p w"
  have unf: "?w = (if remove1 s (gm_users g) \<noteq> []
      then set_game p (g\<lparr>gm_users := remove1 s (gm_users g)\<rparr>) (set_session s (x\<lparr>us_game := None\<rparr>) w)
      else (set_session s (x\<lparr>us_game := None\<rparr>) w)\<lparr>w_games := um_erase (gm_code_str g) (w_games w),
                 w_game_heap := (w_game_heap w)(p := None)\<rparr>)"
    using x g by (simp add: leave_game_def Let_def)
  have gm: "gm_of ?w = (gm_of w)(s := None)" and gr: "gr_of ?w = gr_of w"
    using x by simp_all
  have alone: "gm_users g = [s] \<Longrightarrow> gm_of w t = Some p \<Longrightarrow> t = s" for t
    using users_wfD(3)[OF wf(3) g(1), of t] by simp
  have nogroups: "gm_users g = [s] \<Longrightarrow> w_group_heap w q = Some gr \<Longrightarrow> gn_game gr \<noteq> p" for q gr
  proof
    assume a: "gm_users g = [s]" and q: "w_group_heap w q = Some gr" and "gn_game gr = p"
    obtain t where t: "t \<in> set (gn_players gr)"
      using players_wfD(1)[OF wf(4) q] by (meson last_in_set)
    then have "gm_of w t = Some p" "gr_of w t = Some q"
      using player_alive[OF inv q t] \<open>gn_game gr = p\<close> by auto
    then show False using alone[OF a] nogroup by auto
  qed
  have same: "gm_code_str g' = gm_code_str g \<Longrightarrow> w_game_heap w p' = Some g' \<Longrightarrow> p' = p" for p' g'
    using games_wfD(3)[OF wf(1)] g(1) by (metis option.inject)
  have "games_wf ?w"
    using wf(1) g unfolding games_wf_def unf
    by (auto simp: map_of_um_erase split: if_splits dest: same)
  moreover have "groups_wf ?w"
    using wf(2) g unfolding groups_wf_def unf
    by (auto simp: remove1_Nil_iff split: if_splits dest: nogroups)
  moreover have "users_wf ?w"
    using wf(3) g usrs unfolding users_wf_def gm unfolding unf
    by (auto simp: remove1_Nil_iff split: if_splits dest: alone)
  moreover have "players_wf ?w"
    using wf(4) g nogroup unfolding players_wf_def gm gr unfolding unf by (auto split: if_splits)
  moreover have "fresh_wf ?w"
    using wf(5) g unfolding fresh_wf_def unf by auto
  moreover have "live_wf ?w"
    using wf(6) unfolding live_wf_def gm unfolding unf by auto
  ultimately show ?thesis by (simp add: links_inv_def)
qed

section \<open>close\_connection\<close>

lemma close_game_eq:
  assumes "links_inv w" "gm_of w s = Some p" "w_sessions w s = Some x" "alive x"
  shows "do { w \<leftarrow> on_session s (us_game_update (\<lambda>_. None)) w;
            g \<leftarrow> game_at w p;
            destroy_game_if_empty p (set_game p (g\<lparr>gm_users := vector_remove s (gm_users g)\<rparr>) w) }
       = Some (leave_game s p w)"
proof -
  obtain g where g: "w_game_heap w p = Some g"
    using users_wf_game[OF links_invD(3)[OF assms(1)] assms(2)] by blast
  have "map_of (w_games w) (gm_code_str g) = Some p"
    using games_wfD(3)[OF links_invD(1)[OF assms(1)] g] by simp
  moreover have "session_at w s = Some x" using assms(3,4) by (simp add: session_at_def)
  ultimately show ?thesis
    using g assms(3) by (auto simp: on_session_eq game_at_def destroy_game_if_empty_def erase_game_def
        leave_game_def Let_def vector_remove_def set_game_def)
qed

lemma reaped_inv:
  assumes "links_inv w" "w_sessions w s = Some x" "alive x"
  shows "links_inv (set_session s (x\<lparr>us_reaped := True\<rparr>) w)"
    "gm_of (set_session s (x\<lparr>us_reaped := True\<rparr>) w) = gm_of w"
    "gr_of (set_session s (x\<lparr>us_reaped := True\<rparr>) w) = gr_of w"
proof -
  have "us_game x = gm_of w s" "us_group x = gr_of w s"
    using assms(2) by (simp_all add: gm_of_def gr_of_def)
  then show "links_inv (set_session s (x\<lparr>us_reaped := True\<rparr>) w)"
    "gm_of (set_session s (x\<lparr>us_reaped := True\<rparr>) w) = gm_of w"
    "gr_of (set_session s (x\<lparr>us_reaped := True\<rparr>) w) = gr_of w"
    using assms by (auto intro!: links_inv_set_session)
qed

lemma close_connection_eq:
  assumes inv: "links_inv w" and x: "session_at w s = Some x" and "\<not> us_reaped x"
  shows "close_connection s w = Some (deliver
     (\<lambda>t. if t \<in> peers_of w s then [disconnect_notice (us_ip_be x)] else []) (closed_world s w))"
proof -
  let ?y = "x\<lparr>us_reaped := True\<rparr>" and ?n = "disconnect_notice (us_ip_be x)"
  let ?w1 = "set_session s ?y w"
  let ?f = "\<lambda>t. if t \<in> peers_of w s then [?n] else []"
  let ?w2 = "case us_group x of None \<Rightarrow> ?w1 | Some q \<Rightarrow> leave_links s q ?w1"
  have sx: "w_sessions w s = Some x" "alive x" using x by (auto simp: session_at_def split: option.splits if_splits)
  have gmx: "gm_of w s = us_game x" "gr_of w s = us_group x" using sx by (simp_all add: gm_of_def gr_of_def)
  note w1 = reaped_inv[OF inv sx]
  have leave: "(if us_group x \<noteq> None then leave_group s ?w1 else Some ?w1) = Some (deliver ?f ?w2)"
  proof (cases "us_group x")
    case None
    then show ?thesis using gmx by (simp add: peers_of_def deliver_nothing)
  next
    case (Some q)
    obtain gr where gr: "w_group_heap w q = Some gr"
      using player_group[OF inv] gmx Some by metis
    then have "leave_group s ?w1 = Some (deliver
       (\<lambda>t. if t \<in> set (gn_players gr) - {s} then [?n] else []) (leave_links s q ?w1))"
      using w1 gmx Some leave_group_eq[of ?w1 s q gr ?y] by (simp cong: if_cong)
    then show ?thesis using Some gr gmx by (simp add: peers_of_def)
  qed
  have gm2: "gm_of ?w2 = gm_of w" "gr_of ?w2 s = None"
    using w1 gmx by (auto split: option.splits)
  have inv2: "links_inv ?w2"
    using w1 gmx leave_links_inv[OF w1(1)] by (auto split: option.splits)
  obtain x2 where x2: "session_at ?w2 s = Some x2" "w_sessions ?w2 s = Some x2" "alive x2"
    using sx by (cases "us_group x") (simp_all add: session_at_def)
  have close: "(case us_game x of None \<Rightarrow> Some (deliver ?f ?w2) | Some p \<Rightarrow>
      do { w \<leftarrow> on_session s (us_game_update (\<lambda>_. None)) (deliver ?f ?w2);
            g \<leftarrow> game_at w p;
            destroy_game_if_empty p (set_game p (g\<lparr>gm_users := vector_remove s (gm_users g)\<rparr>) w) })
     = Some (deliver ?f (case us_game x of None \<Rightarrow> ?w2 | Some p \<Rightarrow> leave_game s p ?w2))"
    using inv2 gm2 gmx x2 close_game_eq[of "deliver ?f ?w2" s _ "send_all (?f s) x2"]
    by (auto simp: deliver_sessions frame_simps leave_game_deliver split: option.splits)
  have cnt: "(if w_connection_count v \<noteq> 0 then v\<lparr>w_connection_count := w_connection_count v - 1\<rparr> else v)
      = v\<lparr>w_connection_count := w_connection_count v - 1\<rparr>" for v :: "'a world"
    by simp
  have cc: "w_connection_count (case us_game x of None \<Rightarrow> ?w2 | Some p \<Rightarrow> leave_game s p ?w2)
      = w_connection_count w"
    by (auto split: option.splits)
  let ?v = "deliver ?f (case us_game x of None \<Rightarrow> ?w2 | Some p \<Rightarrow> leave_game s p ?w2)"
  have fin: "(if w_connection_count ?v \<noteq> 0 then ?v\<lparr>w_connection_count := w_connection_count ?v - 1\<rparr> else ?v)
      = deliver ?f (closed_world s w)"
    using sx cc by (simp only: cnt) (simp add: closed_world_def Let_def deliver_setters)
  show ?thesis
    unfolding close_connection_def x
    using assms(3) leave close fin
    by (simp add: on_session_eq[OF x] split del: option.split if_split)
qed

lemma closed_world_inv:
  assumes inv: "links_inv w" and x: "session_at w s = Some x"
  shows "links_inv (closed_world s w)" "gm_of (closed_world s w) = (gm_of w)(s := None)"
    "gr_of (closed_world s w) = (gr_of w)(s := None)"
proof -
  let ?w1 = "set_session s (x\<lparr>us_reaped := True\<rparr>) w"
  let ?w2 = "case us_group x of None \<Rightarrow> ?w1 | Some q \<Rightarrow> leave_links s q ?w1"
  let ?w3 = "case us_game x of None \<Rightarrow> ?w2 | Some p \<Rightarrow> leave_game s p ?w2"
  have sx: "w_sessions w s = Some x" "alive x"
    using x by (auto simp: session_at_def split: option.splits if_splits)
  have gmx: "gm_of w s = us_game x" "gr_of w s = us_group x"
    using sx by (simp_all add: gm_of_def gr_of_def)
  note w1 = reaped_inv[OF inv sx]
  have w2: "links_inv ?w2" "gm_of ?w2 = gm_of w" "gr_of ?w2 = (gr_of w)(s := None)"
    using w1 gmx leave_links_inv[OF w1(1)] by (auto split: option.splits)
  obtain x2 where x2: "w_sessions ?w2 s = Some x2" by (cases "us_group x") simp_all
  have w3: "links_inv ?w3" "gm_of ?w3 = (gm_of w)(s := None)" "gr_of ?w3 = (gr_of w)(s := None)"
    using w2 gmx x2 leave_game_inv[OF w2(1)] by (auto split: option.splits)
  have "closed_world s w = ?w3\<lparr>w_connection_count := w_connection_count w - 1\<rparr>"
    using sx by (simp add: closed_world_def Let_def)
  then show "links_inv (closed_world s w)" "gm_of (closed_world s w) = (gm_of w)(s := None)"
    "gr_of (closed_world s w) = (gr_of w)(s := None)"
    using w3 by simp_all
qed

lemma closed_world_sessions:
  assumes "w_sessions w s = Some x"
  shows "w_sessions (closed_world s w) =
    (w_sessions w)(s \<mapsto> x\<lparr>us_reaped := True, us_group := None, us_game := None\<rparr>)"
proof -
  have "us_group x = None \<Longrightarrow> x\<lparr>us_group := None\<rparr> = x" "us_game x = None \<Longrightarrow> x\<lparr>us_game := None\<rparr> = x"
    by simp_all
  then show ?thesis
    using assms by (auto simp: closed_world_def Let_def fun_eq_iff split: option.splits)
qed

lemma closed_world_rest:
  "w_connection_count (closed_world s w) = w_connection_count w - 1"
  "w_db (closed_world s w) = w_db w" "w_next_sid (closed_world s w) = w_next_sid w"
  "w_shutdown_broadcasted (closed_world s w) = w_shutdown_broadcasted w"
  by (auto simp: closed_world_def Let_def split: option.splits)

text \<open>A second close is a no-op.\<close>

lemma close_connection_reaped:
  "session_at w s = Some x \<Longrightarrow> us_reaped x \<Longrightarrow> close_connection s w = Some w"
  by (simp add: close_connection_def)

end
