(* ===== verification/Registry_Join.thy ===== *)
theory Registry_Join
  imports Registry_Leave
begin

text \<open>
  Joining: \<^verbatim>\<open>handle_login\<close> and \<^verbatim>\<open>handle_connect\<close>, their closed
  forms on states that satisfy \<open>links_inv\<close>, and the invariant after them.
\<close>

section \<open>Login\<close>

text \<open>The state after session \<open>s\<close> has logged in to the game with product code \<open>code\<close>.\<close>

definition login_world :: "sid \<Rightarrow> login_packet_c2s \<Rightarrow> bytes \<Rightarrow> 'db world \<Rightarrow> 'db world" where
  "login_world s pkt code w =
     (let key = product_code_str code; x = the (w_sessions w s) in
      case map_of (w_games w) key of
        Some p \<Rightarrow> let g = the (w_game_heap w p) in
          set_game p (g\<lparr>gm_users := gm_users g @ [s]\<rparr>)
            (set_session s (x\<lparr>us_mac := lp_mac pkt, us_name := lp_name pkt, us_game := Some p\<rparr>) w)
      | None \<Rightarrow> let p = w_next_node w in
          (set_game p \<lparr>gm_code = code, gm_code_str = key, gm_groups = [], gm_users = [s]\<rparr>
            (set_session s (x\<lparr>us_mac := lp_mac pkt, us_name := lp_name pkt, us_game := Some p\<rparr>) w))
            \<lparr>w_games := w_games w @ [(key, p)], w_next_node := Suc p\<rparr>)"

lemma game_lookup:
  assumes "links_inv w" "map_of (w_games w) k = Some p"
  obtains g where "w_game_heap w p = Some g" "gm_code_str g = k"
  using games_wfD(2)[OF links_invD(1)[OF assms(1)] assms(2)] by blast

lemma ungrouped: "links_inv w \<Longrightarrow> gm_of w s = None \<Longrightarrow> gr_of w s = None"
  using player_group[of w s] by (metis option.discI option.exhaust)

lemma login_to_eq:
  assumes "links_inv w" "session_at w s = Some x"
  shows "login_to s pkt code w = Some (login_world s pkt code w)"
proof (cases "map_of (w_games w) (product_code_str code)")
  case None
  have "w_sessions w s = Some x" "alive x"
    using assms(2) by (auto simp: session_at_def split: option.splits if_splits)
  moreover have "alive (x\<lparr>us_mac := m, us_name := n, us_game := gm\<rparr>)" for m n gm
    using calculation(2) by (simp add: alive_def)
  ultimately show ?thesis
    using None by (simp add: login_to_def find_or_create_game_def login_world_def Let_def game_at_def
        on_session_def session_at_def um_emplace_fresh)
next
  case (Some p)
  obtain g where "w_game_heap w p = Some g" by (rule game_lookup[OF assms(1) Some])
  moreover have "w_sessions w s = Some x" "alive x"
    using assms(2) by (auto simp: session_at_def split: option.splits if_splits)
  ultimately show ?thesis
    using Some by (simp add: login_to_def find_or_create_game_def login_world_def Let_def game_at_def
        on_session_def session_at_def)
qed

lemma login_world_sessions [simp]:
  "w_sessions (login_world s pkt code w) = (w_sessions w)(s \<mapsto> (the (w_sessions w s))
     \<lparr>us_mac := lp_mac pkt, us_name := lp_name pkt,
      us_game := Some (case map_of (w_games w) (product_code_str code) of
        Some p \<Rightarrow> p | None \<Rightarrow> w_next_node w)\<rparr>)"
  by (auto simp: login_world_def Let_def split: option.splits)

lemma login_world_rest [simp]:
  "w_connection_count (login_world s pkt code w) = w_connection_count w"
  "w_next_sid (login_world s pkt code w) = w_next_sid w"
  "w_shutdown_broadcasted (login_world s pkt code w) = w_shutdown_broadcasted w"
  "w_group_heap (login_world s pkt code w) = w_group_heap w"
  by (auto simp: login_world_def Let_def split: option.splits)

lemma login_world_gr: "w_sessions w s = Some x \<Longrightarrow> gr_of (login_world s pkt code w) = gr_of w"
  by (auto simp: gr_of_def fun_eq_iff)

lemma login_world_inv:
  assumes inv: "links_inv w" and x: "session_at w s = Some x" and out: "us_game x = None"
  shows "links_inv (login_world s pkt code w)"
proof -
  note wf = links_invD[OF inv]
  have sx: "w_sessions w s = Some x" "alive x"
    using x by (auto simp: session_at_def split: option.splits if_splits)
  have gm: "gm_of w s = None" using sx out by (simp add: gm_of_def)
  note gr = ungrouped[OF inv gm]
  let ?key = "product_code_str code" and ?w = "login_world s pkt code w"
  have grw: "gr_of ?w = gr_of w" by (rule login_world_gr[OF sx(1)])
  have al: "alive (x\<lparr>us_mac := m, us_name := n, us_game := gm\<rparr>)" for m n gm
    using sx(2) by (simp add: alive_def)
  show ?thesis
  proof (cases "map_of (w_games w) ?key")
    case (Some p)
    obtain g where g: "w_game_heap w p = Some g" "gm_code_str g = ?key"
      by (rule game_lookup[OF inv Some])
    have unf: "?w = set_game p (g\<lparr>gm_users := gm_users g @ [s]\<rparr>)
        (set_session s (x\<lparr>us_mac := lp_mac pkt, us_name := lp_name pkt, us_game := Some p\<rparr>) w)"
      using Some g sx by (simp add: login_world_def Let_def)
    have gmw: "gm_of ?w = (gm_of w)(s := Some p)" unfolding unf by simp
    have fresh: "s \<notin> set (gm_users g)" using users_wfD(3)[OF wf(3) g(1)] gm by (metis option.discI)
    have "games_wf ?w" using wf(1) g unfolding games_wf_def unf by auto
    moreover have "groups_wf ?w" using wf(2) g unfolding groups_wf_def unf by auto
    moreover have "users_wf ?w"
      using wf(3) g gm fresh unfolding users_wf_def gmw unfolding unf by auto
    moreover have "players_wf ?w"
      using wf(4) gr unfolding players_wf_def gmw grw unfolding unf by auto
    moreover have "fresh_wf ?w" using wf(5) g unfolding fresh_wf_def unf by auto
    moreover have "live_wf ?w" using wf(6) al unfolding live_wf_def gmw unfolding unf by auto
    ultimately show ?thesis by (simp add: links_inv_def)
  next
    case None
    let ?p = "w_next_node w"
    have unf: "?w = (set_game ?p \<lparr>gm_code = code, gm_code_str = ?key, gm_groups = [], gm_users = [s]\<rparr>
        (set_session s (x\<lparr>us_mac := lp_mac pkt, us_name := lp_name pkt, us_game := Some ?p\<rparr>) w))
        \<lparr>w_games := w_games w @ [(?key, ?p)], w_next_node := Suc ?p\<rparr>"
      using None sx by (simp add: login_world_def Let_def)
    have gmw: "gm_of ?w = (gm_of w)(s := Some ?p)" unfolding unf by simp
    have new: "w_game_heap w ?p = None" using wf(5) by (simp add: fresh_wf_def)
    have newu: "gm_of w t \<noteq> Some ?p" for t using users_wf_game[OF wf(3)] new by fastforce
    have newg: "w_group_heap w q = Some gr' \<Longrightarrow> gn_game gr' \<noteq> ?p" for q gr'
      using groups_wfD(3)[OF wf(2)] new by fastforce
    have newk: "map_of (w_games w) k \<noteq> Some ?p" for k
      using games_wfD(2)[OF wf(1)] new by fastforce
    have keys: "w_game_heap w p = Some g \<Longrightarrow> gm_code_str g \<noteq> ?key" for p g
      using games_wfD(3)[OF wf(1)] None by (metis option.discI)
    have "um_wf (w_games w @ [(?key, ?p)])"
      using games_wfD(1)[OF wf(1)] None by (simp add: map_of_eq_None_iff)
    moreover have "w_game_heap w p = Some g \<Longrightarrow> map_of (w_games w) (gm_code_str g) = Some p" for p g
      using games_wfD(3)[OF wf(1)] by blast
    ultimately have "games_wf ?w" using wf(1) None new newk keys unfolding games_wf_def unf
      by (auto simp: map_of_snoc simp del: map_of_append split: if_splits)
    moreover have "groups_wf ?w" using wf(2) new newg unfolding groups_wf_def unf by auto
    moreover have "users_wf ?w"
      using wf(3) gm new newu unfolding users_wf_def gmw unfolding unf by auto
    moreover have "players_wf ?w"
      using wf(4) gr unfolding players_wf_def gmw grw unfolding unf by auto
    moreover have "fresh_wf ?w" using wf(5) unfolding fresh_wf_def unf by auto
    moreover have "live_wf ?w" using wf(6) al unfolding live_wf_def gmw unfolding unf by auto
    ultimately show ?thesis by (simp add: links_inv_def)
  qed
qed

section \<open>Joining a group\<close>

text \<open>The players \<open>s\<close> meets in the group called \<open>key\<close> of game \<open>p\<close>, in join order.\<close>

definition members_of :: "'db world \<Rightarrow> game_ptr \<Rightarrow> bytes \<Rightarrow> sid list" where
  "members_of w p key = (case w_game_heap w p of None \<Rightarrow> [] | Some g \<Rightarrow>
     (case map_of (gm_groups g) key of None \<Rightarrow> [] | Some q \<Rightarrow>
       (case w_group_heap w q of None \<Rightarrow> [] | Some gr \<Rightarrow> gn_players gr)))"

definition join_world :: "sid \<Rightarrow> game_ptr \<Rightarrow> bytes \<Rightarrow> 'db world \<Rightarrow> 'db world" where
  "join_world s p key w =
     (let g = the (w_game_heap w p); x = the (w_sessions w s) in
      case map_of (gm_groups g) key of
        Some q \<Rightarrow> let gr = the (w_group_heap w q) in
          set_group q (gr\<lparr>gn_players := gn_players gr @ [s]\<rparr>) (set_session s (x\<lparr>us_group := Some q\<rparr>) w)
      | None \<Rightarrow> let q = w_next_node w in
          (set_group q \<lparr>gn_name = key, gn_game = p, gn_players = [s]\<rparr>
            (set_game p (g\<lparr>gm_groups := gm_groups g @ [(key, q)]\<rparr>)
              (set_session s (x\<lparr>us_group := Some q\<rparr>) w)))\<lparr>w_next_node := Suc q\<rparr>)"

definition mac_of :: "'db world \<Rightarrow> sid \<Rightarrow> bytes" where
  "mac_of w s = (case w_sessions w s of None \<Rightarrow> [] | Some x \<Rightarrow> us_mac x)"

text \<open>Who is sent what when \<open>s\<close> joins the players \<open>ps\<close>.\<close>

definition join_messages :: "'db world \<Rightarrow> sid \<Rightarrow> sid list \<Rightarrow> sid \<Rightarrow> bytes list" where
  "join_messages w s ps t =
     (if t = s then map (notice_of w) ps @ [bssid_notice (mac_of w (hd (ps @ [s])))]
      else if t \<in> set ps then [notice_of w s] else [])"

lemma mac_of_eq: "session_at w s = Some x \<Longrightarrow> mac_of w s = us_mac x"
  by (auto simp: mac_of_def session_at_def split: option.splits if_splits)

text \<open>Joining an existing list of players whose sessions are alive and are not \<open>s\<close>.\<close>

lemma join_group_eq:
  assumes gr: "w_group_heap w q = Some gr" and x: "session_at w s = Some x"
    and ps: "\<forall>t\<in>set (gn_players gr). session_at w t \<noteq> None" "distinct (s # gn_players gr)"
  shows "join_group s q w = Some (deliver (join_messages w s (gn_players gr))
    (set_group q (gr\<lparr>gn_players := gn_players gr @ [s]\<rparr>) (set_session s (x\<lparr>us_group := Some q\<rparr>) w)))"
proof -
  let ?ps = "gn_players gr"
  define f where "f = (\<lambda>t. if t = s then map (notice_of w) ?ps else if t \<in> set ?ps then [notice_of w s] else [])"
  define w1 where "w1 = set_group q (gr\<lparr>gn_players := ?ps @ [s]\<rparr>) (set_session s (x\<lparr>us_group := Some q\<rparr>) w)"
  have sx: "w_sessions w s = Some x" "alive x"
    using x by (auto simp: session_at_def split: option.splits if_splits)
  have intro: "introduce s ?ps w = Some (deliver f w)"
    unfolding f_def using ps x by (intro introduce_eq) auto
  have set: "on_session s (us_group_update (\<lambda>_. Some q))
      (set_group q (gr\<lparr>gn_players := ?ps @ [s]\<rparr>) (deliver f w)) = Some (deliver f w1)"
    unfolding w1_def using sx by (simp add: deliver_setters on_session_deliver send_all_updates set_session_set_group)
  have founder: "map_option us_mac (session_at (deliver f w1) (hd (?ps @ [s]))) = Some (mac_of w (hd (?ps @ [s])))"
  proof -
    have "session_at w (hd (?ps @ [s])) \<noteq> None" using ps x by (cases ?ps) auto
    then obtain y where "session_at w (hd (?ps @ [s])) = Some y" by blast
    then show ?thesis unfolding w1_def using x sx by (auto simp: mac_of_eq frame_simps)
  qed
  have send: "send_to s b (deliver f w1) = Some (deliver (\<lambda>t. f t @ (if t = s then [b] else [])) w1)" for b
    unfolding w1_def using sx by (subst send_to_eq) auto
  have msgs: "deliver (\<lambda>t. f t @ (if t = s then [bssid_notice (mac_of w (hd (?ps @ [s])))] else [])) w1
      = deliver (join_messages w s ?ps) w1"
    using ps(2) by (intro deliver_cong) (auto simp: join_messages_def f_def)
  have x1: "session_at (deliver f w1) s \<noteq> None" unfolding w1_def using sx by simp
  show ?thesis
    unfolding w1_def[symmetric]
    using gr intro set founder send msgs x1
    by (auto simp: join_group_def group_at_def Let_def)
qed

lemma game_members_alive:
  assumes inv: "links_inv w" and g: "w_game_heap w p = Some g" and q: "map_of (gm_groups g) key = Some q"
  obtains gr where "w_group_heap w q = Some gr" "gn_name gr = key" "gn_game gr = p"
    "distinct (gn_players gr)" "\<forall>t\<in>set (gn_players gr). session_at w t \<noteq> None"
    "\<forall>t\<in>set (gn_players gr). gr_of w t = Some q" "members_of w p key = gn_players gr"
proof -
  note wf = links_invD[OF inv]
  obtain gr where gr: "w_group_heap w q = Some gr" "gn_name gr = key" "gn_game gr = p"
    using groups_wfD(2)[OF wf(2) g q] by blast
  moreover have "\<forall>t\<in>set (gn_players gr). session_at w t \<noteq> None"
    "\<forall>t\<in>set (gn_players gr). gr_of w t = Some q"
    using player_alive[OF inv gr(1)] by blast+
  moreover have "members_of w p key = gn_players gr" using g q gr by (simp add: members_of_def)
  ultimately show ?thesis using that players_wfD(2)[OF wf(4) gr(1)] by blast
qed

lemma handle_connect_eq:
  assumes inv: "links_inv w" and x: "session_at w s = Some x" and p: "us_game x = Some p"
    and out: "us_group x = None" and valid: "valid_group_name name"
  shows "handle_connect s name w = Some (True, deliver
     (join_messages w s (members_of w p (group_name_str name))) (join_world s p (group_name_str name) w))"
proof -
  note wf = links_invD[OF inv]
  let ?key = "group_name_str name"
  have sx: "w_sessions w s = Some x" "alive x"
    using x by (auto simp: session_at_def split: option.splits if_splits)
  have gm: "gm_of w s = Some p" "gr_of w s = None" using sx p out by (simp_all add: gm_of_def gr_of_def)
  obtain g where g: "w_game_heap w p = Some g" using users_wf_game[OF wf(3) gm(1)] by blast
  show ?thesis
  proof (cases "map_of (gm_groups g) ?key")
    case (Some q)
    obtain gr where gr: "w_group_heap w q = Some gr" "distinct (gn_players gr)"
      "\<forall>t\<in>set (gn_players gr). session_at w t \<noteq> None" "\<forall>t\<in>set (gn_players gr). gr_of w t = Some q"
      "members_of w p ?key = gn_players gr"
      by (rule game_members_alive[OF inv g Some])
    have "s \<notin> set (gn_players gr)" using gr(4) gm(2) by auto
    then show ?thesis
      using gr Some g x p out valid sx join_group_eq[OF gr(1) x gr(3)]
      by (simp add: handle_connect_def find_or_create_group_def game_at_def join_world_def Let_def)
  next
    case None
    let ?q = "w_next_node w"
    let ?w0 = "(set_group ?q \<lparr>gn_name = ?key, gn_game = p, gn_players = []\<rparr>
        (set_game p (g\<lparr>gm_groups := um_emplace ?key ?q (gm_groups g)\<rparr>) w))\<lparr>w_next_node := Suc ?q\<rparr>"
    have "join_group s ?q ?w0 = Some (deliver (join_messages ?w0 s []) (set_group ?q
        \<lparr>gn_name = ?key, gn_game = p, gn_players = [s]\<rparr> (set_session s (x\<lparr>us_group := Some ?q\<rparr>) ?w0)))"
      using x by (subst join_group_eq[where gr = "\<lparr>gn_name = ?key, gn_game = p, gn_players = []\<rparr>"]) simp_all
    moreover have "join_messages ?w0 s [] = join_messages w s []"
      by (auto simp: join_messages_def mac_of_def fun_eq_iff)
    moreover have "members_of w p ?key = []" using g None by (simp add: members_of_def)
    moreover have "set_group ?q \<lparr>gn_name = ?key, gn_game = p, gn_players = [s]\<rparr>
        (set_session s (x\<lparr>us_group := Some ?q\<rparr>) ?w0) = join_world s p ?key w"
      using g None sx by (simp add: join_world_def Let_def um_emplace_fresh setter_defs)
    ultimately show ?thesis
      using None g x p out valid wf(5)
      by (auto simp: handle_connect_def find_or_create_group_def game_at_def Let_def fresh_wf_def)
        (simp add: join_world_def Let_def)
  qed
qed

lemma join_world_sessions:
  assumes "w_sessions w s = Some x"
  obtains q where "w_sessions (join_world s p key w) = (w_sessions w)(s \<mapsto> x\<lparr>us_group := Some q\<rparr>)"
proof (cases "map_of (gm_groups (the (w_game_heap w p))) key")
  case None
  then show ?thesis using assms that[of "w_next_node w"] by (simp add: join_world_def Let_def)
next
  case (Some q)
  then show ?thesis using assms that[of q] by (simp add: join_world_def Let_def)
qed

lemma join_world_rest [simp]:
  "w_connection_count (join_world s p key w) = w_connection_count w" "w_db (join_world s p key w) = w_db w"
  "w_next_sid (join_world s p key w) = w_next_sid w"
  "w_shutdown_broadcasted (join_world s p key w) = w_shutdown_broadcasted w"
  "w_games (join_world s p key w) = w_games w"
  by (auto simp: join_world_def Let_def split: option.splits)

lemma join_world_gm: "w_sessions w s = Some x \<Longrightarrow> gm_of (join_world s p key w) = gm_of w"
  by (rule join_world_sessions[of w s x p key]) (auto simp: gm_of_def fun_eq_iff)

lemma join_world_inv:
  assumes inv: "links_inv w" and x: "session_at w s = Some x" and p: "us_game x = Some p"
    and out: "us_group x = None"
  shows "links_inv (join_world s p key w)"
proof -
  note wf = links_invD[OF inv]
  have sx: "w_sessions w s = Some x" "alive x"
    using x by (auto simp: session_at_def split: option.splits if_splits)
  have gm: "gm_of w s = Some p" and gr: "gr_of w s = None"
    using sx p out by (simp_all add: gm_of_def gr_of_def)
  obtain g where g: "w_game_heap w p = Some g" using users_wf_game[OF wf(3) gm] by blast
  let ?w = "join_world s p key w"
  have gmw: "gm_of ?w = gm_of w" by (rule join_world_gm[OF sx(1)])
  show ?thesis
  proof (cases "map_of (gm_groups g) key")
    case (Some q)
    obtain gn where q: "w_group_heap w q = Some gn" "gn_name gn = key" "gn_game gn = p"
      using groups_wfD(2)[OF wf(2) g Some] by blast
    have unf: "?w = set_group q (gn\<lparr>gn_players := gn_players gn @ [s]\<rparr>)
        (set_session s (x\<lparr>us_group := Some q\<rparr>) w)"
      using g Some q sx by (simp add: join_world_def Let_def)
    have grw: "gr_of ?w = (gr_of w)(s := Some q)" unfolding unf by simp
    have new: "s \<notin> set (gn_players gn)" using players_wfD(3)[OF wf(4) q(1), of s] gr by simp
    have "games_wf ?w" using wf(1) unfolding games_wf_def unf by simp
    moreover have "groups_wf ?w" using wf(2) q unfolding groups_wf_def unf by auto
    moreover have "users_wf ?w" using wf(3) unfolding users_wf_def gmw unfolding unf by simp
    moreover have "players_wf ?w"
      using wf(4) q gm gr new unfolding players_wf_def gmw grw unfolding unf by auto
    moreover have "fresh_wf ?w" using wf(5) q unfolding fresh_wf_def unf by auto
    moreover have "live_wf ?w" using wf(6) sx unfolding live_wf_def gmw unfolding unf by auto
    ultimately show ?thesis by (simp add: links_inv_def)
  next
    case None
    let ?q = "w_next_node w"
    have unf: "?w = (set_group ?q \<lparr>gn_name = key, gn_game = p, gn_players = [s]\<rparr>
        (set_game p (g\<lparr>gm_groups := gm_groups g @ [(key, ?q)]\<rparr>)
          (set_session s (x\<lparr>us_group := Some ?q\<rparr>) w)))\<lparr>w_next_node := Suc ?q\<rparr>"
      using g None sx by (simp add: join_world_def Let_def)
    have grw: "gr_of ?w = (gr_of w)(s := Some ?q)" unfolding unf by simp
    have new: "w_group_heap w ?q = None" using wf(5) by (simp add: fresh_wf_def)
    have newp: "gr_of w t \<noteq> Some ?q" for t using players_wf_group[OF wf(4)] new by fastforce
    have newg: "w_game_heap w p' = Some g' \<Longrightarrow> map_of (gm_groups g') k \<noteq> Some ?q" for p' g' k
      using groups_wfD(2)[OF wf(2)] new by fastforce
    have names: "w_group_heap w q = Some gn \<Longrightarrow> gn_game gn = p \<Longrightarrow> gn_name gn \<noteq> key" for q gn
      using groups_wfD(4)[OF wf(2) g] None by (metis option.discI)
    have keys: "um_wf (gm_groups g @ [(key, ?q)])"
      using groups_wfD(1)[OF wf(2) g] None by (simp add: map_of_eq_None_iff)
    have ptr: "p < ?q" using wf(5) g by (force simp: fresh_wf_def not_le[symmetric])
    have "games_wf ?w" using wf(1) g unfolding games_wf_def unf by auto
    moreover have "groups_wf ?w"
      using wf(2) g new newg names keys None unfolding groups_wf_def unf
      by (auto simp: map_of_snoc simp del: map_of_append split: if_splits dest: names)
    moreover have "users_wf ?w" using wf(3) g unfolding users_wf_def gmw unfolding unf by auto
    moreover have "players_wf ?w"
      using wf(4) gm gr new newp unfolding players_wf_def gmw grw unfolding unf by auto
    moreover have "fresh_wf ?w" using wf(5) g ptr unfolding fresh_wf_def unf by auto
    moreover have "live_wf ?w" using wf(6) sx unfolding live_wf_def gmw unfolding unf by auto
    ultimately show ?thesis by (simp add: links_inv_def)
  qed
qed

end
