(* ===== verification/Registry_Messages.thy ===== *)
theory Registry_Messages
  imports Registry_Join
begin

text \<open>
  The operations that only send or only read: \<^verbatim>\<open>handle_scan\<close>, \<^verbatim>\<open>handle_chat\<close>,
  \<^verbatim>\<open>broadcast_shutdown\<close> and \<^verbatim>\<open>snapshot_for_status\<close>.  On states that satisfy
  \<open>links_inv\<close> each is one \<open>deliver\<close>, or a function of the links.
\<close>

lemma links_session:
  "session_at w s = Some x \<Longrightarrow> w_sessions w s = Some x \<and> alive x \<and> gm_of w s = us_game x \<and> gr_of w s = us_group x"
  by (auto simp: session_at_def gm_of_def gr_of_def split: option.splits if_splits)

section \<open>Scan\<close>

text \<open>The MAC address of the founder of group \<open>q\<close>: its first player.\<close>

definition founder_mac :: "'db world \<Rightarrow> group_ptr \<Rightarrow> bytes" where
  "founder_mac w q = (case w_group_heap w q of None \<Rightarrow> [] | Some gr \<Rightarrow> mac_of w (hd (gn_players gr)))"

definition scan_messages :: "'db world \<Rightarrow> (bytes, group_ptr) umap \<Rightarrow> bytes list" where
  "scan_messages w gs = map (\<lambda>(k, q). scan_notice k (founder_mac w q)) gs"

lemma mac_of_deliver [simp]: "mac_of (deliver f w) = mac_of w"
  by (auto simp: mac_of_def fun_eq_iff deliver_sessions frame_simps split: option.splits)

lemma founder_mac_deliver [simp]: "founder_mac (deliver f w) = founder_mac w"
  by (auto simp: founder_mac_def fun_eq_iff split: option.splits)

lemma scan_messages_deliver [simp]: "scan_messages (deliver f w) gs = scan_messages w gs"
  by (simp add: scan_messages_def)

lemma scan_each_eq:
  assumes "links_inv w" "session_at w s \<noteq> None"
    and "\<forall>(k, q)\<in>set gs. \<exists>gr. w_group_heap w q = Some gr \<and> gn_name gr = k"
  shows "scan_each s gs w = Some (deliver (\<lambda>t. if t = s then scan_messages w gs else []) w)"
  using assms
proof (induction gs arbitrary: w)
  case Nil
  then show ?case by (simp add: scan_messages_def deliver_nothing)
next
  case (Cons kq gs)
  obtain k q where kq: "kq = (k, q)" by (cases kq)
  obtain gr where gr: "w_group_heap w q = Some gr" "gn_name gr = k" using Cons.prems kq by auto
  obtain p ps where ps: "gn_players gr = p # ps"
    using players_wfD(1)[OF links_invD(4)[OF Cons.prems(1)] gr(1)] by (cases "gn_players gr") auto
  obtain y where y: "session_at w p = Some y"
    using player_alive(1)[OF Cons.prems(1) gr(1)] ps by auto
  let ?b = "scan_notice k (founder_mac w q)" and ?w = "deliver (\<lambda>t. if t = s then [scan_notice k (founder_mac w q)] else []) w"
  have m: "us_mac y = founder_mac w q" using gr ps mac_of_eq[OF y] by (simp add: founder_mac_def)
  have "scan_each s (kq # gs) w = scan_each s gs ?w"
    using Cons.prems(2) gr ps y m kq by (auto simp: group_at_def send_to_eq)
  also have "\<dots> = Some (deliver (\<lambda>t. if t = s then scan_messages ?w gs else []) ?w)"
    using Cons.prems by (intro Cons.IH) auto
  also have "\<dots> = Some (deliver (\<lambda>t. if t = s then scan_messages w (kq # gs) else []) w)"
    by (auto simp: scan_messages_def kq intro!: deliver_cong)
  finally show ?case .
qed

lemma handle_scan_eq:
  assumes inv: "links_inv w" and x: "session_at w s = Some x" and p: "us_game x = Some p"
    and out: "us_group x = None" and g: "w_game_heap w p = Some g"
  shows "handle_scan s w = Some (True, deliver (\<lambda>t. if t = s then
     scan_messages w (gm_groups g) @ [[opcode_byte OPCODE_SCAN_COMPLETE]] else []) w)"
proof -
  note wf = links_invD[OF inv]
  have gs: "\<forall>(k, q)\<in>set (gm_groups g). \<exists>gr. w_group_heap w q = Some gr \<and> gn_name gr = k"
  proof (clarify)
    fix k q assume "(k, q) \<in> set (gm_groups g)"
    then have "map_of (gm_groups g) k = Some q"
      using groups_wfD(1)[OF wf(2) g] by (simp add: um_find_iff)
    then show "\<exists>gr. w_group_heap w q = Some gr \<and> gn_name gr = k"
      using groups_wfD(2)[OF wf(2) g] by blast
  qed
  have "send_to s b (deliver f w) = Some (deliver (\<lambda>t. f t @ (if t = s then [b] else [])) w)" for b f
    using x by (subst send_to_eq) auto
  then show ?thesis
    using x p out g scan_each_eq[OF inv _ gs, of s]
    by (auto simp: handle_scan_def game_at_def intro!: deliver_cong)
qed

section \<open>Chat\<close>

lemma handle_chat_eq:
  assumes inv: "links_inv w" and x: "session_at w s = Some x" and q: "us_group x = Some q"
  shows "handle_chat s message w = Some (True,
     deliver (\<lambda>t. if t \<in> peers_of w s then [chat_notice message (us_name x)] else []) w)"
proof -
  note sx = links_session[OF x]
  obtain gr where gr: "w_group_heap w q = Some gr" "gm_of w s = Some (gn_game gr)" "distinct (gn_players gr)"
    using player_group[OF inv] sx q by metis
  obtain g where g: "w_game_heap w (gn_game gr) = Some g"
    using users_wf_game[OF links_invD(3)[OF inv] gr(2)] by blast
  let ?ps = "filter (\<lambda>t. t \<noteq> s) (gn_players gr)"
  have "send_each ?ps b w = Some (deliver (\<lambda>t. if t \<in> set ?ps then [b] else []) w)" for b
    using gr by (intro send_players_eq[OF inv gr(1)]) auto
  moreover have "peers_of w s = set ?ps" using sx q gr by (auto simp: peers_of_def)
  ultimately show ?thesis
    using x q gr g sx by (auto simp: handle_chat_def group_at_def game_at_def)
qed

section \<open>Shutdown broadcast\<close>

lemma broadcast_groups_eq:
  assumes "links_inv w" "distinct (map snd gs)" "\<forall>(k, q)\<in>set gs. w_group_heap w q \<noteq> None"
  shows "broadcast_groups gs b w =
    Some (deliver (\<lambda>t. if gr_of w t \<in> Some ` snd ` set gs then [b] else []) w)"
  using assms
proof (induction gs arbitrary: w)
  case Nil
  then show ?case by (simp add: deliver_nothing)
next
  case (Cons kq gs)
  obtain k q where kq: "kq = (k, q)" by (cases kq)
  obtain gr where gr: "w_group_heap w q = Some gr" using Cons.prems kq by auto
  note pl = players_wfD[OF links_invD(4)[OF Cons.prems(1)] gr]
  let ?w = "deliver (\<lambda>t. if t \<in> set (gn_players gr) then [b] else []) w"
  have "broadcast_groups (kq # gs) b w = broadcast_groups gs b ?w"
    using send_players_eq[OF Cons.prems(1) gr subset_refl pl(2), of w b] gr kq by (simp add: group_at_def)
  also have "\<dots> = Some (deliver (\<lambda>t. if gr_of ?w t \<in> Some ` snd ` set gs then [b] else []) ?w)"
    using Cons.prems by (intro Cons.IH) auto
  also have "\<dots> = Some (deliver (\<lambda>t. if gr_of w t \<in> Some ` snd ` set (kq # gs) then [b] else []) w)"
  proof -
    have "Some q \<notin> Some ` snd ` set gs" using Cons.prems(2) kq by auto
    then have "(if t \<in> set (gn_players gr) then [b] else []) @ (if gr_of w t \<in> Some ` snd ` set gs then [b] else [])
        = (if gr_of w t \<in> Some ` snd ` set (kq # gs) then [b] else [])" for t
      using pl(3)[of t] kq by (cases "gr_of w t = Some q") simp_all
    then show ?thesis by (auto intro!: deliver_cong)
  qed
  finally show ?case .
qed

lemma game_groups:
  assumes "links_inv w" "w_game_heap w p = Some g"
  shows "distinct (map snd (gm_groups g))" "\<forall>(k, q)\<in>set (gm_groups g). w_group_heap w q \<noteq> None"
    "gr_of w t \<in> Some ` snd ` set (gm_groups g) \<longleftrightarrow> gm_of w t = Some p \<and> gr_of w t \<noteq> None"
proof -
  note wf = links_invD[OF assms(1)]
  note gwf = groups_wfD[OF wf(2)]
  have um: "um_wf (gm_groups g)" using gwf(1)[OF assms(2)] .
  have ent: "(k, q) \<in> set (gm_groups g) \<Longrightarrow> \<exists>gr. w_group_heap w q = Some gr \<and> gn_name gr = k \<and> gn_game gr = p" for k q
    using gwf(2)[OF assms(2)] um by (simp add: um_find_iff)
  have "inj_on snd (set (gm_groups g))"
    by (rule inj_onI) (auto dest!: ent)
  then show "distinct (map snd (gm_groups g))"
    using um by (simp add: distinct_map)
  show "\<forall>(k, q)\<in>set (gm_groups g). w_group_heap w q \<noteq> None" using ent by fastforce
  show "gr_of w t \<in> Some ` snd ` set (gm_groups g) \<longleftrightarrow> gm_of w t = Some p \<and> gr_of w t \<noteq> None"
  proof
    assume "gr_of w t \<in> Some ` snd ` set (gm_groups g)"
    then obtain k q where q: "(k, q) \<in> set (gm_groups g)" "gr_of w t = Some q" by auto
    obtain gr where "w_group_heap w q = Some gr" "gm_of w t = Some (gn_game gr)"
      using player_group[OF assms(1) q(2)] by blast
    then show "gm_of w t = Some p \<and> gr_of w t \<noteq> None"
      using ent[OF q(1)] q(2) by auto
  next
    assume a: "gm_of w t = Some p \<and> gr_of w t \<noteq> None"
    then obtain q where q: "gr_of w t = Some q" by blast
    obtain gr where "w_group_heap w q = Some gr" "gm_of w t = Some (gn_game gr)"
      using player_group[OF assms(1) q] by blast
    then have "map_of (gm_groups g) (gn_name gr) = Some q" using gwf(4)[OF assms(2)] a by auto
    then show "gr_of w t \<in> Some ` snd ` set (gm_groups g)" using um q by (force simp: um_find_iff)
  qed
qed

lemma broadcast_games_eq:
  assumes "links_inv w" "distinct (map snd ps)" "\<forall>(k, p)\<in>set ps. w_game_heap w p \<noteq> None"
  shows "broadcast_games ps b w = Some (deliver
    (\<lambda>t. if gm_of w t \<in> Some ` snd ` set ps \<and> gr_of w t \<noteq> None then [b] else []) w)"
  using assms
proof (induction ps arbitrary: w)
  case Nil
  then show ?case by (simp add: deliver_nothing)
next
  case (Cons kp ps)
  obtain k p where kp: "kp = (k, p)" by (cases kp)
  obtain g where g: "w_game_heap w p = Some g" using Cons.prems kp by auto
  note gg = game_groups[OF Cons.prems(1) g]
  let ?w = "deliver (\<lambda>t. if gm_of w t = Some p \<and> gr_of w t \<noteq> None then [b] else []) w"
  have "broadcast_groups (gm_groups g) b w = Some ?w"
    using broadcast_groups_eq[OF Cons.prems(1) gg(1,2)] by (simp only: gg(3))
  then have "broadcast_games (kp # ps) b w = broadcast_games ps b ?w"
    using g kp by (simp add: game_at_def)
  also have "\<dots> = Some (deliver (\<lambda>t. if gm_of ?w t \<in> Some ` snd ` set ps \<and> gr_of ?w t \<noteq> None then [b] else []) ?w)"
    using Cons.prems by (intro Cons.IH) auto
  also have "\<dots> = Some (deliver (\<lambda>t. if gm_of w t \<in> Some ` snd ` set (kp # ps) \<and> gr_of w t \<noteq> None then [b] else []) w)"
    using Cons.prems(2) kp by (auto intro!: deliver_cong)
  finally show ?case .
qed

lemma games_entries:
  assumes "links_inv w"
  shows "distinct (map snd (w_games w))" "\<forall>(k, p)\<in>set (w_games w). w_game_heap w p \<noteq> None"
    "gm_of w t = Some p \<Longrightarrow> Some p \<in> Some ` snd ` set (w_games w)"
proof -
  note wf = links_invD[OF assms]
  note gwf = games_wfD[OF wf(1)]
  have ent: "(k, p) \<in> set (w_games w) \<Longrightarrow> \<exists>g. w_game_heap w p = Some g \<and> gm_code_str g = k" for k p
    using gwf(1) gwf(2)[of k p] by (simp add: um_find_iff)
  have "inj_on snd (set (w_games w))" by (rule inj_onI) (auto dest!: ent)
  then show "distinct (map snd (w_games w))" using gwf(1) by (simp add: distinct_map)
  show "\<forall>(k, p)\<in>set (w_games w). w_game_heap w p \<noteq> None" using ent by fastforce
  assume "gm_of w t = Some p"
  then obtain g where "w_game_heap w p = Some g" using users_wf_game[OF wf(3)] by blast
  then have "map_of (w_games w) (gm_code_str g) = Some p" using gwf(3) by blast
  then show "Some p \<in> Some ` snd ` set (w_games w)" using gwf(1) by (force simp: um_find_iff)
qed

lemma broadcast_shutdown_eq:
  assumes "links_inv w" "\<not> w_shutdown_broadcasted w"
  shows "broadcast_shutdown w = Some (deliver
    (\<lambda>t. if gr_of w t \<noteq> None then [shutdown_notice] else []) (w\<lparr>w_shutdown_broadcasted := True\<rparr>))"
proof -
  let ?w = "w\<lparr>w_shutdown_broadcasted := True\<rparr>"
  have inv: "links_inv ?w" using assms(1) by simp
  note ge = games_entries[OF assms(1)]
  have "gm_of w t \<in> Some ` snd ` set (w_games w) \<and> gr_of w t \<noteq> None \<longleftrightarrow> gr_of w t \<noteq> None" for t
    using ge(3) ungrouped[OF assms(1), of t] by (cases "gm_of w t") auto
  then show ?thesis
    using assms(2) broadcast_games_eq[OF inv, of "w_games w" shutdown_notice] ge(1,2)
    by (simp add: broadcast_shutdown_def)
qed

section \<open>The status snapshot\<close>

text \<open>The row of a session, given the product code of its game.\<close>

definition status_of :: "'db world \<Rightarrow> bytes \<Rightarrow> sid \<Rightarrow> status_user" where
  "status_of w code s = (let x = the (w_sessions w s) in
     \<lparr>su_name = nickname_str (us_name x), su_mac = us_mac x, su_product_code = code,
      su_group = (case us_group x of None \<Rightarrow> None | Some q \<Rightarrow> map_option gn_name (w_group_heap w q))\<rparr>)"

lemma snapshot_users_eq:
  assumes "links_inv w" "\<forall>s\<in>set ss. session_at w s \<noteq> None"
  shows "snapshot_users code ss w = Some (map (status_of w code) ss)"
  using assms(2)
proof (induction ss)
  case (Cons s ss)
  obtain x where x: "session_at w s = Some x" using Cons.prems by auto
  note sx = links_session[OF x]
  have "(case us_group x of None \<Rightarrow> Some None
       | Some q \<Rightarrow> do { gr \<leftarrow> group_at w q; Some (Some (gn_name gr)) }) = Some (su_group (status_of w code s))"
  proof (cases "us_group x")
    case None
    then show ?thesis using sx by (simp add: status_of_def Let_def)
  next
    case (Some q)
    then obtain gr where "w_group_heap w q = Some gr" using sx player_group[OF assms(1), of s q] by metis
    then show ?thesis using sx Some by (simp add: status_of_def Let_def group_at_def)
  qed
  then show ?case
    using Cons x sx by (simp add: status_of_def Let_def)
qed simp

definition status_rows :: "'db world \<Rightarrow> (bytes, game_ptr) umap \<Rightarrow> status_user list" where
  "status_rows w ps = concat (map (\<lambda>(k, p). map (status_of w k) (gm_users (the (w_game_heap w p)))) ps)"

lemma snapshot_eq:
  assumes inv: "links_inv w"
  shows "snapshot_for_status w = Some (status_rows w (w_games w))"
proof -
  note wf = links_invD[OF inv]
  have "\<forall>(k, p)\<in>set ps. \<exists>g. w_game_heap w p = Some g \<and> gm_code_str g = k \<Longrightarrow>
      snapshot_games ps w = Some (status_rows w ps)" for ps
  proof (induction ps)
    case Nil
    then show ?case by (simp add: status_rows_def)
  next
    case (Cons kp ps)
    obtain k p where kp: "kp = (k, p)" by (cases kp)
    obtain g where g: "w_game_heap w p = Some g" "gm_code_str g = k" using Cons.prems kp by auto
    have "\<forall>s\<in>set (gm_users g). session_at w s \<noteq> None"
      using users_wfD(3)[OF wf(3) g(1)] wf(6) by (auto simp: live_wf_def)
    then show ?case
      using Cons g kp snapshot_users_eq[OF inv] by (simp add: game_at_def status_rows_def)
  qed
  moreover have "\<forall>(k, p)\<in>set (w_games w). \<exists>g. w_game_heap w p = Some g \<and> gm_code_str g = k"
  proof (clarify)
    fix k p assume "(k, p) \<in> set (w_games w)"
    then have "map_of (w_games w) k = Some p" using games_wfD(1)[OF wf(1)] by (simp add: um_find_iff)
    then show "\<exists>g. w_game_heap w p = Some g \<and> gm_code_str g = k" using games_wfD(2)[OF wf(1)] by blast
  qed
  ultimately show ?thesis by (simp add: snapshot_for_status_def)
qed

end
