(* ===== verification/Registry_Inv.thy ===== *)
theory Registry_Inv
  imports Registry_Messages
begin

text \<open>
  The invariant of the whole game server state and its preservation by every registry operation:
  \<open>links_inv\<close>, well-formed sessions (\<open>session_wf\<close>), well-formed names
  (\<open>names_inv\<close>) and the connection count (\<open>count_inv\<close>).  What the coroutines add,
  \<open>pc_inv\<close>, ties the reaped flag and the game pointer to the reader's program counter.
\<close>

section \<open>Sessions\<close>

definition session_wf :: "session_impl \<Rightarrow> bool" where
  "session_wf x \<longleftrightarrow> rx_wf x \<and> length (us_mac x) = ETHER_ADDR_LEN
     \<and> length (us_name x) = ADHOCCTL_NICKNAME_LEN \<and> (us_game x \<noteq> None \<longrightarrow> \<not> us_reaped x)
     \<and> so.awake_inv x \<and> (si_watchdog x = Wd_wait False \<longrightarrow> \<not> si_closed x)"

definition sess_inv :: "'db world \<Rightarrow> bool" where
  "sess_inv w \<longleftrightarrow> (\<forall>s x. w_sessions w s = Some x \<longrightarrow> session_wf x)"

lemma rx_wf_frame [simp]:
  "rx_wf (send_bytes b x) = rx_wf x" "rx_wf (session_close x) = rx_wf x"
  "rx_wf (us_game_update gm x) = rx_wf x" "rx_wf (us_group_update gr x) = rx_wf x"
  "rx_wf (us_reaped_update rp x) = rx_wf x" "rx_wf (us_mac_update m x) = rx_wf x"
  "rx_wf (us_name_update n x) = rx_wf x" "rx_wf (si_reader_update pc x) = rx_wf x"
  by (simp_all add: rx_wf_def frame_simps)

lemma awake_frame [simp]:
  "so.awake_inv (us_game_update gm x) = so.awake_inv x" "so.awake_inv (us_group_update gr x) = so.awake_inv x"
  "so.awake_inv (us_reaped_update rp x) = so.awake_inv x" "so.awake_inv (us_mac_update m x) = so.awake_inv x"
  "so.awake_inv (us_name_update n x) = so.awake_inv x" "so.awake_inv (si_reader_update pc x) = so.awake_inv x"
  "so.awake_inv (si_watchdog_update wd x) = so.awake_inv x" "so.awake_inv (si_expiry_update e x) = so.awake_inv x"
  "so.awake_inv (consume_rx k x) = so.awake_inv x" "so.awake_inv (receive b x) = so.awake_inv x"
  "so.awake_inv (timer_expires_after now secs x) = so.awake_inv x"
  by (simp_all add: so.awake_inv_def frame_simps timer_expires_after_def)

lemma wake_watchdog_waits [simp]: "wake_watchdog pc \<noteq> Wd_wait False"
  by (cases pc) auto

lemma session_wf_send [simp]: "session_wf x \<Longrightarrow> session_wf (send_bytes b x)"
  by (auto simp: session_wf_def frame_simps so.awake_send)

lemma session_wf_send_all [simp]: "session_wf x \<Longrightarrow> session_wf (send_all bs x)"
  by (induction bs arbitrary: x) simp_all

lemma session_wf_close [simp]: "session_wf x \<Longrightarrow> session_wf (session_close x)"
  by (auto simp: session_wf_def frame_simps so.awake_close session_close_watchdog)

lemma session_wf_consume [simp]: "session_wf x \<Longrightarrow> session_wf (consume_rx k x)"
  by (auto simp: session_wf_def frame_simps)

lemma session_wf_receive [simp]:
  "session_wf x \<Longrightarrow> si_rxpos x + length b \<le> RX_SIZE \<Longrightarrow> session_wf (receive b x)"
  by (auto simp: session_wf_def frame_simps simp del: RX_SIZE_def)

lemma session_wf_timer [simp]: "session_wf x \<Longrightarrow> session_wf (timer_expires_after now secs x)"
  by (auto simp: session_wf_def timer_expires_after_def rx_wf_def)

lemma session_wf_new: "session_wf (session_start now (new_session ip label))"
  by (simp add: session_wf_def session_start_def new_session_def timer_expires_after_def rx_wf_def
      so.awake_inv_def)

lemma session_wf_writer [simp]:
  "session_wf x \<Longrightarrow> session_wf (writer_loop x)" "session_wf x \<Longrightarrow> session_wf (writer_finish x)"
  by (auto simp: session_wf_def so.awake_loop so.awake_finish frame_simps rx_wf_def)
    (simp_all add: writer_finish_def)

lemma session_wf_watchdog [simp]:
  "session_wf x \<Longrightarrow> session_wf (watchdog_loop x)" "session_wf x \<Longrightarrow> session_wf (watchdog_wake ab now x)"
proof -
  show 1: "session_wf x \<Longrightarrow> session_wf (watchdog_loop x)" for x
    by (auto simp: session_wf_def watchdog_loop_def rx_wf_def)
  have 2: "session_wf x \<Longrightarrow> session_wf (x\<lparr>si_watchdog := Wd_done\<rparr>)" for x
    by (auto simp: session_wf_def rx_wf_def)
  show "session_wf x \<Longrightarrow> session_wf (watchdog_wake ab now x)"
    by (simp add: watchdog_wake_def 1 2)
qed

section \<open>Names\<close>

definition group_name_ok :: "bytes \<Rightarrow> bool" where
  "group_name_ok k \<longleftrightarrow> length k \<le> ADHOCCTL_GROUPNAME_LEN \<and> (\<forall>c\<in>set k. is_upper c \<or> is_lower c \<or> is_digit c)"

definition game_code_ok :: "game_node \<Rightarrow> bool" where
  "game_code_ok g \<longleftrightarrow> length (gm_code g) = PRODUCT_CODE_LENGTH \<and> gm_code_str g = product_code_str (gm_code g)"

definition names_inv :: "'db world \<Rightarrow> bool" where
  "names_inv w \<longleftrightarrow> (\<forall>q gr. w_group_heap w q = Some gr \<longrightarrow> group_name_ok (gn_name gr))
     \<and> (\<forall>p g. w_game_heap w p = Some g \<longrightarrow> game_code_ok g)"

lemma group_name_str_ok: "length g = 8 \<Longrightarrow> valid_group_name g \<Longrightarrow> group_name_ok (group_name_str g)"
  using length_group_name_str[of g] by (simp add: group_name_ok_def valid_group_name_iff)

lemma game_code_ok_frame [simp]:
  "game_code_ok (g\<lparr>gm_groups := gs\<rparr>) = game_code_ok g" "game_code_ok (g\<lparr>gm_users := us\<rparr>) = game_code_ok g"
  by (simp_all add: game_code_ok_def)

section \<open>The connection count\<close>

definition unreaped :: "'db world \<Rightarrow> sid set" where
  "unreaped w = {s. \<exists>x. w_sessions w s = Some x \<and> \<not> us_reaped x}"

definition count_inv :: "'db world \<Rightarrow> bool" where
  "count_inv w \<longleftrightarrow> w_connection_count w = card (unreaped w) \<and> w_connection_count w \<le> SERVER_USER_MAXIMUM
     \<and> (\<forall>s \<ge> w_next_sid w. w_sessions w s = None)"

lemma finite_unreaped: "count_inv w \<Longrightarrow> finite (unreaped w)"
proof -
  assume "count_inv w"
  then have "unreaped w \<subseteq> {..<w_next_sid w}"
    unfolding count_inv_def unreaped_def by (auto simp: not_le[symmetric])
  then show ?thesis by (rule finite_subset) simp
qed

text \<open>Operations that keep who is reaped and how many there are keep the count.\<close>

lemma count_inv_same:
  assumes "count_inv w" "unreaped w' = unreaped w" "w_connection_count w' = w_connection_count w"
    "w_next_sid w' = w_next_sid w" "\<And>t. w_sessions w t = None \<Longrightarrow> w_sessions w' t = None"
  shows "count_inv w'"
  using assms by (simp add: count_inv_def)

section \<open>The invariant of the registry\<close>

definition registry_inv :: "'db world \<Rightarrow> bool" where
  "registry_inv w \<longleftrightarrow> links_inv w \<and> sess_inv w \<and> names_inv w \<and> count_inv w"

lemma registry_invD:
  assumes "registry_inv w"
  shows "links_inv w" "sess_inv w" "names_inv w" "count_inv w"
  using assms by (simp_all add: registry_inv_def)

lemma registry_inv_init: "registry_inv (registry_init h)"
  using links_inv_init[of h]
  by (simp add: registry_inv_def sess_inv_def names_inv_def count_inv_def unreaped_def registry_init_def)

lemma registry_inv_session: "registry_inv w \<Longrightarrow> w_sessions w s = Some x \<Longrightarrow> session_wf x"
  by (simp add: registry_inv_def sess_inv_def)

lemma unreaped_deliver [simp]: "unreaped (deliver f w) = unreaped w"
  by (auto simp: unreaped_def deliver_sessions frame_simps)

lemma registry_inv_deliver [simp]: "registry_inv w \<Longrightarrow> registry_inv (deliver f w)"
  by (auto simp: registry_inv_def sess_inv_def names_inv_def deliver_sessions count_inv_def)

text \<open>Replacing a session by one with the same links and the same reaped flag.\<close>

lemma unreaped_set_session:
  "unreaped (set_session s y w) = (if us_reaped y then unreaped w - {s} else insert s (unreaped w))"
  by (auto simp: unreaped_def)

lemma registry_inv_set_session:
  assumes "registry_inv w" "w_sessions w s = Some x" "us_game y = us_game x" "us_group y = us_group x"
    "us_reaped y = us_reaped x" "session_wf y" "us_game y = None \<or> alive y"
  shows "registry_inv (set_session s y w)"
proof -
  note inv = registry_invD[OF assms(1)]
  have "gm_of w s = us_game x" "gr_of w s = us_group x" using assms(2) by (simp_all add: gm_of_def gr_of_def)
  then have "links_inv (set_session s y w)" using assms inv(1) by (intro links_inv_set_session) auto
  moreover have "sess_inv (set_session s y w)" using inv(2) assms(6) by (simp add: sess_inv_def)
  moreover have "names_inv (set_session s y w)" using inv(3) by (simp add: names_inv_def)
  moreover have "unreaped (set_session s y w) = unreaped w"
    using assms(2,5) by (auto simp: unreaped_set_session unreaped_def)
  then have "count_inv (set_session s y w)"
    using inv(4) assms(2) by (auto intro!: count_inv_same[of w] simp: count_inv_def)
  ultimately show ?thesis by (simp add: registry_inv_def)
qed

section \<open>Preservation by the registry operations\<close>

lemma registry_inv_login:
  assumes inv: "registry_inv w" and x: "session_at w s = Some x" and out: "us_game x = None"
    and nr: "\<not> us_reaped x" and pkt: "wf_login pkt" and code: "length code = PRODUCT_CODE_LENGTH"
  shows "registry_inv (login_world s pkt code w)"
proof -
  note i = registry_invD[OF inv] and sx = links_session[OF x]
  let ?w = "login_world s pkt code w"
  have "links_inv ?w" using login_world_inv[OF i(1) x out] .
  moreover have "sess_inv ?w"
    using i(2) sx nr pkt unfolding sess_inv_def by (auto simp: session_wf_def wf_login_def)
  moreover have "names_inv ?w"
  proof -
    have "w_game_heap ?w p = Some g \<Longrightarrow> game_code_ok g" for p g
      using i(3) game_lookup[OF i(1)] code
      by (auto simp: login_world_def Let_def names_inv_def game_code_ok_def
          split: option.splits if_splits) (metis option.sel)+
    then show ?thesis using i(3) by (simp add: names_inv_def)
  qed
  moreover have "count_inv ?w"
    using i(4) sx nr by (intro count_inv_same[OF i(4)]) (auto simp: unreaped_def)
  ultimately show ?thesis by (simp add: registry_inv_def)
qed

lemma registry_inv_join:
  assumes inv: "registry_inv w" and x: "session_at w s = Some x" and p: "us_game x = Some p"
    and out: "us_group x = None" and key: "group_name_ok key"
  shows "registry_inv (join_world s p key w)"
proof -
  note i = registry_invD[OF inv] and sx = links_session[OF x]
  let ?w = "join_world s p key w"
  obtain q where q: "w_sessions ?w = (w_sessions w)(s \<mapsto> x\<lparr>us_group := Some q\<rparr>)"
    using sx by (blast intro: join_world_sessions)
  have "links_inv ?w" using join_world_inv[OF i(1) x p out] .
  moreover have "sess_inv ?w"
    using i(2) sx q unfolding sess_inv_def by (auto simp: session_wf_def)
  moreover have "names_inv ?w"
  proof -
    obtain g where g: "w_game_heap w p = Some g"
      using users_wf_game[OF links_invD(3)[OF i(1)]] sx p by metis
    show ?thesis
    proof (cases "map_of (gm_groups g) key")
      case None
      then show ?thesis using i(3) g key by (auto simp: join_world_def Let_def names_inv_def)
    next
      case (Some q)
      obtain gr where "w_group_heap w q = Some gr" by (rule game_members_alive[OF i(1) g Some])
      then show ?thesis using i(3) g key Some by (auto simp: join_world_def Let_def names_inv_def)
    qed
  qed
  moreover have "count_inv ?w"
    using q sx by (intro count_inv_same[OF i(4)]) (auto simp: unreaped_def)
  ultimately show ?thesis by (simp add: registry_inv_def)
qed

lemma names_inv_leave:
  assumes "links_inv w" "names_inv w" "gr_of w s = Some q"
  shows "names_inv (leave_links s q w)"
proof -
  obtain gr g where "w_group_heap w q = Some gr" "w_game_heap w (gn_game gr) = Some g"
    by (rule leave_facts[OF assms(1,3)])
  then show ?thesis using assms(2) by (auto simp: leave_links_def Let_def names_inv_def)
qed

lemma names_inv_leave_game:
  assumes "links_inv w" "names_inv w" "gm_of w s = Some p"
  shows "names_inv (leave_game s p w)"
proof -
  obtain g where "w_game_heap w p = Some g" using users_wf_game[OF links_invD(3)[OF assms(1)] assms(3)] by blast
  then show ?thesis using assms(2) by (auto simp: leave_game_def Let_def names_inv_def)
qed

lemma registry_inv_leave:
  assumes inv: "registry_inv w" and x: "session_at w s = Some x" and q: "us_group x = Some q"
  shows "registry_inv (leave_links s q w)"
proof -
  note i = registry_invD[OF inv] and sx = links_session[OF x]
  have gr: "gr_of w s = Some q" using sx q by simp
  have "sess_inv (leave_links s q w)"
    using i(2) sx unfolding sess_inv_def by (auto simp: session_wf_def)
  moreover have "count_inv (leave_links s q w)"
    using sx by (intro count_inv_same[OF i(4)]) (auto simp: unreaped_def)
  ultimately show ?thesis
    using leave_links_inv[OF i(1) gr] names_inv_leave[OF i(1,3) gr] by (simp add: registry_inv_def)
qed

lemma registry_inv_close:
  assumes inv: "registry_inv w" and x: "session_at w s = Some x" and nr: "\<not> us_reaped x"
  shows "registry_inv (closed_world s w)"
proof -
  note i = registry_invD[OF inv] and sx = links_session[OF x]
  let ?w = "closed_world s w" and ?w1 = "set_session s (x\<lparr>us_reaped := True\<rparr>) w"
  have r: "w_sessions w s = Some x" "alive x" using sx by simp_all
  note w1 = reaped_inv[OF i(1) r]
  note ses = closed_world_sessions[OF r(1)]
  have sess: "sess_inv ?w" using i(2) r unfolding sess_inv_def ses by (auto simp: session_wf_def)
  have n1: "names_inv ?w1" using i(3) by (simp add: names_inv_def)
  let ?w2 = "case us_group x of None \<Rightarrow> ?w1 | Some q \<Rightarrow> leave_links s q ?w1"
  have w2: "links_inv ?w2" "gm_of ?w2 = gm_of w" "names_inv ?w2"
    using w1 sx n1 leave_links_inv[OF w1(1)] names_inv_leave[OF w1(1) n1] by (auto split: option.splits)
  have "names_inv (case us_game x of None \<Rightarrow> ?w2 | Some p \<Rightarrow> leave_game s p ?w2)"
    using w2 sx names_inv_leave_game[OF w2(1,3)] by (auto split: option.splits)
  then have names: "names_inv ?w" using r by (simp add: closed_world_def Let_def names_inv_def)
  have un: "unreaped ?w = unreaped w - {s}" and s: "s \<in> unreaped w"
    using r nr by (auto simp: unreaped_def ses)
  have "count_inv ?w"
    using i(4) finite_unreaped[OF i(4)] s r
    unfolding count_inv_def un closed_world_rest ses by (auto simp: card_Diff_singleton)
  then show ?thesis
    using sess names closed_world_inv(1)[OF i(1) x] by (simp add: registry_inv_def)
qed

lemma registry_inv_flags [simp]:
  "registry_inv (w\<lparr>w_db := h\<rparr>) = registry_inv w"
  "registry_inv (w\<lparr>w_shutdown_broadcasted := b\<rparr>) = registry_inv w"
  by (simp_all add: registry_inv_def sess_inv_def names_inv_def count_inv_def unreaped_def)

end
