(* ===== verification/Reader.thy ===== *)
theory Reader
  imports Registry_Inv
begin

text \<open>
  The reader coroutine of \<^verbatim>\<open>source/session.cpp\<close>: the parse loop over the receive
  buffer and the steps between the awaits.  The loop is a partial function whose value
  \<^term>\<open>None\<close> also stands for a loop that never ends, so the theorem that it is never
  \<^term>\<open>None\<close> on a good state is both memory safety and termination.
\<close>

section \<open>One iteration of the parse loop\<close>

text \<open>\<^verbatim>\<open>if (!handler(...)) close();\<close>\<close>

definition close_unless :: "sid \<Rightarrow> (bool \<times> 'db world) option \<Rightarrow> 'db world option" where
  "close_unless s r = do { (ok, w) \<leftarrow> r; if ok then Some w else on_session s session_close w }"

text \<open>
  The result says whether the loop is left (\<^verbatim>\<open>break\<close> or \<^verbatim>\<open>need_more\<close>), or is the
  exception that escapes.
\<close>

definition parse_login ::
    "'db sqlite_api \<Rightarrow> sid \<Rightarrow> session_impl \<Rightarrow> 'db world \<Rightarrow> ((exn + bool) \<times> 'db world) option" where
  "parse_login api s x w =
     (if si_rx x ! 0 \<noteq> opcode_byte OPCODE_LOGIN then do {
        w \<leftarrow> on_session s session_close w; Some (Inr True, w) }
      else if si_rxpos x < sizeof_login_packet_c2s then Some (Inr True, w)
      else do {
        let pkt = login_of_bytes (si_rx x);
        w \<leftarrow> on_session s (consume_rx sizeof_login_packet_c2s) w;
        (r, w) \<leftarrow> handle_login api s pkt w;
        case r of
          Inl e \<Rightarrow> Some (Inl e, w)
        | Inr True \<Rightarrow> Some (Inr False, w)
        | Inr False \<Rightarrow> do { w \<leftarrow> on_session s session_close w; Some (Inr True, w) } })"

definition chat_text :: "chat_packet_c2s \<Rightarrow> bytes" where
  "chat_text pkt = take (bounded_strlen (hc_message pkt) CHAT_MESSAGE_LEN) (hc_message pkt)"

definition parse_command :: "sid \<Rightarrow> session_impl \<Rightarrow> 'db world \<Rightarrow> (bool \<times> 'db world) option" where
  "parse_command s x w = (let op = si_rx x ! 0 in
     if op = opcode_byte OPCODE_PING then do {
       w \<leftarrow> on_session s (consume_rx 1) w; Some (False, w) }
     else if op = opcode_byte OPCODE_CONNECT then
       (if si_rxpos x < sizeof_connect_packet_c2s then Some (True, w)
        else do {
          let pkt = connect_of_bytes (si_rx x);
          w \<leftarrow> on_session s (consume_rx sizeof_connect_packet_c2s) w;
          w \<leftarrow> close_unless s (handle_connect s (cc_group pkt) w); Some (False, w) })
     else if op = opcode_byte OPCODE_DISCONNECT then do {
       w \<leftarrow> on_session s (consume_rx 1) w;
       w \<leftarrow> close_unless s (handle_disconnect s w); Some (False, w) }
     else if op = opcode_byte OPCODE_SCAN then do {
       w \<leftarrow> on_session s (consume_rx 1) w;
       w \<leftarrow> close_unless s (handle_scan s w); Some (False, w) }
     else if op = opcode_byte OPCODE_CHAT then
       (if si_rxpos x < sizeof_chat_packet_c2s then Some (True, w)
        else do {
          let pkt = chat_of_bytes (si_rx x);
          w \<leftarrow> on_session s (consume_rx sizeof_chat_packet_c2s) w;
          w \<leftarrow> close_unless s (handle_chat s (chat_text pkt) w); Some (False, w) })
     else do { w \<leftarrow> on_session s session_close w; Some (False, w) })"

section \<open>The parse loop\<close>

partial_function (option) parse_loop ::
    "'db sqlite_api \<Rightarrow> sid \<Rightarrow> 'db world \<Rightarrow> ((exn + unit) \<times> 'db world) option" where
  "parse_loop api s w = do {
     x \<leftarrow> session_at w s;
     if si_rxpos x > 0 \<and> \<not> si_closed x then
       (if us_game x = None then do {
          (r, w) \<leftarrow> parse_login api s x w;
          case r of
            Inl e \<Rightarrow> Some (Inl e, w)
          | Inr stop \<Rightarrow> if stop then Some (Inr (), w) else parse_loop api s w }
        else do {
          (stop, w) \<leftarrow> parse_command s x w;
          if stop then Some (Inr (), w) else parse_loop api s w })
     else Some (Inr (), w) }"

section \<open>The coroutine\<close>

text \<open>After the loop: \<^verbatim>\<open>close()\<close> and \<^verbatim>\<open>close_connection\<close>; then it returns.\<close>

definition reader_exit :: "sid \<Rightarrow> 'db world \<Rightarrow> 'db world option" where
  "reader_exit s w = do {
     w \<leftarrow> on_session s session_close w;
     w \<leftarrow> close_connection s w;
     on_session s (si_reader_update (\<lambda>_. Rd_done)) w }"

text \<open>From the loop head to the next read.\<close>

definition reader_head :: "sid \<Rightarrow> 'db world \<Rightarrow> 'db world option" where
  "reader_head s w = do {
     x \<leftarrow> session_at w s;
     if si_closed x then reader_exit s w
     else if si_rxpos x \<ge> RX_SIZE then do { w \<leftarrow> on_session s session_close w; reader_exit s w }
     else on_session s (si_reader_update (\<lambda>_. Rd_read)) w }"

text \<open>
  A read completes at time \<open>now\<close> with \<open>b\<close> or an error.  An exception that escapes the parse
  loop ends the coroutine; \<^verbatim>\<open>detached\<close> discards it.
\<close>

definition reader_read ::
    "'db sqlite_api \<Rightarrow> nat \<Rightarrow> bool \<Rightarrow> bytes \<Rightarrow> sid \<Rightarrow> 'db world \<Rightarrow> 'db world option" where
  "reader_read api now ec b s w =
     (if ec \<or> b = [] then reader_exit s w
      else do {
        w \<leftarrow> on_session s (timer_expires_after now SERVER_USER_TIMEOUT_SECONDS \<circ> receive b) w;
        (r, w) \<leftarrow> parse_loop api s w;
        case r of
          Inl e \<Rightarrow> on_session s (si_reader_update (\<lambda>_. Rd_threw)) w
        | Inr _ \<Rightarrow> reader_head s w })"

end
