(* ===== verification/Reader_Safe.thy ===== *)
theory Reader_Safe
  imports Reader
begin

text \<open>
  The reader never follows a dangling pointer and its parse loop always ends, on every state the
  invariant \<open>server_inv\<close> admits; the invariant holds again afterwards.
\<close>

section \<open>The invariant between steps\<close>

definition pc_wf :: "session_impl \<Rightarrow> bool" where
  "pc_wf x \<longleftrightarrow> (us_reaped x \<longleftrightarrow> si_reader x = Rd_done) \<and> (us_game x \<noteq> None \<longrightarrow> si_reader x = Rd_read)"

definition server_inv :: "'db world \<Rightarrow> bool" where
  "server_inv w \<longleftrightarrow> registry_inv w \<and> (\<forall>s x. w_sessions w s = Some x \<longrightarrow> pc_wf x)"

text \<open>\<open>s\<close> is inside its read loop with session object \<open>x\<close>.\<close>

definition reading :: "'db world \<Rightarrow> sid \<Rightarrow> session_impl \<Rightarrow> bool" where
  "reading w s x \<longleftrightarrow> server_inv w \<and> w_sessions w s = Some x \<and> si_reader x = Rd_read"

lemma server_inv_init: "server_inv (registry_init h)"
  using registry_inv_init[of h] by (simp add: server_inv_def registry_init_def)

lemma pc_wf_frame [simp]:
  "pc_wf (send_bytes b x) = pc_wf x" "pc_wf (send_all bs x) = pc_wf x" "pc_wf (session_close x) = pc_wf x"
  "pc_wf (consume_rx k x) = pc_wf x" "pc_wf (receive b x) = pc_wf x"
  "pc_wf (timer_expires_after now secs x) = pc_wf x"
  by (simp_all add: pc_wf_def frame_simps timer_expires_after_def)

lemma readingD:
  assumes "reading w s x"
  shows "server_inv w" "registry_inv w" "links_inv w" "w_sessions w s = Some x" "session_at w s = Some x"
    "si_reader x = Rd_read" "\<not> us_reaped x" "alive x" "session_wf x"
proof -
  show "server_inv w" "w_sessions w s = Some x" "si_reader x = Rd_read"
    using assms by (simp_all add: reading_def)
  then show "registry_inv w" "\<not> us_reaped x" by (auto simp: server_inv_def pc_wf_def)
  then show "links_inv w" "session_wf x"
    using \<open>w_sessions w s = Some x\<close> by (simp_all add: registry_invD registry_inv_session)
  show "alive x" using \<open>si_reader x = Rd_read\<close> by (simp add: alive_def)
  then show "session_at w s = Some x" using \<open>w_sessions w s = Some x\<close> by (simp add: session_at_def)
qed

text \<open>A change of the session that touches neither its links nor its program counter.\<close>

definition quiet :: "(session_impl \<Rightarrow> session_impl) \<Rightarrow> bool" where
  "quiet f \<longleftrightarrow> (\<forall>x. us_game (f x) = us_game x \<and> us_group (f x) = us_group x \<and>
     us_reaped (f x) = us_reaped x \<and> si_reader (f x) = si_reader x)"

lemma quiet_ops [simp]:
  "quiet session_close" "quiet (consume_rx k)" "quiet (timer_expires_after now secs \<circ> receive b)"
  "quiet (send_bytes b)"
  by (simp_all add: quiet_def frame_simps timer_expires_after_def)

lemma reading_update:
  assumes "reading w s x" "quiet f" "session_wf (f x)"
  shows "on_session s f w = Some (set_session s (f x) w)" "reading (set_session s (f x) w) s (f x)"
proof -
  note r = readingD[OF assms(1)]
  have f: "us_game (f x) = us_game x" "us_group (f x) = us_group x" "us_reaped (f x) = us_reaped x"
    "si_reader (f x) = si_reader x" using assms(2) by (simp_all add: quiet_def)
  show "on_session s f w = Some (set_session s (f x) w)" using r(5) by (rule on_session_eq)
  have "registry_inv (set_session s (f x) w)"
    using r f assms(3) by (intro registry_inv_set_session[OF r(2,4)]) (simp_all add: alive_def)
  then show "reading (set_session s (f x) w) s (f x)"
    using r(1,4,6) f by (auto simp: reading_def server_inv_def pc_wf_def)
qed

lemma reading_close:
  assumes "reading w s x"
  shows "on_session s session_close w = Some (set_session s (session_close x) w)"
    "reading (set_session s (session_close x) w) s (session_close x)"
  using reading_update[OF assms, of session_close] readingD(9)[OF assms] by simp_all

lemma reading_consume:
  assumes "reading w s x"
  shows "on_session s (consume_rx k) w = Some (set_session s (consume_rx k x) w)"
    "reading (set_session s (consume_rx k x) w) s (consume_rx k x)"
  using reading_update[OF assms, of "consume_rx k"] readingD(9)[OF assms] by simp_all

section \<open>Handlers\<close>

text \<open>
  What every handler guarantees: it is defined, the session is still in its loop, and buffer and closed
  flag are as they were.
\<close>

definition served :: "'db world \<Rightarrow> sid \<Rightarrow> session_impl \<Rightarrow> bool" where
  "served w s x \<longleftrightarrow> (\<exists>y. reading w s y \<and> si_rx y = si_rx x \<and> si_rxpos y = si_rxpos x \<and> si_closed y = si_closed x)"

lemma served_refl: "reading w s x \<Longrightarrow> served w s x"
  by (auto simp: served_def)

lemma servedI:
  assumes "reading w s x" "registry_inv v" "w_sessions v s = Some y"
    "\<And>t. t \<noteq> s \<Longrightarrow> w_sessions v t = w_sessions w t"
    "si_reader y = Rd_read" "us_reaped y = us_reaped x"
    "si_rx y = si_rx x" "si_rxpos y = si_rxpos x" "si_closed y = si_closed x"
  shows "served (deliver f v) s x"
proof -
  note r = readingD[OF assms(1)]
  have "pc_wf z" if "w_sessions v t = Some z" for t z
  proof (cases "t = s")
    case True
    then show ?thesis using that assms r by (auto simp: pc_wf_def)
  next
    case False
    then show ?thesis using that assms(4)[OF False] r(1) by (simp add: server_inv_def)
  qed
  then have "server_inv (deliver f v)" using assms(2) by (auto simp: server_inv_def deliver_sessions)
  moreover have "w_sessions (deliver f v) s = Some (send_all (f s) y)" using assms(3) by (simp add: deliver_sessions)
  ultimately have "reading (deliver f v) s (send_all (f s) y)" using assms(5) by (simp add: reading_def frame_simps)
  then show ?thesis using assms by (auto simp: served_def frame_simps)
qed

lemma reading_game:
  assumes "reading w s x" "us_game x = Some p"
  obtains g where "w_game_heap w p = Some g"
  using user_alive[OF readingD(3)[OF assms(1)], of s p] readingD(4)[OF assms(1)] assms(2)
  by (auto simp: gm_of_def)

lemma served_connect:
  assumes r: "reading w s x" and len: "length name = ADHOCCTL_GROUPNAME_LEN"
  shows "\<exists>ok v. handle_connect s name w = Some (ok, v) \<and> served v s x"
proof -
  note d = readingD[OF r]
  show ?thesis
  proof (cases "us_game x")
    case None
    then show ?thesis using d r by (auto simp: handle_connect_def served_refl)
  next
    case (Some p)
    obtain g where g: "w_game_heap w p = Some g" by (rule reading_game[OF r Some])
    show ?thesis
    proof (cases "valid_group_name name \<and> us_group x = None")
      case True
      let ?key = "group_name_str name"
      obtain q where q: "w_sessions (join_world s p ?key w) = (w_sessions w)(s \<mapsto> x\<lparr>us_group := Some q\<rparr>)"
        using d(4) by (blast intro: join_world_sessions)
      have "registry_inv (join_world s p ?key w)"
        using True len group_name_str_ok[of name]
        by (intro registry_inv_join[OF d(2,5) Some]) simp_all
      then have "served (deliver f (join_world s p ?key w)) s x" for f
        using d q by (intro servedI[OF r, where y = "x\<lparr>us_group := Some q\<rparr>"]) auto
      then show ?thesis using handle_connect_eq[OF d(3,5) Some] True by auto
    next
      case False
      then show ?thesis using d r Some g by (auto simp: handle_connect_def game_at_def served_refl)
    qed
  qed
qed

lemma leave_group_served:
  assumes r: "reading w s x" and q: "us_group x = Some q"
  shows "\<exists>v. leave_group s w = Some v \<and> served v s x"
proof -
  note d = readingD[OF r]
  have gr: "gr_of w s = Some q" using d(4) q by (simp add: gr_of_def)
  obtain gn where gn: "w_group_heap w q = Some gn" by (rule player_group[OF d(3) gr])
  have "registry_inv (leave_links s q w)" by (rule registry_inv_leave[OF d(2,5) q])
  then have "served (deliver f (leave_links s q w)) s x" for f
    using d by (intro servedI[OF r, where y = "x\<lparr>us_group := None\<rparr>"]) auto
  then show ?thesis using leave_group_eq[OF d(3) gr gn d(4)] by auto
qed

lemma served_disconnect:
  assumes r: "reading w s x"
  shows "\<exists>ok v. handle_disconnect s w = Some (ok, v) \<and> served v s x"
proof (cases "us_game x = None \<or> us_group x = None")
  case True
  then show ?thesis using readingD[OF r] r by (auto simp: handle_disconnect_def served_refl)
next
  case False
  then obtain q v where "us_group x = Some q" "leave_group s w = Some v" "served v s x"
    using leave_group_served[OF r] by blast
  then show ?thesis using False readingD[OF r] by (auto simp: handle_disconnect_def)
qed

lemma served_deliver: "reading w s x \<Longrightarrow> served (deliver f w) s x"
  using readingD[of w s x] by (intro servedI) auto

lemma served_scan:
  assumes r: "reading w s x"
  shows "\<exists>ok v. handle_scan s w = Some (ok, v) \<and> served v s x"
proof (cases "us_game x")
  case None
  then show ?thesis using readingD[OF r] r by (auto simp: handle_scan_def served_refl)
next
  case (Some p)
  note d = readingD[OF r]
  obtain g where g: "w_game_heap w p = Some g" by (rule reading_game[OF r Some])
  show ?thesis
  proof (cases "us_group x = None")
    case True
    then show ?thesis using handle_scan_eq[OF d(3,5) Some True g] served_deliver[OF r] by auto
  next
    case False
    then show ?thesis using d Some r by (auto simp: handle_scan_def served_refl)
  qed
qed

lemma served_chat:
  assumes r: "reading w s x"
  shows "\<exists>ok v. handle_chat s message w = Some (ok, v) \<and> served v s x"
proof -
  note d = readingD[OF r]
  show ?thesis
  proof (cases "us_group x")
    case None
    then show ?thesis using d r by (cases "us_game x") (auto simp: handle_chat_def served_refl)
  next
    case (Some q)
    then show ?thesis using handle_chat_eq[OF d(3,5) Some] served_deliver[OF r] by auto
  qed
qed

lemma crosslink_length:
  "apply_crosslink api h code = (Inr c, h') \<Longrightarrow> length code = PRODUCT_CODE_LENGTH \<Longrightarrow>
   length c = PRODUCT_CODE_LENGTH"
  by (auto simp: apply_crosslink_def Let_def split: sum.splits prod.splits bool.splits option.splits if_splits)

lemma w_sessions_db: "w_sessions (w\<lparr>w_db := h\<rparr>) = w_sessions w"
  by simp

lemma served_db: "reading w s x \<Longrightarrow> served (w\<lparr>w_db := h\<rparr>) s x"
  by (auto simp: served_def reading_def server_inv_def)

text \<open>A login either leaves everything but the database handle alone, or it succeeds.\<close>

lemma served_login:
  assumes r: "reading w s x" and pkt: "wf_login pkt" and out: "us_game x = None"
  shows "\<exists>res v. handle_login api s pkt w = Some (res, v) \<and> served v s x
    \<and> (\<forall>e. res = Inl e \<longrightarrow> v = w\<lparr>w_db := w_db v\<rparr>)"
proof (cases "valid_login_packet pkt")
  case False
  then show ?thesis using readingD[OF r] r out by (auto simp: handle_login_def served_refl)
next
  case True
  note d = readingD[OF r]
  obtain c h where c: "apply_crosslink api (w_db w) (lp_game pkt) = (c, h)" by fastforce
  show ?thesis
  proof (cases c)
    case (Inl e)
    then show ?thesis using True d c out served_db[OF r] by (auto simp: handle_login_def)
  next
    case (Inr code)
    obtain u h' where u: "record_unknown_product api h code = (u, h')" by fastforce
    show ?thesis
    proof (cases u)
      case (Inl e)
      then show ?thesis using True d c u Inr out served_db[OF r] by (auto simp: handle_login_def)
    next
      case Ok: (Inr _)
      let ?w = "w\<lparr>w_db := h'\<rparr>"
      have r': "reading ?w s x" using r by (simp add: reading_def server_inv_def)
      note d' = readingD[OF r']
      have code: "length code = PRODUCT_CODE_LENGTH"
        using crosslink_length[of api "w_db w" "lp_game pkt" code h] c Inr pkt by (simp add: wf_login_def)
      define p where "p = (case map_of (w_games ?w) (product_code_str code) of Some p \<Rightarrow> p | None \<Rightarrow> w_next_node ?w)"
      have "registry_inv (login_world s pkt code ?w)"
        by (rule registry_inv_login[OF d'(2,5) out d'(7) pkt code])
      then have "served (deliver (\<lambda>_. []) (login_world s pkt code ?w)) s x"
        using d' by (intro servedI[OF r', where y = "x\<lparr>us_mac := lp_mac pkt, us_name := lp_name pkt, us_game := Some p\<rparr>"])
          (auto simp: p_def)
      then show ?thesis
        using True d out c u Inr Ok login_to_eq[OF d'(3,5), of pkt code] by (auto simp: handle_login_def)
    qed
  qed
qed

section \<open>One iteration\<close>

lemma close_unless_safe:
  assumes "r = Some (ok, v)" "served v s x"
  shows "\<exists>u y. close_unless s r = Some u \<and> reading u s y \<and> si_rxpos y = si_rxpos x"
proof -
  obtain y where y: "reading v s y" "si_rxpos y = si_rxpos x" using assms(2) by (auto simp: served_def)
  show ?thesis
  proof (cases ok)
    case True
    then show ?thesis using assms y by (auto simp: close_unless_def)
  next
    case False
    then show ?thesis
      using assms y reading_close[OF y(1)] by (auto simp: close_unless_def frame_simps)
  qed
qed

lemma rx_length: "reading w s x \<Longrightarrow> length (si_rx x) = 1024 \<and> si_rxpos x \<le> 1024"
  using readingD(9)[of w s x] by (simp add: session_wf_def rx_wf_def)

lemma consumed: "reading w s x \<Longrightarrow> si_rxpos (consume_rx k x) = si_rxpos x - k"
  using readingD(9)[of w s x] by (simp add: session_wf_def rxpos_consume)

lemma parse_login_safe:
  assumes r: "reading w s x" and out: "us_game x = None" and pos: "0 < si_rxpos x"
  shows "\<exists>res v y. parse_login api s x w = Some (res, v) \<and> reading v s y
    \<and> (\<forall>e. res = Inl e \<longrightarrow> us_game y = None)
    \<and> (res = Inr False \<longrightarrow> si_rxpos y < si_rxpos x)
    \<and> (res = Inr True \<longrightarrow> si_closed y \<or> si_rxpos y < sizeof_login_packet_c2s)"
proof -
  consider "si_rx x ! 0 \<noteq> opcode_byte OPCODE_LOGIN"
    | "si_rx x ! 0 = opcode_byte OPCODE_LOGIN" "si_rxpos x < sizeof_login_packet_c2s"
    | "si_rx x ! 0 = opcode_byte OPCODE_LOGIN" "\<not> si_rxpos x < sizeof_login_packet_c2s" by blast
  then show ?thesis
  proof cases
    case 1
    then show ?thesis using reading_close[OF r] by (auto simp: parse_login_def frame_simps)
  next
    case 2
    then show ?thesis using r by (auto simp: parse_login_def)
  next
    case 3
    let ?y = "consume_rx sizeof_login_packet_c2s x" and ?pkt = "login_of_bytes (si_rx x)"
    note c = reading_consume[OF r, of sizeof_login_packet_c2s]
    have "wf_login ?pkt" using rx_length[OF r] by (intro wf_login_of_bytes) simp
    moreover have "us_game ?y = None" using out by (simp add: frame_simps)
    ultimately obtain res v where v: "handle_login api s ?pkt (set_session s ?y w) = Some (res, v)"
      "served v s ?y" "\<forall>e. res = Inl e \<longrightarrow> v = (set_session s ?y w)\<lparr>w_db := w_db v\<rparr>"
      using served_login[OF c(2)] by blast
    obtain z where z: "reading v s z" "si_rxpos z = si_rxpos ?y" using v(2) by (auto simp: served_def)
    have lt: "si_rxpos z < si_rxpos x" using consumed[OF r] z(2) pos by simp
    show ?thesis
    proof (cases res)
      case (Inl e)
      have "w_sessions v = w_sessions (set_session s ?y w)" using v(3) Inl w_sessions_db by metis
      then have "w_sessions v s = Some ?y" by simp
      then have "us_game z = None" using readingD(4)[OF z(1)] out by (simp add: frame_simps)
      then show ?thesis using 3 c v Inl z by (auto simp: parse_login_def Let_def)
    next
      case (Inr ok)
      then show ?thesis
        using 3 c v z lt reading_close[OF z(1)]
        by (cases ok) (auto simp: parse_login_def Let_def frame_simps)
    qed
  qed
qed

lemma parse_command_safe:
  assumes r: "reading w s x" and pos: "0 < si_rxpos x"
  shows "\<exists>stop v y. parse_command s x w = Some (stop, v) \<and> reading v s y
    \<and> (stop \<longrightarrow> si_rxpos y < sizeof_login_packet_c2s)
    \<and> (\<not> stop \<longrightarrow> si_closed y \<or> si_rxpos y < si_rxpos x)"
proof -
  have step: "\<exists>u y. close_unless s rs = Some u \<and> reading u s y \<and> (si_closed y \<or> si_rxpos y < si_rxpos x)"
    if "\<exists>ok v. rs = Some (ok, v) \<and> served v s (consume_rx k x)" "0 < k" for rs k
    using that close_unless_safe[of rs _ _ s "consume_rx k x"] consumed[OF r, of k] pos by fastforce
  note c = reading_consume[OF r]
  have len: "length (cc_group (connect_of_bytes (si_rx x))) = ADHOCCTL_GROUPNAME_LEN"
    using rx_length[OF r] by (simp add: connect_of_bytes_def)
  have conn: "\<exists>u y. close_unless s (handle_connect s (cc_group (connect_of_bytes (si_rx x)))
      (set_session s (consume_rx 9 x) w)) = Some u \<and> reading u s y \<and> (si_closed y \<or> si_rxpos y < si_rxpos x)"
    by (rule step[OF served_connect[OF c(2) len]]) simp
  have disc: "\<exists>u y. close_unless s (handle_disconnect s (set_session s (consume_rx 1 x) w)) = Some u
      \<and> reading u s y \<and> (si_closed y \<or> si_rxpos y < si_rxpos x)"
    by (rule step[OF served_disconnect[OF c(2)]]) simp
  have scan: "\<exists>u y. close_unless s (handle_scan s (set_session s (consume_rx 1 x) w)) = Some u
      \<and> reading u s y \<and> (si_closed y \<or> si_rxpos y < si_rxpos x)"
    by (rule step[OF served_scan[OF c(2)]]) simp
  have chat: "\<exists>u y. close_unless s (handle_chat s (chat_text (chat_of_bytes (si_rx x)))
      (set_session s (consume_rx 65 x) w)) = Some u \<and> reading u s y \<and> (si_closed y \<or> si_rxpos y < si_rxpos x)"
    by (rule step[OF served_chat[OF c(2)]]) simp
  have fin: ?thesis if "parse_command s x w = do { w \<leftarrow> rs; Some (False, w) }"
    "\<exists>u y. rs = Some u \<and> reading u s y \<and> (si_closed y \<or> si_rxpos y < si_rxpos x)" for rs
  proof -
    note rs = that
    obtain u y where "rs = Some u" "reading u s y" "si_closed y \<or> si_rxpos y < si_rxpos x"
      using rs(2) by blast
    then show ?thesis using rs(1) by (intro exI[of _ False] exI[of _ u] exI[of _ y]) simp
  qed
  note cmd = parse_command_def Let_def
  let ?op = "si_rx x ! 0"
  consider "?op = opcode_byte OPCODE_PING" | "?op = opcode_byte OPCODE_CONNECT"
    | "?op = opcode_byte OPCODE_DISCONNECT" | "?op = opcode_byte OPCODE_SCAN" | "?op = opcode_byte OPCODE_CHAT"
    | "?op \<noteq> opcode_byte OPCODE_PING" "?op \<noteq> opcode_byte OPCODE_CONNECT"
      "?op \<noteq> opcode_byte OPCODE_DISCONNECT" "?op \<noteq> opcode_byte OPCODE_SCAN" "?op \<noteq> opcode_byte OPCODE_CHAT"
    by blast
  then show ?thesis
  proof cases
    case 1
    then have "parse_command s x w = Some (False, set_session s (consume_rx 1 x) w)"
      using c(1)[of 1] by (simp add: cmd)
    moreover have "si_rxpos (consume_rx 1 x) < si_rxpos x" using consumed[OF r] pos by simp
    ultimately show ?thesis using c(2)[of 1] by blast
  next
    case 2
    show ?thesis
    proof (cases "si_rxpos x < 9")
      case True
      then have "parse_command s x w = Some (True, w)" using 2 by (simp add: cmd)
      then show ?thesis using True r by (intro exI[of _ True] exI[of _ w] exI[of _ x]) simp
    next
      case False
      then have "parse_command s x w = do {
          w \<leftarrow> close_unless s (handle_connect s (cc_group (connect_of_bytes (si_rx x))) (set_session s (consume_rx 9 x) w)); Some (False, w) }"
        using 2 c(1)[of 9] by (simp add: cmd)
      then show ?thesis by (rule fin[OF _ conn])
    qed
  next
    case 3
    then have "parse_command s x w = do {
        w \<leftarrow> close_unless s (handle_disconnect s (set_session s (consume_rx 1 x) w)); Some (False, w) }"
      using c(1)[of 1] by (simp add: cmd)
    then show ?thesis by (rule fin[OF _ disc])
  next
    case 4
    then have "parse_command s x w = do {
        w \<leftarrow> close_unless s (handle_scan s (set_session s (consume_rx 1 x) w)); Some (False, w) }"
      using c(1)[of 1] by (simp add: cmd)
    then show ?thesis by (rule fin[OF _ scan])
  next
    case 5
    show ?thesis
    proof (cases "si_rxpos x < 65")
      case True
      then have "parse_command s x w = Some (True, w)" using 5 by (simp add: cmd)
      then show ?thesis using True r by (intro exI[of _ True] exI[of _ w] exI[of _ x]) simp
    next
      case False
      then have "parse_command s x w = do {
          w \<leftarrow> close_unless s (handle_chat s (chat_text (chat_of_bytes (si_rx x))) (set_session s (consume_rx 65 x) w)); Some (False, w) }"
        using 5 c(1)[of 65] by (simp add: cmd)
      then show ?thesis by (rule fin[OF _ chat])
    qed
  next
    case 6
    then have "parse_command s x w = do { w \<leftarrow> on_session s session_close w; Some (False, w) }"
      unfolding cmd by (simp only: if_False)
    moreover have "si_closed (session_close x)" by (simp add: frame_simps)
    ultimately show ?thesis
      using reading_close[OF r]
      by (intro exI[of _ False] exI[of _ "set_session s (session_close x) w"] exI[of _ "session_close x"]) simp
  qed
qed

section \<open>The parse loop\<close>

text \<open>
  The loop ends, without undefined behaviour, with the session closed, or with less than one login
  packet left in the buffer, or with an exception before the session has a game.
\<close>

lemma parse_loop_safe:
  assumes "reading w s x"
  shows "\<exists>res v y. parse_loop api s w = Some (res, v) \<and> reading v s y
    \<and> (\<forall>e. res = Inl e \<longrightarrow> us_game y = None)
    \<and> (res = Inr () \<longrightarrow> si_closed y \<or> si_rxpos y < sizeof_login_packet_c2s)"
  using assms
proof (induction "si_rxpos x" arbitrary: w x rule: less_induct)
  case less
  note r = less.prems
  have closed: "si_closed y \<Longrightarrow> reading v s y \<Longrightarrow> parse_loop api s v = Some (Inr (), v)" for v y
    using readingD(5)[of v s y] by (subst parse_loop.simps) simp
  show ?case
  proof (cases "si_rxpos x > 0 \<and> \<not> si_closed x")
    case False
    then have "parse_loop api s w = Some (Inr (), w)"
      using readingD(5)[OF r] by (subst parse_loop.simps) auto
    then show ?thesis using r False by auto
  next
    case True
    show ?thesis
    proof (cases "us_game x = None")
      case None: True
      obtain res v y where s: "parse_login api s x w = Some (res, v)" "reading v s y"
        "\<forall>e. res = Inl e \<longrightarrow> us_game y = None" "res = Inr False \<Longrightarrow> si_rxpos y < si_rxpos x"
        "res = Inr True \<Longrightarrow> si_closed y \<or> si_rxpos y < sizeof_login_packet_c2s"
        using parse_login_safe[OF r None] True by blast
      have e: "parse_loop api s w = (case res of Inl e \<Rightarrow> Some (Inl e, v)
          | Inr stop \<Rightarrow> if stop then Some (Inr (), v) else parse_loop api s v)"
        using readingD(5)[OF r] True None s(1) by (subst parse_loop.simps) simp
      show ?thesis
      proof (cases "res = Inr False")
        case True
        then show ?thesis using e less.hyps[OF s(4) s(2)] by simp
      next
        case False
        then show ?thesis using e s by (auto split: sum.splits)
      qed
    next
      case Some: False
      obtain stop v y where s: "parse_command s x w = Some (stop, v)" "reading v s y"
        "stop \<Longrightarrow> si_rxpos y < sizeof_login_packet_c2s"
        "\<not> stop \<Longrightarrow> si_closed y \<or> si_rxpos y < si_rxpos x"
        using parse_command_safe[OF r conjunct1[OF True]] by blast
      have e: "parse_loop api s w = (if stop then Some (Inr (), v) else parse_loop api s v)"
        using readingD(5)[OF r] True Some s(1) by (subst parse_loop.simps) auto
      show ?thesis
        using e s closed less.hyps[OF _ s(2)] by (cases stop; cases "si_closed y") auto
    qed
  qed
qed

section \<open>The steps of the coroutine\<close>

lemma reader_exit_safe:
  assumes r: "server_inv w" and x: "session_at w s = Some x" "\<not> us_reaped x"
  shows "\<exists>v. reader_exit s w = Some v \<and> server_inv v"
proof -
  let ?y = "session_close x"
  let ?w = "set_session s ?y w"
  note sx = links_session[OF x(1)]
  have reg: "registry_inv w" using r by (simp add: server_inv_def)
  have al: "alive ?y" using sx by simp
  have inv: "registry_inv ?w"
    using sx registry_inv_session[OF reg, of s x] reg
    by (intro registry_inv_set_session[of w s x]) (simp_all add: frame_simps)
  have y: "session_at ?w s = Some ?y" "\<not> us_reaped ?y" using al x by (simp_all add: frame_simps)
  define f where "f = (\<lambda>t. if t \<in> peers_of ?w s then [disconnect_notice (us_ip_be ?y)] else [])"
  define c where "c = closed_world s ?w"
  have cl: "close_connection s ?w = Some (deliver f c)"
    unfolding f_def c_def using close_connection_eq[OF registry_invD(1)[OF inv] y] .
  let ?z = "?y\<lparr>us_reaped := True, us_group := None, us_game := None\<rparr>"
  have ses: "w_sessions c = (w_sessions w)(s \<mapsto> ?z)"
    unfolding c_def using closed_world_sessions[of ?w s ?y] by simp
  have invc: "registry_inv (deliver f c)"
    unfolding c_def by (intro registry_inv_deliver registry_inv_close[OF inv y])
  have sc: "w_sessions (deliver f c) s = Some (send_all (f s) ?z)" by (simp add: deliver_sessions ses)
  have "alive (send_all (f s) ?z)" using al by (simp add: frame_simps)
  then have at: "session_at (deliver f c) s = Some (send_all (f s) ?z)"
    using sc by (simp add: session_at_def)
  let ?v = "set_session s (si_reader_update (\<lambda>_. Rd_done) (send_all (f s) ?z)) (deliver f c)"
  have "reader_exit s w = Some ?v"
    using x cl at by (simp add: reader_exit_def on_session_eq)
  moreover have "registry_inv ?v"
    using registry_inv_session[OF invc sc]
    by (intro registry_inv_set_session[OF invc sc]) (simp_all add: frame_simps session_wf_def)
  moreover have "pc_wf z" if "w_sessions ?v t = Some z" for t z
    using that r by (auto simp: ses server_inv_def deliver_sessions pc_wf_def frame_simps split: if_splits)
  ultimately show ?thesis by (auto simp: server_inv_def)
qed

lemma reader_head_safe:
  assumes "server_inv w" "session_at w s = Some x" "si_reader x = Rd_start \<or> si_reader x = Rd_read"
  shows "\<exists>v. reader_head s w = Some v \<and> server_inv v"
proof -
  note sx = links_session[OF assms(2)]
  have reg: "registry_inv w" and nr: "\<not> us_reaped x"
    using assms sx by (auto simp: server_inv_def pc_wf_def)
  note wf = registry_inv_session[OF reg, of s x]
  have upd: "server_inv (set_session s y w)"
    if "us_game y = us_game x" "us_group y = us_group x" "us_reaped y = us_reaped x" "session_wf y" "alive y"
      "si_reader y = Rd_read \<or> si_reader y = si_reader x" for y
    using that assms sx reg nr
    by (auto simp: server_inv_def pc_wf_def intro!: registry_inv_set_session[of w s x])
  show ?thesis
  proof (cases "si_closed x \<or> si_rxpos x \<ge> RX_SIZE")
    case False
    have "server_inv (set_session s (si_reader_update (\<lambda>_. Rd_read) x) w)"
      using wf sx by (intro upd) (simp_all add: session_wf_def alive_def)
    then show ?thesis using False assms(2) by (auto simp: reader_head_def on_session_eq)
  next
    case True
    have "server_inv (set_session s (session_close x) w)"
      using wf sx by (intro upd) (simp_all add: frame_simps)
    then have "\<exists>v. reader_exit s (set_session s (session_close x) w) = Some v \<and> server_inv v"
      using sx nr by (intro reader_exit_safe[where x = "session_close x"]) (simp_all add: frame_simps)
    then show ?thesis
      using True assms(2) reader_exit_safe[OF assms(1,2) nr]
      by (cases "si_closed x") (simp_all add: reader_head_def on_session_eq)
  qed
qed

lemma reader_read_safe:
  assumes r: "reading w s x" and len: "length b \<le> RX_SIZE - si_rxpos x"
  shows "\<exists>v. reader_read api now ec b s w = Some v \<and> server_inv v"
proof (cases "ec \<or> b = []")
  case True
  then show ?thesis using reader_exit_safe[of w s x] readingD[OF r] by (simp add: reader_read_def)
next
  case False
  let ?f = "timer_expires_after now SERVER_USER_TIMEOUT_SECONDS \<circ> receive b"
  have "si_rxpos x + length b \<le> RX_SIZE" using len rx_length[OF r] by auto
  then have "session_wf (?f x)"
    unfolding o_apply using readingD(9)[OF r] by (intro session_wf_timer session_wf_receive)
  note u = reading_update[OF r quiet_ops(3) this]
  obtain res v y where p: "parse_loop api s (set_session s (?f x) w) = Some (res, v)" "reading v s y"
    "\<forall>e. res = Inl e \<longrightarrow> us_game y = None"
    using parse_loop_safe[OF u(2)] by fastforce
  note d = readingD[OF p(2)]
  show ?thesis
  proof (cases res)
    case (Inl e)
    let ?v = "set_session s (si_reader_update (\<lambda>_. Rd_threw) y) v"
    have "registry_inv ?v"
      using d p(3) Inl by (intro registry_inv_set_session[OF d(2,4)]) (simp_all add: session_wf_def)
    then have "server_inv ?v" using d p(3) Inl by (auto simp: server_inv_def pc_wf_def)
    then show ?thesis using False u(1) p(1) d Inl by (simp add: reader_read_def on_session_eq comp_def)
  next
    case (Inr _)
    then show ?thesis
      using False u(1) p(1) reader_head_safe[OF d(1,5)] d(6) by (simp add: reader_read_def comp_def)
  qed
qed

end
