(* ===== verification/Game_Server.thy ===== *)
theory Game_Server
  imports Reader_Safe
begin

text \<open>
  The running game server: the accept loops of \<^verbatim>\<open>source/game_server.cpp\<close>, the shutdown
  handler of \<^verbatim>\<open>source/main.cpp\<close>, and the coroutines of all sessions interleaved on the
  one thread of \<^verbatim>\<open>io_context{1}\<close>.  An \<open>action\<close> is what the event loop runs
  between two awaits; the environment chooses which enabled action is next, what the sockets deliver and
  when time passes.  \<open>perform\<close> is \<^term>\<open>None\<close> exactly when the code that runs has undefined
  behaviour or does not return.
\<close>

section \<open>Accepting\<close>

text \<open>
  A remote address: the four bytes of an IPv4 address with its text, or the text of an IPv6 address.
\<close>

datatype address = Addr_v4 bytes bytes | Addr_v6 bytes

definition open_session :: "nat \<Rightarrow> u32 \<Rightarrow> bytes \<Rightarrow> 'db world \<Rightarrow> 'db world" where
  "open_session now ip label w =
     (set_session (w_next_sid w) (session_start now (new_session ip label)) w)
       \<lparr>w_next_sid := Suc (w_next_sid w)\<rparr>"

text \<open>The loop body after a socket was accepted; \<^term>\<open>None\<close> is a failed \<^verbatim>\<open>remote_endpoint\<close>.\<close>

definition accept_tcp :: "nat \<Rightarrow> address option \<Rightarrow> 'db world \<Rightarrow> 'db world" where
  "accept_tcp now ep w = (case ep of
     None \<Rightarrow> w
   | Some a \<Rightarrow> (case try_open_connection w of
       (False, w) \<Rightarrow> w
     | (True, w) \<Rightarrow> (case a of
         Addr_v4 b label \<Rightarrow> open_session now (of_le32 b) label w
       | Addr_v6 label \<Rightarrow> open_session now 0 label w)))"

definition accept_unix :: "nat \<Rightarrow> 'db world \<Rightarrow> 'db world" where
  "accept_unix now w = (case try_open_connection w of
     (False, w) \<Rightarrow> w
   | (True, w) \<Rightarrow> open_session now 0 (ascii ''unix'') w)"

section \<open>The server\<close>

text \<open>
  Time in seconds; whether the game acceptor is open, its coroutine is in its loop, and the event loop
  runs.
\<close>

record 'db server =
  gs_world :: "'db world"
  gs_now :: nat
  gs_open :: bool
  gs_loop :: bool
  gs_running :: bool

definition server_init :: "'db option \<Rightarrow> 'db server" where
  "server_init h = \<lparr>gs_world = registry_init h, gs_now = 0, gs_open = True, gs_loop = True, gs_running = True\<rparr>"

text \<open>How \<^verbatim>\<open>async_accept\<close> completes, and the loop of \<^verbatim>\<open>run_game_server\<close>.\<close>

datatype accepted = Acc_aborted | Acc_error | Acc_tcp "address option" | Acc_unix

definition game_accept :: "accepted \<Rightarrow> 'db server \<Rightarrow> 'db server" where
  "game_accept a g = (case a of
     Acc_aborted \<Rightarrow> g\<lparr>gs_loop := False\<rparr>
   | Acc_error \<Rightarrow> g\<lparr>gs_loop := gs_open g\<rparr>
   | Acc_tcp ep \<Rightarrow> g\<lparr>gs_world := accept_tcp (gs_now g) ep (gs_world g), gs_loop := gs_open g\<rparr>
   | Acc_unix \<Rightarrow> g\<lparr>gs_world := accept_unix (gs_now g) (gs_world g), gs_loop := gs_open g\<rparr>)"

text \<open>\<^verbatim>\<open>on_stop_signal\<close>: broadcast, then close the acceptor.\<close>

definition on_stop_signal :: "'db server \<Rightarrow> 'db server option" where
  "on_stop_signal g = do {
     w \<leftarrow> broadcast_shutdown (gs_world g);
     Some (g\<lparr>gs_world := w, gs_open := False\<rparr>) }"

text \<open>
  A rehash of \<^verbatim>\<open>std::unordered_map\<close>: the iteration order of the game map and of every
  group map changes, nothing else.
\<close>

definition rehashed :: "'db world \<Rightarrow> 'db world \<Rightarrow> bool" where
  "rehashed w v \<longleftrightarrow> (\<exists>gs gh. v = w\<lparr>w_games := gs, w_game_heap := gh\<rparr> \<and> mset gs = mset (w_games w)
     \<and> (\<forall>p. case w_game_heap w p of None \<Rightarrow> gh p = None
        | Some g \<Rightarrow> \<exists>ps. gh p = Some (g\<lparr>gm_groups := ps\<rparr>) \<and> mset ps = mset (gm_groups g)))"

datatype 'db action =
    Tick
  | Accept accepted
  | Reader_start sid
  | Reader_read sid bool bytes
  | Writer_resume sid
  | Writer_written sid bool
  | Watchdog_start sid
  | Watchdog_wake sid bool
  | Stop_signal
  | Drained
  | Rehash "'db world"
  | Db_changes 'db

definition session_is :: "'db server \<Rightarrow> sid \<Rightarrow> (session_impl \<Rightarrow> bool) \<Rightarrow> bool" where
  "session_is g s P = (case w_sessions (gs_world g) s of None \<Rightarrow> False | Some x \<Rightarrow> P x)"

text \<open>
  What the program counters and the environment allow.  A read delivers at most what the buffer has
  room for.  A timer wait completes as aborted when it was cancelled, and otherwise not before its
  expiry; a wait that expired and was then cancelled before its coroutine ran completes without an error.
\<close>

definition enabled :: "'db action \<Rightarrow> 'db server \<Rightarrow> bool" where
  "enabled a g = (gs_running g \<and> (case a of
     Tick \<Rightarrow> True
   | Accept r \<Rightarrow> gs_loop g \<and> (case r of Acc_aborted \<Rightarrow> \<not> gs_open g | _ \<Rightarrow> True)
   | Reader_start s \<Rightarrow> session_is g s (\<lambda>x. si_reader x = Rd_start)
   | Reader_read s ec b \<Rightarrow> session_is g s (\<lambda>x. si_reader x = Rd_read \<and> length b \<le> RX_SIZE - si_rxpos x)
   | Writer_resume s \<Rightarrow> session_is g s (\<lambda>x. si_writer x = Wr_start \<or> si_writer x = Wr_wait True)
   | Writer_written s ec \<Rightarrow> session_is g s (\<lambda>x. case si_writer x of Wr_write _ \<Rightarrow> True | _ \<Rightarrow> False)
   | Watchdog_start s \<Rightarrow> session_is g s (\<lambda>x. si_watchdog x = Wd_start)
   | Watchdog_wake s aborted \<Rightarrow> session_is g s (\<lambda>x. if aborted then si_watchdog x = Wd_wait True
       else si_watchdog x = Wd_wait True \<or> si_watchdog x = Wd_wait False \<and> gs_now g \<ge> si_expiry x)
   | Stop_signal \<Rightarrow> gs_open g
   | Drained \<Rightarrow> \<not> gs_open g
   | Rehash w \<Rightarrow> rehashed (gs_world g) w
   | Db_changes h \<Rightarrow> w_db (gs_world g) \<noteq> None))"

definition update_session :: "sid \<Rightarrow> (session_impl \<Rightarrow> session_impl) \<Rightarrow> 'db server \<Rightarrow> 'db server" where
  "update_session s f g = (case w_sessions (gs_world g) s of None \<Rightarrow> g
     | Some x \<Rightarrow> g\<lparr>gs_world := set_session s (f x) (gs_world g)\<rparr>)"

definition perform :: "'db sqlite_api \<Rightarrow> 'db action \<Rightarrow> 'db server \<Rightarrow> 'db server option" where
  "perform api a g = (case a of
     Tick \<Rightarrow> Some (g\<lparr>gs_now := Suc (gs_now g)\<rparr>)
   | Accept r \<Rightarrow> Some (game_accept r g)
   | Reader_start s \<Rightarrow> map_option (\<lambda>w. g\<lparr>gs_world := w\<rparr>) (reader_head s (gs_world g))
   | Reader_read s ec b \<Rightarrow>
       map_option (\<lambda>w. g\<lparr>gs_world := w\<rparr>) (reader_read api (gs_now g) ec b s (gs_world g))
   | Writer_resume s \<Rightarrow> Some (update_session s writer_loop g)
   | Writer_written s ec \<Rightarrow> Some (update_session s (writer_written ec) g)
   | Watchdog_start s \<Rightarrow> Some (update_session s watchdog_loop g)
   | Watchdog_wake s aborted \<Rightarrow> Some (update_session s (watchdog_wake aborted (gs_now g)) g)
   | Stop_signal \<Rightarrow> on_stop_signal g
   | Drained \<Rightarrow> Some (g\<lparr>gs_running := False\<rparr>)
   | Rehash w \<Rightarrow> Some (g\<lparr>gs_world := w\<rparr>)
   | Db_changes h \<Rightarrow> Some (g\<lparr>gs_world := (gs_world g)\<lparr>w_db := Some h\<rparr>\<rparr>))"

inductive reachable :: "'db sqlite_api \<Rightarrow> 'db option \<Rightarrow> 'db server \<Rightarrow> bool"
  for api :: "'db sqlite_api" and h :: "'db option" where
  init: "reachable api h (server_init h)"
| step: "reachable api h g \<Longrightarrow> enabled a g \<Longrightarrow> perform api a g = Some g' \<Longrightarrow> reachable api h g'"

section \<open>Every action keeps the invariant\<close>

lemma server_inv_accept:
  assumes "server_inv w" and room: "w_connection_count w < SERVER_USER_MAXIMUM"
  shows "server_inv (open_session now ip label (w\<lparr>w_connection_count := Suc (w_connection_count w)\<rparr>))"
proof -
  let ?s = "w_next_sid w" and ?x = "session_start now (new_session ip label)"
  define v where "v = open_session now ip label (w\<lparr>w_connection_count := Suc (w_connection_count w)\<rparr>)"
  note i = registry_invD[of w]
  have reg: "registry_inv w" using assms by (simp add: server_inv_def)
  have new: "w_sessions w ?s = None" and fut: "t \<ge> ?s \<Longrightarrow> w_sessions w t = None" for t
    using i(4)[OF reg] by (simp_all add: count_inv_def)
  have x: "us_game ?x = None" "us_group ?x = None" "\<not> us_reaped ?x" "pc_wf ?x"
    by (simp_all add: session_start_def new_session_def timer_expires_after_def pc_wf_def)
  have ses: "w_sessions v = (w_sessions w)(?s \<mapsto> ?x)" by (simp add: v_def open_session_def set_session_def)
  have gm: "gm_of v = gm_of w" "gr_of v = gr_of w"
    using new x by (auto simp: gm_of_def gr_of_def ses fun_eq_iff)
  have heap: "w_game_heap v = w_game_heap w" "w_group_heap v = w_group_heap w" "w_games v = w_games w"
    "w_next_node v = w_next_node w" "w_connection_count v = Suc (w_connection_count w)" "w_next_sid v = Suc ?s"
    by (simp_all add: v_def open_session_def set_session_def)
  have "session_at w t \<noteq> None \<Longrightarrow> session_at v t \<noteq> None" for t
    using new by (auto simp: session_at_def ses split: option.splits if_splits)
  then have "links_inv v"
    using i(1)[OF reg] unfolding links_inv_def links_defs gm heap by simp
  moreover have "sess_inv v" using i(2)[OF reg] session_wf_new by (auto simp: sess_inv_def ses)
  moreover have "names_inv v" using i(3)[OF reg] by (simp add: names_inv_def heap)
  moreover have "count_inv v"
  proof -
    have "unreaped v = insert ?s (unreaped w)" using x by (auto simp: unreaped_def ses)
    moreover have "?s \<notin> unreaped w" using new by (simp add: unreaped_def)
    ultimately show ?thesis
      using i(4)[OF reg] room finite_unreaped[OF i(4)[OF reg]] fut
      by (auto simp: count_inv_def heap ses)
  qed
  ultimately show ?thesis
    unfolding v_def[symmetric] using assms(1) x(4) by (auto simp: server_inv_def registry_inv_def ses)
qed

lemma server_inv_accept_any:
  assumes "server_inv w"
  shows "server_inv (accept_tcp now ep w)" "server_inv (accept_unix now w)"
  using assms server_inv_accept[OF assms]
  by (auto simp: accept_tcp_def accept_unix_def try_open_connection_def split: option.splits address.splits)

lemma server_inv_update:
  assumes "server_inv w" "w_sessions w s = Some x" "us_game (f x) = us_game x" "us_group (f x) = us_group x"
    "us_reaped (f x) = us_reaped x" "si_reader (f x) = si_reader x" "session_wf x \<Longrightarrow> session_wf (f x)"
  shows "server_inv (set_session s (f x) w)"
proof -
  have reg: "registry_inv w" and pc: "pc_wf x" using assms by (auto simp: server_inv_def)
  have "us_game (f x) = None \<or> alive (f x)" using pc assms(3,6) by (auto simp: pc_wf_def alive_def)
  then have "registry_inv (set_session s (f x) w)"
    using assms registry_inv_session[OF reg assms(2)] by (intro registry_inv_set_session[OF reg assms(2)]) simp_all
  moreover have "pc_wf (f x)" using pc assms by (simp add: pc_wf_def)
  ultimately show ?thesis using assms(1) by (simp add: server_inv_def)
qed

lemma map_of_mset_eq:
  assumes "mset xs = mset ys" "um_wf ys"
  shows "um_wf xs" "map_of xs = map_of ys"
proof -
  have "mset (map fst xs) = mset (map fst ys)" using assms(1) by (metis mset_map)
  then show wf: "um_wf xs" using assms(2) by (metis mset_eq_imp_distinct_iff)
  have "set xs = set ys" using assms(1) by (metis set_mset_mset)
  then show "map_of xs = map_of ys" using wf assms(2) by (metis map_of_inject_set)
qed

lemma server_inv_rehash:
  assumes inv: "server_inv w" and re: "rehashed w v"
  shows "server_inv v"
proof -
  obtain gs gh where v: "v = w\<lparr>w_games := gs, w_game_heap := gh\<rparr>" and gs: "mset gs = mset (w_games w)"
    and gh: "\<And>p. case w_game_heap w p of None \<Rightarrow> gh p = None
        | Some g \<Rightarrow> \<exists>ps. gh p = Some (g\<lparr>gm_groups := ps\<rparr>) \<and> mset ps = mset (gm_groups g)"
    using re by (auto simp: rehashed_def)
  have reg: "registry_inv w" using inv by (simp add: server_inv_def)
  note i = registry_invD[OF reg] and wf = links_invD[OF registry_invD(1)[OF reg]]
  note games = map_of_mset_eq[OF gs games_wfD(1)[OF wf(1)]]
  have old: "\<exists>g ps. w_game_heap w p = Some g \<and> g' = g\<lparr>gm_groups := ps\<rparr> \<and> um_wf ps
      \<and> map_of ps = map_of (gm_groups g)" if "gh p = Some g'" for p g'
  proof -
    note new = that
    obtain g ps where g: "w_game_heap w p = Some g" "g' = g\<lparr>gm_groups := ps\<rparr>" "mset ps = mset (gm_groups g)"
      using gh[of p] new by (auto split: option.splits)
    then show ?thesis using map_of_mset_eq[OF g(3) groups_wfD(1)[OF wf(2) g(1)]] by blast
  qed
  have none: "gh p = None \<longleftrightarrow> w_game_heap w p = None" for p
    using gh[of p] by (auto split: option.splits)
  have same: "gm_of v = gm_of w" "gr_of v = gr_of w" "session_at v = session_at w"
    by (auto intro!: links_of_sessions_cong simp: v)
  have "games_wf v"
    using wf(1) games none unfolding games_wf_def v by (auto dest: old)
  moreover have "groups_wf v"
    using wf(2) none unfolding groups_wf_def v by (auto dest!: old)
  moreover have "users_wf v"
    using wf(3) none unfolding users_wf_def same by (auto simp: v dest!: old)
  moreover have "players_wf v" using wf(4) unfolding players_wf_def same by (simp add: v)
  moreover have "fresh_wf v" using wf(5) none by (simp add: fresh_wf_def v)
  moreover have "live_wf v" using wf(6) by (simp add: live_wf_def same)
  ultimately have "links_inv v" by (simp add: links_inv_def)
  moreover have "names_inv v" using i(3) unfolding names_inv_def v by (auto dest!: old)
  moreover have "sess_inv v" "count_inv v"
    using i(2,4) by (simp_all add: v sess_inv_def count_inv_def unreaped_def)
  ultimately show ?thesis using inv by (simp add: server_inv_def registry_inv_def v)
qed

lemma server_inv_deliver: "server_inv w \<Longrightarrow> server_inv (deliver f w)"
  by (auto simp: server_inv_def deliver_sessions)

lemma server_inv_shutdown:
  assumes "server_inv w"
  shows "\<exists>v. broadcast_shutdown w = Some v \<and> server_inv v"
proof (cases "w_shutdown_broadcasted w")
  case True
  then show ?thesis using assms by (simp add: broadcast_shutdown_def)
next
  case False
  have links: "links_inv w" using assms by (simp add: server_inv_def registry_inv_def)
  have "server_inv (w\<lparr>w_shutdown_broadcasted := True\<rparr>)" using assms by (simp add: server_inv_def)
  then show ?thesis using broadcast_shutdown_eq[OF links False] server_inv_deliver by auto
qed

text \<open>An enabled action is defined and keeps the invariant.\<close>

lemma perform_safe:
  assumes inv: "server_inv (gs_world g)" and en: "enabled a g"
  shows "\<exists>g'. perform api a g = Some g' \<and> server_inv (gs_world g')"
proof -
  note is_def = enabled_def session_is_def
  have upd: "server_inv (gs_world (update_session s f g))"
    if "\<And>x. us_game (f x) = us_game x" "\<And>x. us_group (f x) = us_group x" "\<And>x. us_reaped (f x) = us_reaped x"
      "\<And>x. si_reader (f x) = si_reader x" "\<And>x. session_wf x \<Longrightarrow> session_wf (f x)" for s f
  proof (cases "w_sessions (gs_world g) s")
    case None
    then show ?thesis using inv by (simp add: update_session_def)
  next
    case (Some x)
    then show ?thesis using server_inv_update[OF inv Some, of f] that by (simp add: update_session_def)
  qed
  show ?thesis
  proof (cases a)
    case Tick
    then show ?thesis using inv by (simp add: perform_def)
  next
    case (Accept r)
    then show ?thesis using inv server_inv_accept_any[OF inv]
      by (cases r) (simp_all add: perform_def game_accept_def)
  next
    case (Reader_start s)
    then obtain x where x: "w_sessions (gs_world g) s = Some x" "si_reader x = Rd_start"
      using en by (auto simp: is_def split: option.splits)
    then have "session_at (gs_world g) s = Some x" by (simp add: session_at_def alive_def)
    then obtain v where "reader_head s (gs_world g) = Some v" "server_inv v"
      using reader_head_safe[OF inv] x by blast
    then show ?thesis using Reader_start by (simp add: perform_def)
  next
    case (Reader_read s ec b)
    then obtain x where "w_sessions (gs_world g) s = Some x" "si_reader x = Rd_read"
        "length b \<le> RX_SIZE - si_rxpos x"
      using en by (auto simp: is_def split: option.splits)
    then have "\<exists>v. reader_read api (gs_now g) ec b s (gs_world g) = Some v \<and> server_inv v"
      using inv by (intro reader_read_safe[of _ _ x]) (simp_all add: reading_def)
    then show ?thesis using Reader_read by (auto simp: perform_def)
  next
    case (Writer_resume s)
    then show ?thesis using upd[of writer_loop s] by (simp add: perform_def frame_simps)
  next
    case (Writer_written s ec)
    have "server_inv (gs_world (update_session s (writer_written ec) g))"
      by (rule upd) (simp_all add: writer_written_def writer_finish_def[of "session_close _"] frame_simps
        session_wf_writer(2)[unfolded writer_finish_def])
    then show ?thesis using Writer_written by (simp add: perform_def)
  next
    case (Watchdog_start s)
    then show ?thesis using upd[of watchdog_loop s] by (simp add: perform_def frame_simps)
  next
    case (Watchdog_wake s ab)
    then show ?thesis using upd[of "watchdog_wake ab (gs_now g)" s] by (simp add: perform_def frame_simps)
  next
    case Stop_signal
    then show ?thesis using server_inv_shutdown[OF inv] by (auto simp: perform_def on_stop_signal_def)
  next
    case Drained
    then show ?thesis using inv by (simp add: perform_def)
  next
    case (Rehash w)
    then show ?thesis using en server_inv_rehash[OF inv] by (simp add: perform_def is_def)
  next
    case (Db_changes h)
    then show ?thesis using inv by (simp add: perform_def server_inv_def)
  qed
qed

lemma reachable_inv: "reachable api h g \<Longrightarrow> server_inv (gs_world g)"
proof (induction rule: reachable.induct)
  case init
  then show ?case by (simp add: server_init_def server_inv_init)
next
  case (step g a g')
  then show ?case using perform_safe[of g a api] by auto
qed

end
