(* ===== verification/Lobby.thy ===== *)
theory Lobby
  imports Registry_Inv
begin

text \<open>
  What the registry promises, without pointers: a \<open>lobby\<close> says which game a session plays,
  which group it is in, and who is in a group in the order of joining.  \<open>lobby_of\<close> reads it off
  the pointer structure, and every registry operation refines the lobby operation of the same name.
\<close>

section \<open>The specification\<close>

record lobby =
  lb_game :: "sid \<Rightarrow> bytes option"
  lb_group :: "sid \<Rightarrow> bytes option"
  lb_players :: "bytes \<Rightarrow> bytes \<Rightarrow> sid list"

definition set_players :: "bytes \<Rightarrow> bytes \<Rightarrow> sid list \<Rightarrow> (bytes \<Rightarrow> bytes \<Rightarrow> sid list) \<Rightarrow> bytes \<Rightarrow> bytes \<Rightarrow> sid list" where
  "set_players c n ps f = f(c := (f c)(n := ps))"

definition lb_login :: "sid \<Rightarrow> bytes \<Rightarrow> lobby \<Rightarrow> lobby" where
  "lb_login s code l = l\<lparr>lb_game := (lb_game l)(s \<mapsto> code)\<rparr>"

definition lb_connect :: "sid \<Rightarrow> bytes \<Rightarrow> lobby \<Rightarrow> lobby" where
  "lb_connect s name l = (case lb_game l s of None \<Rightarrow> l | Some code \<Rightarrow>
     l\<lparr>lb_group := (lb_group l)(s \<mapsto> name),
       lb_players := set_players code name (lb_players l code name @ [s]) (lb_players l)\<rparr>)"

definition lb_leave :: "sid \<Rightarrow> lobby \<Rightarrow> lobby" where
  "lb_leave s l = (case lb_game l s of None \<Rightarrow> l | Some code \<Rightarrow>
     (case lb_group l s of None \<Rightarrow> l | Some name \<Rightarrow>
       l\<lparr>lb_group := (lb_group l)(s := None),
         lb_players := set_players code name (remove1 s (lb_players l code name)) (lb_players l)\<rparr>))"

definition lb_logout :: "sid \<Rightarrow> lobby \<Rightarrow> lobby" where
  "lb_logout s l = (let l = lb_leave s l in l\<lparr>lb_game := (lb_game l)(s := None)\<rparr>)"

definition lb_empty :: lobby where
  "lb_empty = \<lparr>lb_game = (\<lambda>_. None), lb_group = (\<lambda>_. None), lb_players = (\<lambda>_ _. [])\<rparr>"

section \<open>The abstraction\<close>

definition game_name :: "'db world \<Rightarrow> sid \<Rightarrow> bytes option" where
  "game_name w s = (case gm_of w s of None \<Rightarrow> None | Some p \<Rightarrow> map_option gm_code_str (w_game_heap w p))"

definition group_name :: "'db world \<Rightarrow> sid \<Rightarrow> bytes option" where
  "group_name w s = (case gr_of w s of None \<Rightarrow> None | Some q \<Rightarrow> map_option gn_name (w_group_heap w q))"

definition players_in :: "'db world \<Rightarrow> bytes \<Rightarrow> bytes \<Rightarrow> sid list" where
  "players_in w code name = (case map_of (w_games w) code of None \<Rightarrow> [] | Some p \<Rightarrow> members_of w p name)"

definition lobby_of :: "'db world \<Rightarrow> lobby" where
  "lobby_of w = \<lparr>lb_game = game_name w, lb_group = group_name w, lb_players = players_in w\<rparr>"

lemma lobby_of_init: "lobby_of (registry_init h) = lb_empty"
  by (simp add: lobby_of_def lb_empty_def game_name_def group_name_def players_in_def registry_init_def
      gm_of_def gr_of_def fun_eq_iff)

lemma members_of_deliver [simp]: "members_of (deliver f w) = members_of w"
  by (auto simp: members_of_def fun_eq_iff split: option.splits)

lemma lobby_of_deliver [simp]: "lobby_of (deliver f w) = lobby_of w"
  by (auto simp: lobby_of_def game_name_def group_name_def players_in_def fun_eq_iff split: option.splits)

text \<open>The reading of a group in terms of the pointers, on a state without dangling ones.\<close>

lemma players_in_group:
  assumes inv: "links_inv w" and q: "w_group_heap w q = Some gr" and p: "w_game_heap w (gn_game gr) = Some g"
  shows "players_in w (gm_code_str g) (gn_name gr) = gn_players gr"
proof -
  note wf = links_invD[OF inv]
  have "map_of (w_games w) (gm_code_str g) = Some (gn_game gr)" using games_wfD(3)[OF wf(1) p] by simp
  moreover have "map_of (gm_groups g) (gn_name gr) = Some q" using groups_wfD(4)[OF wf(2) p q] by simp
  ultimately show ?thesis using p q by (simp add: players_in_def members_of_def)
qed

lemma members_of_game:
  assumes inv: "links_inv w" and p: "w_game_heap w p = Some g"
  shows "players_in w (gm_code_str g) n = members_of w p n"
  using games_wfD(3)[OF links_invD(1)[OF inv] p, of "gm_code_str g"] by (simp add: players_in_def)

text \<open>A group's players are the sessions whose game and group it is.\<close>

lemma players_in_iff:
  assumes inv: "links_inv w"
  shows "s \<in> set (players_in w c n) \<longleftrightarrow> game_name w s = Some c \<and> group_name w s = Some n"
proof
  note wf = links_invD[OF inv]
  assume "s \<in> set (players_in w c n)"
  then obtain p where p: "map_of (w_games w) c = Some p" "s \<in> set (members_of w p n)"
    by (cases "map_of (w_games w) c") (auto simp: players_in_def)
  obtain g where g: "w_game_heap w p = Some g" "gm_code_str g = c" by (rule game_lookup[OF inv p(1)])
  obtain q gr where q: "map_of (gm_groups g) n = Some q" "w_group_heap w q = Some gr" "s \<in> set (gn_players gr)"
    using p(2) g by (cases "map_of (gm_groups g) n"; cases "w_group_heap w (the (map_of (gm_groups g) n))")
      (auto simp: members_of_def)
  have "gn_name gr = n" "gn_game gr = p" using groups_wfD(4)[OF wf(2) g(1) q(2)] q(1) by auto
  then show "game_name w s = Some c \<and> group_name w s = Some n"
    using player_alive[OF inv q(2,3)] g q by (simp add: game_name_def group_name_def)
next
  assume a: "game_name w s = Some c \<and> group_name w s = Some n"
  then obtain q gr where q: "gr_of w s = Some q" "w_group_heap w q = Some gr" "gn_name gr = n"
    by (auto simp: group_name_def split: option.splits)
  obtain gr' where "w_group_heap w q = Some gr'" "gm_of w s = Some (gn_game gr')" "s \<in> set (gn_players gr')"
    by (rule player_group[OF inv q(1)])
  moreover from this obtain g where "w_game_heap w (gn_game gr') = Some g" "gm_code_str g = c"
    using a by (auto simp: game_name_def)
  ultimately show "s \<in> set (players_in w c n)"
    using players_in_group[OF inv q(2)] q by simp
qed

lemma players_in_distinct:
  assumes inv: "links_inv w"
  shows "distinct (players_in w c n)"
proof -
  have "distinct (gn_players gr)" if "w_group_heap w q = Some gr" for q gr
    using players_wfD(2)[OF links_invD(4)[OF inv] that] .
  then show ?thesis by (auto simp: players_in_def members_of_def split: option.splits)
qed

section \<open>Refinement\<close>

lemma lobby_eqI:
  "game_name w = lb_game l \<Longrightarrow> group_name w = lb_group l \<Longrightarrow> players_in w = lb_players l \<Longrightarrow> lobby_of w = l"
  by (simp add: lobby_of_def)

lemma lobby_sel [simp]:
  "lb_game (lobby_of w) = game_name w" "lb_group (lobby_of w) = group_name w"
  "lb_players (lobby_of w) = players_in w"
  by (simp_all add: lobby_of_def)

lemma lobby_ofD: "lobby_of w = l \<Longrightarrow> game_name w = lb_game l \<and> group_name w = lb_group l \<and> players_in w = lb_players l"
  by (auto simp: lobby_of_def)

lemma game_name_cong:
  "gm_of w' = gm_of w \<Longrightarrow> (\<And>p. map_option gm_code_str (w_game_heap w' p) = map_option gm_code_str (w_game_heap w p))
   \<Longrightarrow> game_name w' = game_name w"
  by (auto simp: game_name_def fun_eq_iff split: option.splits)

lemma lobby_login:
  assumes inv: "links_inv w" and x: "session_at w s = Some x" and out: "us_game x = None"
  shows "lobby_of (login_world s pkt code w) = lb_login s (product_code_str code) (lobby_of w)"
proof -
  note wf = links_invD[OF inv] and sx = links_session[OF x]
  let ?w = "login_world s pkt code w" and ?key = "product_code_str code"
  have gm: "gm_of w s = None" using sx out by simp
  have new: "w_game_heap w (w_next_node w) = None" using wf(5) by (simp add: fresh_wf_def)
  have old: "gm_of w t \<noteq> Some (w_next_node w)" for t
    using users_wf_game[OF wf(3)] new by fastforce
  have grw: "gr_of ?w = gr_of w" by (rule login_world_gr) (use sx in simp)
  have group: "group_name ?w = group_name w"
    by (auto simp: group_name_def fun_eq_iff grw split: option.splits)
  show ?thesis
  proof (cases "map_of (w_games w) ?key")
    case (Some p)
    obtain g where g: "w_game_heap w p = Some g" "gm_code_str g = ?key" by (rule game_lookup[OF inv Some])
    have unf: "?w = set_game p (g\<lparr>gm_users := gm_users g @ [s]\<rparr>)
        (set_session s (x\<lparr>us_mac := lp_mac pkt, us_name := lp_name pkt, us_game := Some p\<rparr>) w)"
      using Some g sx by (simp add: login_world_def Let_def)
    have "game_name ?w = (game_name w)(s \<mapsto> ?key)"
      using g by (auto simp: unf game_name_def fun_eq_iff split: option.splits)
    moreover have "players_in ?w = players_in w"
      using g by (auto simp: unf players_in_def members_of_def fun_eq_iff split: option.splits)
    ultimately show ?thesis using group by (auto intro!: lobby_eqI simp: lb_login_def)
  next
    case None
    let ?p = "w_next_node w"
    have unf: "?w = (set_game ?p \<lparr>gm_code = code, gm_code_str = ?key, gm_groups = [], gm_users = [s]\<rparr>
        (set_session s (x\<lparr>us_mac := lp_mac pkt, us_name := lp_name pkt, us_game := Some ?p\<rparr>) w))
        \<lparr>w_games := w_games w @ [(?key, ?p)], w_next_node := Suc ?p\<rparr>"
      using None sx by (simp add: login_world_def Let_def)
    have "game_name ?w = (game_name w)(s \<mapsto> ?key)"
      using new old by (auto simp: unf game_name_def fun_eq_iff split: option.splits)
    moreover have "players_in ?w c n = players_in w c n" for c n
    proof (cases "c = ?key")
      case True
      then show ?thesis using None by (simp add: unf players_in_def map_of_snoc members_of_def del: map_of_append)
    next
      case False
      have "map_of (w_games w) c = Some p \<Longrightarrow> p \<noteq> ?p" for p
        using games_wfD(2)[OF wf(1)] new by fastforce
      then show ?thesis using False None
        by (auto simp: unf players_in_def map_of_snoc members_of_def simp del: map_of_append split: option.splits)
    qed
    ultimately show ?thesis using group by (auto intro!: lobby_eqI simp: lb_login_def fun_eq_iff)
  qed
qed

lemma lobby_join:
  assumes inv: "links_inv w" and x: "session_at w s = Some x" and p: "us_game x = Some p"
    and out: "us_group x = None"
  shows "lobby_of (join_world s p key w) = lb_connect s key (lobby_of w)"
proof -
  note wf = links_invD[OF inv] and sx = links_session[OF x]
  let ?w = "join_world s p key w"
  have gm: "gm_of w s = Some p" using sx p by simp
  obtain g where g: "w_game_heap w p = Some g" using users_wf_game[OF wf(3) gm] by blast
  have name: "game_name w s = Some (gm_code_str g)" using gm g by (simp add: game_name_def)
  have only: "map_of (w_games w) c = Some p \<longleftrightarrow> c = gm_code_str g" for c
    using games_wfD(3)[OF wf(1) g, of c] by auto
  have new: "w_group_heap w (w_next_node w) = None" using wf(5) by (simp add: fresh_wf_def)
  have gmw: "gm_of ?w = gm_of w" by (rule join_world_gm) (use sx in simp)
  show ?thesis
  proof (cases "map_of (gm_groups g) key")
    case (Some q)
    obtain gr where q: "w_group_heap w q = Some gr" "gn_name gr = key" "gn_game gr = p"
      using groups_wfD(2)[OF wf(2) g Some] by blast
    have unf: "?w = set_group q (gr\<lparr>gn_players := gn_players gr @ [s]\<rparr>)
        (set_session s (x\<lparr>us_group := Some q\<rparr>) w)"
      using g Some q sx by (simp add: join_world_def Let_def)
    have "game_name ?w = game_name w" by (rule game_name_cong[OF gmw]) (simp add: unf)
    moreover have "group_name ?w = (group_name w)(s \<mapsto> key)"
      using q by (auto simp: unf group_name_def fun_eq_iff split: option.splits)
    moreover have "players_in ?w c n = (if c = gm_code_str g \<and> n = key then players_in w c n @ [s]
        else players_in w c n)" for c n
    proof (cases "map_of (w_games w) c")
      case None
      then have "c \<noteq> gm_code_str g" using only[of c] by auto
      then show ?thesis using None by (simp add: unf players_in_def)
    next
      case p': (Some p')
      obtain g' where g': "w_game_heap w p' = Some g'" "gm_code_str g' = c" by (rule game_lookup[OF inv p'])
      have "map_of (gm_groups g') n = Some q \<longleftrightarrow> c = gm_code_str g \<and> n = key"
        using groups_wfD(4)[OF wf(2) g'(1) q(1), of n] only[of c] p' q by auto
      then show ?thesis
        using p' g' q by (cases "map_of (gm_groups g') n = Some q")
          (auto simp: unf players_in_def members_of_def split: option.splits)
    qed
    ultimately show ?thesis
      using name by (auto intro!: lobby_eqI simp: lb_connect_def set_players_def fun_eq_iff)
  next
    case None
    let ?q = "w_next_node w"
    have unf: "?w = (set_group ?q \<lparr>gn_name = key, gn_game = p, gn_players = [s]\<rparr>
        (set_game p (g\<lparr>gm_groups := gm_groups g @ [(key, ?q)]\<rparr>)
          (set_session s (x\<lparr>us_group := Some ?q\<rparr>) w)))\<lparr>w_next_node := Suc ?q\<rparr>"
      using g None sx by (simp add: join_world_def Let_def)
    have old: "gr_of w t \<noteq> Some ?q" for t using players_wf_group[OF wf(4)] new by fastforce
    have "game_name ?w = game_name w" by (rule game_name_cong[OF gmw]) (use g in \<open>simp add: unf\<close>)
    moreover have "group_name ?w = (group_name w)(s \<mapsto> key)"
      using new old by (auto simp: unf group_name_def fun_eq_iff split: option.splits)
    moreover have "players_in ?w c n = (if c = gm_code_str g \<and> n = key then players_in w c n @ [s]
        else players_in w c n)" for c n
    proof -
      have fresh: "w_game_heap w p' = Some g' \<Longrightarrow> map_of (gm_groups g') n' \<noteq> Some ?q" for p' g' n'
        using groups_wfD(2)[OF wf(2)] new by fastforce
      show ?thesis
      proof (cases "c = gm_code_str g")
        case True
        then have "map_of (w_games w) c = Some p" using only by simp
        then show ?thesis using True g None fresh
          by (auto simp: unf players_in_def members_of_def map_of_snoc simp del: map_of_append split: option.splits)
      next
        case False
        then have "map_of (w_games w) c \<noteq> Some p" using only by simp
        then show ?thesis using False g fresh
          by (auto simp: unf players_in_def members_of_def split: option.splits)
      qed
    qed
    ultimately show ?thesis
      using name by (auto intro!: lobby_eqI simp: lb_connect_def set_players_def fun_eq_iff)
  qed
qed

lemma lobby_leave:
  assumes inv: "links_inv w" and q: "gr_of w s = Some q"
  shows "lobby_of (leave_links s q w) = lb_leave s (lobby_of w)"
proof -
  obtain gr g x where f: "w_group_heap w q = Some gr" "w_game_heap w (gn_game gr) = Some g"
    "map_of (gm_groups g) (gn_name gr) = Some q" "session_at w s = Some x" "w_sessions w s = Some x"
    "alive x" "us_group x = Some q" "us_game x = Some (gn_game gr)" "s \<in> set (gn_players gr)"
    "distinct (gn_players gr)"
    by (rule leave_facts[OF assms])
  note wf = links_invD[OF inv]
  let ?w = "leave_links s q w" and ?ps = "remove1 s (gn_players gr)"
  let ?code = "gm_code_str g" and ?name = "gn_name gr"
  have gm: "gm_of w s = Some (gn_game gr)" using f by (simp add: gm_of_def)
  have names: "game_name w s = Some ?code" "group_name w s = Some ?name"
    using gm q f by (simp_all add: game_name_def group_name_def)
  have here: "players_in w ?code ?name = gn_players gr" using players_in_group[OF inv f(1,2)] .
  have unf: "?w = (if ?ps \<noteq> []
      then set_group q (gr\<lparr>gn_players := ?ps\<rparr>) (set_session s (x\<lparr>us_group := None\<rparr>) w)
      else (set_game (gn_game gr) (g\<lparr>gm_groups := um_erase ?name (gm_groups g)\<rparr>)
         (set_session s (x\<lparr>us_group := None\<rparr>) w))\<lparr>w_group_heap := (w_group_heap w)(q := None)\<rparr>)"
    using f by (simp add: leave_links_def Let_def)
  have others: "gr_of w t = Some q \<Longrightarrow> t \<in> set (gn_players gr)" for t
    using players_wfD(3)[OF wf(4) f(1)] by blast
  have alone: "?ps = [] \<Longrightarrow> gr_of w t = Some q \<Longrightarrow> t = s" for t
    using others[of t] by (auto simp: remove1_Nil_iff)
  have gmw: "gm_of ?w = gm_of w" by (rule leave_links_gm[OF f(5)])
  have "game_name ?w = game_name w"
    using f by (intro game_name_cong[OF gmw]) (auto simp: unf)
  moreover have "group_name ?w = (group_name w)(s := None)"
    using f by (auto simp: unf group_name_def fun_eq_iff split: option.splits dest: alone)
  moreover have "players_in ?w c n = (if c = ?code \<and> n = ?name then ?ps else players_in w c n)" for c n
  proof (cases "map_of (w_games w) c")
    case None
    then have "c \<noteq> ?code" using games_wfD(3)[OF wf(1) f(2), of ?code] by auto
    then show ?thesis using None by (simp add: unf players_in_def)
  next
    case p': (Some p')
    obtain g' where g': "w_game_heap w p' = Some g'" "gm_code_str g' = c" by (rule game_lookup[OF inv p'])
    have key: "map_of (gm_groups g') n = Some q \<longleftrightarrow> c = ?code \<and> n = ?name"
      using groups_wfD(4)[OF wf(2) g'(1) f(1), of n] games_wfD(3)[OF wf(1) f(2), of c] p' g' f by auto
    have heap: "w_game_heap ?w p' = Some (if p' = gn_game gr \<and> ?ps = []
        then g\<lparr>gm_groups := um_erase ?name (gm_groups g)\<rparr> else g')"
      using g' f by (auto simp: unf)
    have same: "p' = gn_game gr \<longleftrightarrow> c = ?code" "p' = gn_game gr \<Longrightarrow> g' = g"
      using games_wfD(3)[OF wf(1) f(2), of c] p' g' f by auto
    show ?thesis
    proof (cases "map_of (gm_groups g') n = Some q")
      case True
      then have cn: "c = ?code" "n = ?name" using key by auto
      then have "players_in ?w c n = ?ps"
        using p' heap same f True by (auto simp: players_in_def members_of_def map_of_um_erase unf)
      then show ?thesis using cn by simp
    next
      case False
      have "map_of (gm_groups (the (w_game_heap ?w p'))) n = map_of (gm_groups g') n"
        using heap same False f key by (auto simp: map_of_um_erase)
      then have "members_of ?w p' n = members_of w p' n"
        using heap g' False by (auto simp: members_of_def unf split: option.splits if_splits)
      then show ?thesis using False key p' by (auto simp: players_in_def unf)
    qed
  qed
  ultimately show ?thesis
    using names here by (auto intro!: lobby_eqI simp: lb_leave_def set_players_def fun_eq_iff)
qed

lemma lobby_leave_game:
  assumes inv: "links_inv w" and p: "gm_of w s = Some p" and nogroup: "gr_of w s = None"
  shows "lobby_of (leave_game s p w) = (lobby_of w)\<lparr>lb_game := (game_name w)(s := None)\<rparr>"
proof -
  note wf = links_invD[OF inv]
  obtain x g where x: "session_at w s = Some x" "us_game x = Some p" "w_sessions w s = Some x"
    "alive x" and g: "w_game_heap w p = Some g" "s \<in> set (gm_users g)"
    by (rule user_alive[OF inv p])
  let ?w = "leave_game s p w" and ?us = "remove1 s (gm_users g)"
  have unf: "?w = (if ?us \<noteq> []
      then set_game p (g\<lparr>gm_users := ?us\<rparr>) (set_session s (x\<lparr>us_game := None\<rparr>) w)
      else (set_session s (x\<lparr>us_game := None\<rparr>) w)\<lparr>w_games := um_erase (gm_code_str g) (w_games w),
                 w_game_heap := (w_game_heap w)(p := None)\<rparr>)"
    using x g by (simp add: leave_game_def Let_def)
  have alone: "?us = [] \<Longrightarrow> gm_of w t = Some p \<Longrightarrow> t = s" for t
    using users_wfD(3)[OF wf(3) g(1), of t] by (auto simp: remove1_Nil_iff)
  have gr: "gr_of ?w = gr_of w" using x by simp
  have "game_name ?w = (game_name w)(s := None)"
    using g by (auto simp: unf game_name_def fun_eq_iff split: option.splits dest: alone)
  moreover have "group_name ?w = group_name w"
    using gr by (auto simp: group_name_def fun_eq_iff leave_game_def Let_def split: option.splits)
  moreover have "players_in ?w c n = players_in w c n" for c n
  proof (cases "map_of (w_games w) c")
    case None
    then show ?thesis by (simp add: unf players_in_def map_of_um_erase)
  next
    case p': (Some p')
    have same: "c = gm_code_str g \<longleftrightarrow> p' = p" using games_wfD(3)[OF wf(1) g(1), of c] p' by auto
    show ?thesis
    proof (cases "p' = p \<and> ?us = []")
      case True
      have "\<not> (\<exists>t. t \<in> set (players_in w c n))"
      proof
        assume "\<exists>t. t \<in> set (players_in w c n)"
        then obtain t where "game_name w t = Some c" "group_name w t = Some n"
          using players_in_iff[OF inv] by blast
        then obtain p2 g2 q where t: "gm_of w t = Some p2" "w_game_heap w p2 = Some g2" "gm_code_str g2 = c"
            "gr_of w t = Some q"
          by (auto simp: game_name_def group_name_def split: option.splits)
        have "p2 = p" using games_wfD(3)[OF wf(1) t(2), of c] t(3) p' True by simp
        then show False using alone t True nogroup by auto
      qed
      then have "players_in w c n = []" by (cases "players_in w c n") auto
      then show ?thesis using True same by (simp add: unf players_in_def map_of_um_erase)
    next
      case False
      have "members_of ?w p' n = members_of w p' n"
        using False g by (auto simp: members_of_def unf split: option.splits)
      then show ?thesis using False p' same by (auto simp: players_in_def unf map_of_um_erase)
    qed
  qed
  ultimately show ?thesis by (intro lobby_eqI) (simp_all add: fun_eq_iff)
qed

lemma lobby_flags [simp]:
  "lobby_of (w\<lparr>w_connection_count := n\<rparr>) = lobby_of w" "lobby_of (w\<lparr>w_db := h\<rparr>) = lobby_of w"
  "lobby_of (w\<lparr>w_shutdown_broadcasted := b\<rparr>) = lobby_of w"
  by (auto simp: lobby_of_def game_name_def group_name_def players_in_def members_of_def fun_eq_iff
      split: option.splits)

lemma lobby_same_links:
  assumes "gm_of v = gm_of w" "gr_of v = gr_of w" "w_games v = w_games w" "w_game_heap v = w_game_heap w"
    "w_group_heap v = w_group_heap w"
  shows "lobby_of v = lobby_of w"
  using assms by (auto simp: lobby_of_def game_name_def fun_eq_iff group_name_def
      players_in_def members_of_def split: option.splits)

lemma game_name_None: "links_inv w \<Longrightarrow> game_name w s = None \<longleftrightarrow> gm_of w s = None"
  using users_wf_game[OF links_invD(3)] by (fastforce simp: game_name_def split: option.splits)

lemma group_name_None: "links_inv w \<Longrightarrow> group_name w s = None \<longleftrightarrow> gr_of w s = None"
  using players_wf_group[OF links_invD(4)] by (fastforce simp: group_name_def split: option.splits)

lemma lobby_close:
  assumes inv: "links_inv w" and x: "session_at w s = Some x"
  shows "lobby_of (closed_world s w) = lb_logout s (lobby_of w)"
proof -
  let ?w1 = "set_session s (x\<lparr>us_reaped := True\<rparr>) w"
  let ?w2 = "case us_group x of None \<Rightarrow> ?w1 | Some q \<Rightarrow> leave_links s q ?w1"
  let ?w3 = "case us_game x of None \<Rightarrow> ?w2 | Some p \<Rightarrow> leave_game s p ?w2"
  note sx = links_session[OF x]
  have r: "w_sessions w s = Some x" "alive x" using sx by simp_all
  note w1 = reaped_inv[OF inv r]
  have l1: "lobby_of ?w1 = lobby_of w" using w1 by (intro lobby_same_links) simp_all
  have l2: "lobby_of ?w2 = lb_leave s (lobby_of w)"
  proof (cases "us_group x")
    case None
    then have "group_name w s = None" using sx group_name_None[OF inv] by simp
    then show ?thesis using None l1 by (simp add: lb_leave_def split: option.splits)
  next
    case (Some q)
    then show ?thesis using w1 sx lobby_leave[OF w1(1), of s q] l1 by simp
  qed
  have w2: "links_inv ?w2" "gm_of ?w2 = gm_of w" "gr_of ?w2 s = None"
    using w1 sx leave_links_inv[OF w1(1)] by (auto split: option.splits)
  have "lobby_of ?w3 = (lobby_of ?w2)\<lparr>lb_game := (game_name ?w2)(s := None)\<rparr>"
  proof (cases "us_game x")
    case None
    then have "game_name ?w2 s = None" using w2 sx game_name_None[OF w2(1)] by simp
    then have "(game_name ?w2)(s := None) = game_name ?w2" by (simp add: fun_eq_iff)
    then show ?thesis using None by (simp add: lobby_of_def)
  next
    case (Some p)
    then show ?thesis using lobby_leave_game[OF w2(1) _ w2(3), of p] w2(2) sx by simp
  qed
  moreover have "closed_world s w = ?w3\<lparr>w_connection_count := w_connection_count w - 1\<rparr>"
    using r by (simp add: closed_world_def Let_def)
  moreover have "game_name ?w2 = lb_game (lb_leave s (lobby_of w))" using l2 by (metis lobby_sel(1))
  ultimately show ?thesis using l2 by (simp add: lb_logout_def Let_def)
qed

end
