(* ===== verification/Example.thy ===== *)
theory Example
  imports Game_Server Lobby
begin

text \<open>
  A concrete state for the witnesses: three logged-in sessions of one game, of which session 0 and
  session 1 share the group \<open>A\<close> that session 0 founded, and session 2 is in no group.  Session 3 has
  connected and not logged in.
\<close>

definition ex_mac :: "byte \<Rightarrow> bytes" where
  "ex_mac k = [2, 0, 0, 0, 0, k]"

definition ex_name :: "byte \<Rightarrow> bytes" where
  "ex_name k = k # replicate 127 0"

definition ex_code :: bytes where
  "ex_code = ascii ''ULUS10000''"

definition ex_session :: "byte \<Rightarrow> game_ptr option \<Rightarrow> group_ptr option \<Rightarrow> session_impl" where
  "ex_session k p q = (session_start 0 (new_session (ucast k) (ascii ''unix'')))
     \<lparr>us_mac := ex_mac k, us_name := ex_name (65 + k), us_game := p, us_group := q, si_reader := Rd_read\<rparr>"

definition ex_world :: "tables world" where
  "ex_world = \<lparr>w_sessions = [0 \<mapsto> ex_session 0 (Some 0) (Some 1), 1 \<mapsto> ex_session 1 (Some 0) (Some 1),
       2 \<mapsto> ex_session 2 (Some 0) None, 3 \<mapsto> ex_session 3 None None],
     w_game_heap = [0 \<mapsto> \<lparr>gm_code = ex_code, gm_code_str = ex_code, gm_groups = [([65], 1)], gm_users = [0, 1, 2]\<rparr>],
     w_group_heap = [1 \<mapsto> \<lparr>gn_name = [65], gn_game = 0, gn_players = [0, 1]\<rparr>],
     w_games = [(ex_code, 0)], w_connection_count = 4, w_shutdown_broadcasted = False,
     w_db = Some \<lparr>tb_productids = [(ex_code, ascii ''Game'')], tb_crosslinks = []\<rparr>,
     w_next_node = 2, w_next_sid = 4\<rparr>"

lemma ex_session_fields [simp]:
  "us_game (ex_session k p q) = p" "us_group (ex_session k p q) = q" "us_reaped (ex_session k p q) = False"
  "si_reader (ex_session k p q) = Rd_read" "si_rxpos (ex_session k p q) = 0"
  "si_rx (ex_session k p q) = replicate 1024 0" "us_mac (ex_session k p q) = ex_mac k"
  "us_name (ex_session k p q) = ex_name (65 + k)" "si_closed (ex_session k p q) = False"
  "si_write_queue (ex_session k p q) = []" "us_ip_be (ex_session k p q) = ucast k"
  "alive (ex_session k p q)" "si_writer (ex_session k p q) = Wr_start"
  "si_watchdog (ex_session k p q) = Wd_start" "si_expiry (ex_session k p q) = 15"
  by (simp_all add: ex_session_def session_start_def new_session_def timer_expires_after_def alive_def)

lemma ex_wf: "session_wf (ex_session k p q)" "pc_wf (ex_session k p q)"
  by (simp_all add: session_wf_def rx_wf_def so.awake_inv_def pc_wf_def ex_mac_def ex_name_def)

lemma ex_links:
  "gm_of ex_world s = (if s \<le> 2 then Some 0 else None)" "gr_of ex_world s = (if s \<le> 1 then Some 1 else None)"
  "session_at ex_world s = w_sessions ex_world s"
proof -
  have "s \<le> 2 \<longleftrightarrow> s = 0 \<or> s = 1 \<or> s = 2" "s \<le> 1 \<longleftrightarrow> s = 0 \<or> s = 1" by auto
  then show "gm_of ex_world s = (if s \<le> 2 then Some 0 else None)" "gr_of ex_world s = (if s \<le> 1 then Some 1 else None)"
    "session_at ex_world s = w_sessions ex_world s"
    by (auto simp: gm_of_def gr_of_def session_at_def ex_world_def)
qed

lemma ex_code_facts: "length ex_code = 9" "product_code_str ex_code = ex_code"
  by (simp_all add: ex_code_def product_code_str_eq)

lemma ex_server_inv: "server_inv ex_world"
proof -
  have two: "s \<le> 2 \<longleftrightarrow> s = 0 \<or> s = 1 \<or> s = 2" "s \<le> 1 \<longleftrightarrow> s = 0 \<or> s = 1" for s :: nat by auto
  have "links_inv ex_world"
    unfolding links_inv_def links_defs ex_links two by (auto simp: ex_world_def split: if_splits)
  moreover have "sess_inv ex_world" by (auto simp: sess_inv_def ex_world_def ex_wf split: if_splits)
  moreover have "names_inv ex_world"
    by (auto simp: names_inv_def ex_world_def group_name_ok_def is_upper_def game_code_ok_def ex_code_facts split: if_splits)
  moreover have "unreaped ex_world = {0, 1, 2, 3}"
    by (auto simp: unreaped_def ex_world_def split: if_splits)
  then have "count_inv ex_world" by (simp add: count_inv_def) (simp add: ex_world_def)
  ultimately show ?thesis
    by (auto simp: server_inv_def registry_inv_def) (auto simp: ex_world_def ex_wf split: if_splits)
qed

lemma ex_sessions:
  "session_at ex_world 0 = Some (ex_session 0 (Some 0) (Some 1))"
  "session_at ex_world 1 = Some (ex_session 1 (Some 0) (Some 1))"
  "session_at ex_world 2 = Some (ex_session 2 (Some 0) None)"
  "session_at ex_world 3 = Some (ex_session 3 None None)"
  unfolding ex_links by (simp_all add: ex_world_def)

lemma ex_names:
  "game_name ex_world 0 = Some ex_code" "game_name ex_world 2 = Some ex_code" "group_name ex_world 0 = Some [65]"
  "group_name ex_world 2 = None" "players_in ex_world ex_code [65] = [0, 1]"
  unfolding game_name_def group_name_def ex_links
  by (simp_all add: ex_world_def players_in_def members_of_def)

lemma ex_group_1: "group_name ex_world (Suc 0) = Some [65]"
  unfolding group_name_def ex_links by (simp add: ex_world_def)

lemma ex_group_name: "group_name_str (65 # replicate 7 0) = [65]" "valid_group_name (65 # replicate 7 0)"
proof -
  show 1: "group_name_str (65 # replicate 7 0) = [65]" by (simp add: group_name_str_eq)
  show "valid_group_name (65 # replicate 7 0)"
    using valid_group_name_iff[of "65 # replicate 7 0"] by (simp add: 1 is_upper_def)
qed

text \<open>A valid login packet.\<close>

definition ex_login :: login_packet_c2s where
  "ex_login = \<lparr>lp_opcode = 1, lp_mac = ex_mac 9, lp_name = ex_name 90, lp_game = ex_code\<rparr>"

lemma replicate_6: "replicate 6 v = [v, v, v, v, v, v]"
  by (simp add: eval_nat_numeral)

lemma ex_login_valid: "valid_login_packet ex_login" "wf_login ex_login"
proof -
  have "valid_product_code ex_code"
    using valid_product_code_iff[OF ex_code_facts(1)] by (simp add: ex_code_def is_upper_def is_digit_def)
  then show "valid_login_packet ex_login"
    by (simp add: valid_login_packet_def ex_login_def ex_mac_def ex_name_def replicate_6)
  show "wf_login ex_login" by (simp add: wf_login_def ex_login_def ex_mac_def ex_name_def ex_code_facts)
qed

text \<open>The server after its first connection, over a UNIX socket and without a database.\<close>

definition ex_server :: "tables server" where
  "ex_server = game_accept Acc_unix (server_init None)"

lemma ex_server_reachable: "reachable table_api None ex_server"
  by (rule reachable.step[OF reachable.init, of "Accept Acc_unix"])
    (simp_all add: enabled_def server_init_def perform_def ex_server_def)

lemma ex_server_session: "w_sessions (gs_world ex_server) 0 = Some (session_start 0 (new_session 0 (ascii ''unix'')))"
  by (simp add: ex_server_def server_init_def game_accept_def accept_unix_def try_open_connection_def
      registry_init_def open_session_def set_session_def)

lemma ex_server_fields: "gs_running ex_server" "gs_now ex_server = 0"
  by (simp_all add: ex_server_def game_accept_def server_init_def)

end
