(* ===== verification/Registry_Contract.thy ===== *)
theory Registry_Contract
  imports Example
begin

text \<open>
  The contract of the registry's handlers as the rest of the server sees it: the lobby afterwards and
  what every session's write queue gained.
\<close>

section \<open>What was sent\<close>

text \<open>
  \<open>sent w w' f\<close>: from \<open>w\<close> to \<open>w'\<close> the queue of each live session \<open>t\<close> gained
  exactly \<open>f t\<close>, or nothing if it was closed.
\<close>

definition sent :: "'db world \<Rightarrow> 'db world \<Rightarrow> (sid \<Rightarrow> bytes list) \<Rightarrow> bool" where
  "sent w w' f \<longleftrightarrow> (\<forall>t y. session_at w t = Some y \<longrightarrow> (\<exists>y'. session_at w' t = Some y' \<and>
     si_write_queue y' = si_write_queue y @ (if si_closed y then [] else f t)))"

lemma send_all_closed: "si_closed x \<Longrightarrow> send_all bs x = x"
  by (induction bs) (simp_all add: send_bytes_def)

lemma sentI:
  assumes "\<And>t y. session_at w t = Some y \<Longrightarrow>
      \<exists>y'. session_at v t = Some y' \<and> si_write_queue y' = si_write_queue y \<and> si_closed y' = si_closed y"
    and "\<And>t. [] \<notin> set (f t)"
  shows "sent w (deliver f v) f"
  unfolding sent_def
proof (intro allI impI)
  fix t y assume "session_at w t = Some y"
  then obtain y' where y': "session_at v t = Some y'" "si_write_queue y' = si_write_queue y"
    "si_closed y' = si_closed y" using assms(1) by blast
  then show "\<exists>y'. session_at (deliver f v) t = Some y' \<and>
      si_write_queue y' = si_write_queue y @ (if si_closed y then [] else f t)"
    using send_all_queue[of y' "f t"] assms(2)[of t] by (cases "si_closed y") (auto simp: send_all_closed)
qed

lemma sent_deliver: "(\<And>t. [] \<notin> set (f t)) \<Longrightarrow> sent w (deliver f w) f"
  by (rule sentI) auto

text \<open>An update of one session that keeps it alive and its queue as it is.\<close>

lemma sent_update:
  assumes "w_sessions v = (w_sessions w)(s \<mapsto> y)" "session_at w s = Some x" "alive y"
    "si_write_queue y = si_write_queue x" "si_closed y = si_closed x" "\<And>t. [] \<notin> set (f t)"
  shows "sent w (deliver f v) f"
  using assms by (intro sentI) (auto simp: session_at_def split: option.splits if_splits)

lemma notices_nonempty [simp]:
  "connect_notice x \<noteq> []" "bssid_notice m \<noteq> []" "disconnect_notice ip \<noteq> []" "scan_notice n m \<noteq> []"
  "chat_notice msg nick \<noteq> []" "shutdown_notice \<noteq> []"
  by (simp_all add: connect_notice_def connect_s2c_bytes_def bssid_notice_def connect_bssid_s2c_bytes_def
      disconnect_notice_def disconnect_s2c_bytes_def scan_notice_def scan_s2c_bytes_def chat_notice_def
      chat_s2c_bytes_def chat_c2s_bytes_def shutdown_notice_def)

lemmas notices_nonempty' [simp] = notices_nonempty [symmetric]

lemma notice_of_nonempty: "session_at w s \<noteq> None \<Longrightarrow> notice_of w s \<noteq> []"
  by (auto simp: notice_of_def)

section \<open>Reading the lobby\<close>

lemma reading_links:
  assumes "server_inv w"
  shows "links_inv w" "registry_inv w"
  using assms by (simp_all add: server_inv_def registry_inv_def)

lemma session_game:
  assumes "server_inv w" "session_at w s = Some x" "us_game x = Some p"
  obtains g where "w_game_heap w p = Some g" "gm_of w s = Some p" "game_name w s = Some (gm_code_str g)"
    "map_of (w_games w) (gm_code_str g) = Some p"
proof -
  note wf = links_invD[OF reading_links(1)[OF assms(1)]]
  have gm: "gm_of w s = Some p" using links_session[OF assms(2)] assms(3) by simp
  obtain g where g: "w_game_heap w p = Some g" using users_wf_game[OF wf(3) gm] by blast
  then show ?thesis using that gm games_wfD(3)[OF wf(1) g, of "gm_code_str g"] by (simp add: game_name_def)
qed

lemma session_group:
  assumes "server_inv w" "session_at w s = Some x" "us_group x = Some q"
  obtains gr g where "w_group_heap w q = Some gr" "gr_of w s = Some q" "group_name w s = Some (gn_name gr)"
    "us_game x = Some (gn_game gr)" "w_game_heap w (gn_game gr) = Some g"
    "game_name w s = Some (gm_code_str g)"
    "players_in w (gm_code_str g) (gn_name gr) = gn_players gr" "s \<in> set (gn_players gr)"
proof -
  note inv = reading_links(1)[OF assms(1)] and sx = links_session[OF assms(2)]
  have gr: "gr_of w s = Some q" using sx assms(3) by simp
  obtain gn where gn: "w_group_heap w q = Some gn" "gm_of w s = Some (gn_game gn)" "s \<in> set (gn_players gn)"
    by (rule player_group[OF inv gr])
  have game: "us_game x = Some (gn_game gn)" using gn(2) sx by simp
  obtain g where g: "w_game_heap w (gn_game gn) = Some g" "game_name w s = Some (gm_code_str g)"
    by (rule session_game[OF assms(1,2) game])
  then show ?thesis using that gn gr game players_in_group[OF inv gn(1) g(1)] by (simp add: group_name_def)
qed

text \<open>The peers of a session: the others in its group.\<close>

definition lobby_peers :: "lobby \<Rightarrow> sid \<Rightarrow> sid set" where
  "lobby_peers l s = (case (lb_game l s, lb_group l s) of
     (Some c, Some n) \<Rightarrow> set (lb_players l c n) - {s} | _ \<Rightarrow> {})"

lemma peers_of_lobby:
  assumes "server_inv w" "session_at w s = Some x"
  shows "peers_of w s = lobby_peers (lobby_of w) s"
proof (cases "us_group x")
  case None
  then have "gr_of w s = None" using links_session[OF assms(2)] by simp
  then show ?thesis
    using group_name_None[OF reading_links(1)[OF assms(1)], of s]
    by (simp add: peers_of_def lobby_peers_def split: option.splits)
next
  case (Some q)
  obtain gr and g :: game_node where "w_group_heap w q = Some gr" "gr_of w s = Some q"
    "group_name w s = Some (gn_name gr)" "game_name w s = Some (gm_code_str g)" "players_in w (gm_code_str g) (gn_name gr) = gn_players gr"
    by (rule session_group[OF assms Some]) blast
  then show ?thesis by (simp add: peers_of_def lobby_peers_def)
qed

section \<open>The contracts\<close>

text \<open>What the founder and the members of a group exchange when \<open>s\<close> joins \<open>ps\<close>.\<close>

lemma join_messages_nonempty:
  assumes "session_at w s \<noteq> None" "\<forall>t\<in>set ps. session_at w t \<noteq> None"
  shows "[] \<notin> set (join_messages w s ps t)"
proof -
  have "[] \<noteq> notice_of w t" if "session_at w t \<noteq> None" for t using notice_of_nonempty[OF that] by metis
  then show ?thesis using assms by (auto simp: join_messages_def)
qed

lemma connect_contract:
  assumes "server_inv w" "session_at w s = Some x" "us_game x = Some p" "us_group x = None"
    "valid_group_name name" "game_name w s = Some code"
  shows "\<exists>w'. handle_connect s name w = Some (True, w')
    \<and> lobby_of w' = lb_connect s (group_name_str name) (lobby_of w)
    \<and> sent w w' (join_messages w s (players_in w code (group_name_str name)))"
proof -
  note inv = reading_links(1)[OF assms(1)] and sx = links_session[OF assms(2)]
  let ?key = "group_name_str name"
  obtain g where g: "w_game_heap w p = Some g" "gm_of w s = Some p" "game_name w s = Some (gm_code_str g)"
    by (rule session_game[OF assms(1,2,3)])
  have ps: "members_of w p ?key = players_in w code ?key"
    using members_of_game[OF inv g(1)] g(3) assms(6) by simp
  have "session_at w t \<noteq> None" if "t \<in> set (players_in w code ?key)" for t
    using that players_in_iff[OF inv, of t] game_name_None[OF inv, of t] links_invD(6)[OF inv]
    by (auto simp: live_wf_def)
  then have ne: "[] \<notin> set (join_messages w s (players_in w code ?key) t)" for t
    using assms(2) by (intro join_messages_nonempty) auto
  obtain q where q: "w_sessions (join_world s p ?key w) = (w_sessions w)(s \<mapsto> x\<lparr>us_group := Some q\<rparr>)"
    using sx by (blast intro: join_world_sessions)
  have "sent w (deliver (join_messages w s (players_in w code ?key)) (join_world s p ?key w))
      (join_messages w s (players_in w code ?key))"
    using sx by (intro sent_update[OF q assms(2) _ _ _ ne]) simp_all
  then show ?thesis
    using handle_connect_eq[OF inv assms(2-5)] lobby_join[OF inv assms(2-4)] ps by simp
qed

text \<open>
  The group node after a session has left it: freed and out of the game's map when nobody is left, and
  otherwise still there with the others in their order.
\<close>

definition group_left :: "sid \<Rightarrow> group_ptr \<Rightarrow> 'db world \<Rightarrow> 'db world \<Rightarrow> bool" where
  "group_left s q w w' \<longleftrightarrow> (\<exists>gr g'. w_group_heap w q = Some gr \<and> w_game_heap w' (gn_game gr) = Some g'
     \<and> (if gn_players gr = [s]
        then w_group_heap w' q = None \<and> map_of (gm_groups g') (gn_name gr) = None
        else w_group_heap w' q = Some (gr\<lparr>gn_players := remove1 s (gn_players gr)\<rparr>)
          \<and> map_of (gm_groups g') (gn_name gr) = Some q)
     \<and> (\<forall>q'. q' \<noteq> q \<longrightarrow> w_group_heap w' q' = w_group_heap w q'))"

lemma group_left_deliver [simp]: "group_left s q w (deliver f w') = group_left s q w w'"
  by (simp add: group_left_def)

lemma leave_links_left:
  assumes "links_inv w" "gr_of w s = Some q"
  shows "group_left s q w (leave_links s q w)"
proof -
  obtain gr g x where f: "w_group_heap w q = Some gr" "w_game_heap w (gn_game gr) = Some g"
    "map_of (gm_groups g) (gn_name gr) = Some q" "session_at w s = Some x" "w_sessions w s = Some x"
    "alive x" "us_group x = Some q" "us_game x = Some (gn_game gr)" "s \<in> set (gn_players gr)"
    "distinct (gn_players gr)"
    by (rule leave_facts[OF assms])
  then have "remove1 s (gn_players gr) = [] \<longleftrightarrow> gn_players gr = [s]" by (auto simp: remove1_Nil_iff)
  then show ?thesis
    using f by (cases "gn_players gr = [s]") (auto simp: group_left_def leave_links_def Let_def map_of_um_erase)
qed

lemma disconnect_contract:
  assumes "server_inv w" "session_at w s = Some x" "us_group x = Some q"
  shows "\<exists>w'. handle_disconnect s w = Some (True, w') \<and> lobby_of w' = lb_leave s (lobby_of w)
    \<and> group_left s q w w'
    \<and> sent w w' (\<lambda>t. if t \<in> lobby_peers (lobby_of w) s then [disconnect_notice (us_ip_be x)] else [])"
proof -
  note inv = reading_links(1)[OF assms(1)] and sx = links_session[OF assms(2)]
  obtain gr g where gr: "w_group_heap w q = Some gr" "gr_of w s = Some q" "us_game x = Some (gn_game gr)"
    by (rule session_group[OF assms])
  let ?f = "\<lambda>t. if t \<in> set (gn_players gr) - {s} then [disconnect_notice (us_ip_be x)] else []"
  have peers: "lobby_peers (lobby_of w) s = set (gn_players gr) - {s}"
    using peers_of_lobby[OF assms(1,2)] gr by (simp add: peers_of_def)
  have ses: "w_sessions (leave_links s q w) = (w_sessions w)(s \<mapsto> x\<lparr>us_group := None\<rparr>)"
    using sx by simp
  have "sent w (deliver ?f (leave_links s q w)) ?f"
    using sx by (intro sent_update[OF ses assms(2)]) simp_all
  moreover have "handle_disconnect s w = Some (True, deliver ?f (leave_links s q w))"
    using leave_group_eq[OF inv gr(2,1)] sx assms gr(3) by (simp add: handle_disconnect_def)
  ultimately show ?thesis
    unfolding peers using lobby_leave[OF inv gr(2)] leave_links_left[OF inv gr(2)] by simp
qed

lemma close_contract:
  assumes "server_inv w" "session_at w s = Some x" "\<not> us_reaped x"
  shows "\<exists>w'. close_connection s w = Some w' \<and> lobby_of w' = lb_logout s (lobby_of w)
    \<and> sent w w' (\<lambda>t. if t \<in> lobby_peers (lobby_of w) s then [disconnect_notice (us_ip_be x)] else [])
    \<and> w_connection_count w' = w_connection_count w - 1 \<and> 0 < w_connection_count w
    \<and> close_connection s w' = Some w'"
proof -
  note inv = reading_links(1)[OF assms(1)] and sx = links_session[OF assms(2)]
  let ?f = "\<lambda>t. if t \<in> peers_of w s then [disconnect_notice (us_ip_be x)] else []"
  let ?w = "deliver ?f (closed_world s w)" and ?y = "x\<lparr>us_reaped := True, us_group := None, us_game := None\<rparr>"
  have ses: "w_sessions (closed_world s w) = (w_sessions w)(s \<mapsto> ?y)"
    using sx by (intro closed_world_sessions) simp
  have "sent w ?w ?f"
    using sx by (intro sent_update[OF ses assms(2)]) simp_all
  moreover have "s \<in> unreaped w" using sx assms(3) by (auto simp: unreaped_def)
  then have "0 < w_connection_count w"
    using finite_unreaped registry_invD(4)[OF reading_links(2)[OF assms(1)]]
    by (auto simp: count_inv_def card_gt_0_iff)
  moreover have "session_at (closed_world s w) s = Some ?y" using sx ses by (simp add: session_at_def)
  then have "close_connection s ?w = Some ?w"
    by (intro close_connection_reaped[where x = "send_all (?f s) ?y"]) (simp_all add: frame_simps)
  ultimately show ?thesis
    using close_connection_eq[OF inv assms(2,3)] lobby_close[OF inv assms(2)]
    by (simp add: closed_world_rest peers_of_lobby[OF assms(1,2)] cong: if_cong)
qed

lemma chat_contract:
  assumes "server_inv w" "session_at w s = Some x" "us_group x = Some q"
  shows "\<exists>w'. handle_chat s message w = Some (True, w') \<and> lobby_of w' = lobby_of w
    \<and> sent w w' (\<lambda>t. if t \<in> lobby_peers (lobby_of w) s then [chat_notice message (us_name x)] else [])"
  using handle_chat_eq[OF reading_links(1)[OF assms(1)] assms(2,3), of message] peers_of_lobby[OF assms(1,2)]
  by (auto intro!: sent_deliver)

lemma scan_contract:
  assumes "server_inv w" "session_at w s = Some x" "us_game x = Some p" "us_group x = None"
    "game_name w s = Some code"
  shows "\<exists>w' names. handle_scan s w = Some (True, w') \<and> lobby_of w' = lobby_of w
    \<and> distinct names \<and> set names = {n. players_in w code n \<noteq> []}
    \<and> sent w w' (\<lambda>t. if t = s then
        map (\<lambda>n. scan_notice n (mac_of w (hd (players_in w code n)))) names @ [[opcode_byte OPCODE_SCAN_COMPLETE]]
        else [])"
proof -
  note inv = reading_links(1)[OF assms(1)] and wf = links_invD[OF reading_links(1)[OF assms(1)]]
  obtain g where g: "w_game_heap w p = Some g" "game_name w s = Some (gm_code_str g)"
    by (rule session_game[OF assms(1-3)])
  have code: "code = gm_code_str g" using g assms(5) by simp
  have um: "um_wf (gm_groups g)" by (rule groups_wfD(1)[OF wf(2) g(1)])
  have grp: "\<exists>gr. w_group_heap w q = Some gr \<and> players_in w code k = gn_players gr \<and> gn_players gr \<noteq> []"
    if kq: "(k, q) \<in> set (gm_groups g)" for k q
  proof -
    have "map_of (gm_groups g) k = Some q" using kq um by (simp add: um_find_iff)
    then obtain gr where gr: "w_group_heap w q = Some gr" "gn_name gr = k" "gn_game gr = p"
      using groups_wfD(2)[OF wf(2) g(1)] by blast
    then show ?thesis
      using players_in_group[OF inv gr(1), of g] g(1) code players_wfD(1)[OF wf(4) gr(1)] by auto
  qed
  let ?names = "map fst (gm_groups g)"
  let ?msgs = "map (\<lambda>n. scan_notice n (mac_of w (hd (players_in w code n)))) ?names"
  let ?f = "\<lambda>t. if t = s then ?msgs @ [[opcode_byte OPCODE_SCAN_COMPLETE]] else []"
  have msgs: "scan_messages w (gm_groups g) = ?msgs"
    using grp by (auto simp: scan_messages_def founder_mac_def split: option.splits) fastforce+
  have "sent w (deliver ?f w) ?f" by (rule sent_deliver) auto
  moreover have "handle_scan s w = Some (True, deliver ?f w)"
    using handle_scan_eq[OF inv assms(2-4) g(1)] unfolding msgs .
  moreover have "set ?names = {n. players_in w code n \<noteq> []}"
  proof
    show "set ?names \<subseteq> {n. players_in w code n \<noteq> []}" using grp by fastforce
    have "n \<in> set ?names" if ne: "players_in w code n \<noteq> []" for n
    proof -
      have "players_in w code n = members_of w p n" using members_of_game[OF inv g(1)] code by simp
      then have "map_of (gm_groups g) n \<noteq> None" using ne g(1)
        by (cases "map_of (gm_groups g) n") (simp_all add: members_of_def)
      then show ?thesis by (simp add: map_of_eq_None_iff)
    qed
    then show "{n. players_in w code n \<noteq> []} \<subseteq> set ?names" by blast
  qed
  ultimately show ?thesis
    using um by (intro exI[of _ "deliver ?f w"] exI[of _ ?names]) (simp del: map_map)
qed

lemma shutdown_contract:
  assumes "server_inv w"
  shows "\<exists>w'. broadcast_shutdown w = Some w' \<and> lobby_of w' = lobby_of w \<and> w_shutdown_broadcasted w'
    \<and> sent w w' (\<lambda>t. if group_name w t \<noteq> None \<and> \<not> w_shutdown_broadcasted w then [shutdown_notice] else [])
    \<and> broadcast_shutdown w' = Some w'"
proof (cases "w_shutdown_broadcasted w")
  case True
  then show ?thesis using sent_deliver[of "\<lambda>_. []" w] by (simp add: broadcast_shutdown_def)
next
  case False
  note inv = reading_links(1)[OF assms]
  let ?v = "w\<lparr>w_shutdown_broadcasted := True\<rparr>"
  have "sent w (deliver (\<lambda>t. if gr_of w t \<noteq> None then [shutdown_notice] else []) ?v)
      (\<lambda>t. if gr_of w t \<noteq> None then [shutdown_notice] else [])"
    by (rule sentI) auto
  then show ?thesis
    using broadcast_shutdown_eq[OF inv False] False group_name_None[OF inv]
    by (auto simp: broadcast_shutdown_def)
qed

end
