(* ===== verification/Client_Steps.thy ===== *)
theory Client_Steps
  imports Registry_Contract
begin

text \<open>
  What one client can do.  Whatever bytes a read delivers, the code that runs until the session's next
  await is a sequence of \<open>client_step\<close>s of that session: a change of its own members, of the
  database, one of the registry's operations, or packets for others.  Facts about everything a client
  can cause are then proved by rule induction over these steps: the lobby moves by lobby operations of
  that session alone, and the other sessions see nothing but packets.
\<close>

section \<open>The steps\<close>

text \<open>Packets for others go to sessions in a group of the same game.\<close>

definition near :: "'db world \<Rightarrow> sid \<Rightarrow> (sid \<Rightarrow> bytes list) \<Rightarrow> bool" where
  "near w s f \<longleftrightarrow> (\<forall>t. t \<noteq> s \<longrightarrow> f t \<noteq> [] \<longrightarrow> gr_of w t \<noteq> None \<and> gm_of w t = gm_of w s)"

text \<open>
  The session's timer is left alone or restarted at time \<open>now\<close>; its watchdog does not end and a
  closed session stays closed.
\<close>

definition timely :: "nat \<Rightarrow> session_impl \<Rightarrow> session_impl \<Rightarrow> bool" where
  "timely now x y \<longleftrightarrow> (si_expiry y = si_expiry x \<or> si_expiry y = now + SERVER_USER_TIMEOUT_SECONDS)
     \<and> (si_watchdog y = Wd_done \<longrightarrow> si_watchdog x = Wd_done) \<and> (si_closed x \<longrightarrow> si_closed y)"

lemma timely_ops [simp]:
  "timely now x (session_close x)" "timely now x (consume_rx k x)" "timely now x (si_reader_update f x)"
  "timely now x (timer_expires_after now SERVER_USER_TIMEOUT_SECONDS (receive b x))"
  by (simp_all add: timely_def frame_simps session_close_watchdog timer_expires_after_def)

inductive client_step :: "nat \<Rightarrow> sid \<Rightarrow> 'db world \<Rightarrow> 'db world \<Rightarrow> bool" for now :: nat and s :: sid where
  own: "w_sessions w s = Some x \<Longrightarrow> us_game y = us_game x \<Longrightarrow> us_group y = us_group x \<Longrightarrow>
    us_reaped y = us_reaped x \<Longrightarrow> timely now x y \<Longrightarrow> client_step now s w (set_session s y w)"
| database: "client_step now s w (w\<lparr>w_db := h\<rparr>)"
| login: "links_inv w \<Longrightarrow> session_at w s = Some x \<Longrightarrow> us_game x = None \<Longrightarrow> \<not> us_reaped x \<Longrightarrow>
    client_step now s w (login_world s pkt code w)"
| join: "links_inv w \<Longrightarrow> session_at w s = Some x \<Longrightarrow> us_game x = Some p \<Longrightarrow> us_group x = None \<Longrightarrow>
    \<not> us_reaped x \<Longrightarrow> group_name_ok key \<Longrightarrow> near w s f \<Longrightarrow> client_step now s w (deliver f (join_world s p key w))"
| leave: "links_inv w \<Longrightarrow> session_at w s = Some x \<Longrightarrow> us_group x = Some q \<Longrightarrow> \<not> us_reaped x \<Longrightarrow> near w s f \<Longrightarrow>
    client_step now s w (deliver f (leave_links s q w))"
| send: "session_at w s = Some x \<Longrightarrow> \<not> us_reaped x \<Longrightarrow> near w s f \<Longrightarrow> client_step now s w (deliver f w)"
| close: "links_inv w \<Longrightarrow> session_at w s = Some x \<Longrightarrow> \<not> us_reaped x \<Longrightarrow> near w s f \<Longrightarrow>
    client_step now s w (deliver f (closed_world s w))"

abbreviation client_steps :: "nat \<Rightarrow> sid \<Rightarrow> 'db world \<Rightarrow> 'db world \<Rightarrow> bool" where
  "client_steps now s \<equiv> (client_step now s)\<^sup>*\<^sup>*"

lemma near_only [simp]: "near w s (\<lambda>t. if t = s then bs else [])"
  by (simp add: near_def)

lemma near_peers:
  assumes inv: "links_inv w" and x: "session_at w s = Some x"
  shows "near w s (\<lambda>t. if t \<in> peers_of w s then bs else [])"
  unfolding near_def
proof (intro allI impI)
  fix t assume "(if t \<in> peers_of w s then bs else []) \<noteq> []"
  then obtain q gr where q: "gr_of w s = Some q" "w_group_heap w q = Some gr" "t \<in> set (gn_players gr)"
    by (auto simp: peers_of_def split: if_splits option.splits)
  obtain gr' where "w_group_heap w q = Some gr'" "gm_of w s = Some (gn_game gr')"
    by (rule player_group[OF inv q(1)])
  then show "gr_of w t \<noteq> None \<and> gm_of w t = gm_of w s" using player_alive[OF inv q(2,3)] q(2) by simp
qed

lemma near_join:
  assumes inv: "links_inv w" and p: "gm_of w s = Some p"
  shows "near w s (join_messages w s (members_of w p key))"
  unfolding near_def
proof (intro allI impI)
  fix t assume "t \<noteq> s" "join_messages w s (members_of w p key) t \<noteq> []"
  then have "t \<in> set (members_of w p key)" by (auto simp: join_messages_def split: if_splits)
  then obtain g q gr where g: "w_game_heap w p = Some g" "map_of (gm_groups g) key = Some q"
    "w_group_heap w q = Some gr" "t \<in> set (gn_players gr)"
    by (auto simp: members_of_def dest: sym split: option.splits)
  have "gn_game gr = p" using groups_wfD(4)[OF links_invD(2)[OF inv] g(1,3)] g(2) by blast
  then show "gr_of w t \<noteq> None \<and> gm_of w t = gm_of w s" using player_alive[OF inv g(3,4)] p by simp
qed

section \<open>Every read is a sequence of steps\<close>

lemma step_own:
  assumes r: "reading w s x" and f: "quiet f" and t: "timely now x (f x)"
  shows "client_step now s w (set_session s (f x) w)"
  using f t readingD(4)[OF r] by (intro client_step.own[of _ s x]) (simp_all add: quiet_def)

lemma connect_steps:
  assumes r: "reading w s x" and len: "length name = ADHOCCTL_GROUPNAME_LEN"
    and h: "handle_connect s name w = Some (ok, v)"
  shows "client_steps now s w v"
proof -
  note d = readingD[OF r]
  show ?thesis
  proof (cases "us_game x")
    case None
    then show ?thesis using d h by (simp add: handle_connect_def)
  next
    case (Some p)
    obtain g where g: "w_game_heap w p = Some g" by (rule reading_game[OF r Some])
    have gm: "gm_of w s = Some p" using d(4) Some by (simp add: gm_of_def)
    show ?thesis
    proof (cases "valid_group_name name \<and> us_group x = None")
      case True
      have "client_step now s w (deliver (join_messages w s (members_of w p (group_name_str name)))
          (join_world s p (group_name_str name) w))"
        using True len group_name_str_ok[of name] near_join[OF d(3) gm] d(7)
        by (intro client_step.join[OF d(3,5) Some]) simp_all
      then show ?thesis using handle_connect_eq[OF d(3,5) Some] True h by auto
    next
      case False
      then have "v = w"
        using d Some g h by (cases "valid_group_name name") (simp_all add: handle_connect_def game_at_def)
      then show ?thesis by simp
    qed
  qed
qed

lemma leave_step:
  assumes inv: "links_inv w" and x: "session_at w s = Some x" "\<not> us_reaped x" and q: "us_group x = Some q"
    and v: "leave_group s w = Some v"
  shows "client_step now s w v"
proof -
  note sx = links_session[OF x(1)]
  have gr: "gr_of w s = Some q" using sx q by simp
  obtain gn where gn: "w_group_heap w q = Some gn" by (rule player_group[OF inv gr])
  have "peers_of w s = set (gn_players gn) - {s}" using gr gn by (simp add: peers_of_def)
  then show ?thesis
    using leave_group_eq[OF inv gr gn, of x] sx v near_peers[OF inv x(1)] client_step.leave[OF inv x(1) q x(2)] by simp
qed

lemma disconnect_steps:
  assumes r: "reading w s x" and h: "handle_disconnect s w = Some (ok, v)"
  shows "client_steps now s w v"
  using readingD[OF r] h leave_step[of w s x]
  by (cases "us_game x"; cases "us_group x") (auto simp: handle_disconnect_def split: bind_splits)

lemma scan_steps:
  assumes r: "reading w s x" and h: "handle_scan s w = Some (ok, v)"
  shows "client_steps now s w v"
proof (cases "us_game x")
  case None
  then show ?thesis using readingD[OF r] h by (auto simp: handle_scan_def)
next
  case (Some p)
  note d = readingD[OF r]
  obtain g where g: "w_game_heap w p = Some g" by (rule reading_game[OF r Some])
  show ?thesis
  proof (cases "us_group x = None")
    case True
    then show ?thesis using handle_scan_eq[OF d(3,5) Some True g] h client_step.send[OF d(5,7) near_only] by auto
  next
    case False
    then show ?thesis using d Some h by (auto simp: handle_scan_def)
  qed
qed

lemma chat_steps:
  assumes r: "reading w s x" and h: "handle_chat s message w = Some (ok, v)"
  shows "client_steps now s w v"
proof -
  note d = readingD[OF r]
  show ?thesis
  proof (cases "us_group x")
    case None
    then show ?thesis using d h by (cases "us_game x") (auto simp: handle_chat_def)
  next
    case (Some q)
    then show ?thesis
      using handle_chat_eq[OF d(3,5) Some] h client_step.send[OF d(5,7) near_peers[OF d(3,5)]] by auto
  qed
qed

lemma login_steps:
  assumes r: "reading w s x" and out: "us_game x = None" and h: "handle_login api s pkt w = Some (res, v)"
  shows "client_steps now s w v"
proof (cases "valid_login_packet pkt")
  case False
  then show ?thesis using readingD[OF r] h out by (simp add: handle_login_def)
next
  case True
  note d = readingD[OF r]
  obtain c dh where c: "apply_crosslink api (w_db w) (lp_game pkt) = (c, dh)" by fastforce
  note db = client_step.database[of now s w]
  show ?thesis
  proof (cases c)
    case (Inl e)
    then show ?thesis using True d c h out db by (auto simp: handle_login_def)
  next
    case (Inr code)
    obtain u dh' where u: "record_unknown_product api dh code = (u, dh')" by fastforce
    let ?w = "w\<lparr>w_db := dh'\<rparr>"
    have r': "reading ?w s x" using r by (simp add: reading_def server_inv_def)
    note d' = readingD[OF r']
    show ?thesis
    proof (cases u)
      case (Inl e)
      then show ?thesis using True d c u Inr h out db by (auto simp: handle_login_def)
    next
      case Ok: (Inr _)
      have v: "v = login_world s pkt code ?w"
        using True h out d c u Inr Ok login_to_eq[OF d'(3,5), of pkt code] by (simp add: handle_login_def)
      have "client_step now s ?w v" unfolding v by (rule client_step.login[OF d'(3,5) out d'(7)])
      then show ?thesis using db[of dh'] by (rule converse_rtranclp_into_rtranclp[rotated, OF r_into_rtranclp])
    qed
  qed
qed

lemma client_steps_trans: "client_steps now s w v \<Longrightarrow> client_steps now s v u \<Longrightarrow> client_steps now s w u"
  by (rule rtranclp_trans)

text \<open>A step of the session's own members, then what a handler does.\<close>

lemma own_then:
  assumes "reading w s x" "quiet f" "timely now x (f x)" "client_steps now s (set_session s (f x) w) v"
  shows "client_steps now s w v"
  using step_own[OF assms(1-3)] assms(4) by (rule converse_rtranclp_into_rtranclp)

lemma close_unless_steps:
  assumes "served v s x" "close_unless s (Some (ok, v)) = Some u"
  shows "client_steps now s v u"
proof (cases ok)
  case False
  obtain y where y: "reading v s y" using assms(1) by (auto simp: served_def)
  show ?thesis
    using assms(2) False reading_close(1)[OF y] step_own[OF y, of session_close now] by (simp add: close_unless_def)
qed (use assms(2) in \<open>simp add: close_unless_def\<close>)

lemma handled_steps:
  assumes r: "reading w s x" and h: "\<And>ok v. H = Some (ok, v) \<Longrightarrow> client_steps now s (set_session s (consume_rx k x) w) v"
    and srv: "\<exists>ok v. H = Some (ok, v) \<and> served v s (consume_rx k x)" and u: "close_unless s H = Some u"
  shows "client_steps now s w u"
proof -
  obtain ok v where v: "H = Some (ok, v)" "served v s (consume_rx k x)" using srv by blast
  have "client_steps now s v u" using close_unless_steps[OF v(2)] u v(1) by simp
  then show ?thesis using own_then[OF r quiet_ops(2) timely_ops(2)] h[OF v(1)] client_steps_trans by blast
qed

lemma parse_login_steps:
  assumes r: "reading w s x" and out: "us_game x = None" and v: "parse_login api s x w = Some (res, v)"
  shows "client_steps now s w v"
proof -
  consider "si_rx x ! 0 \<noteq> opcode_byte OPCODE_LOGIN"
    | "si_rx x ! 0 = opcode_byte OPCODE_LOGIN" "si_rxpos x < sizeof_login_packet_c2s"
    | "si_rx x ! 0 = opcode_byte OPCODE_LOGIN" "\<not> si_rxpos x < sizeof_login_packet_c2s" by blast
  then show ?thesis
  proof cases
    case 1
    then show ?thesis using v reading_close(1)[OF r] step_own[OF r, of session_close now] by (simp add: parse_login_def)
  next
    case 2
    then show ?thesis using v by (simp add: parse_login_def)
  next
    case 3
    let ?y = "consume_rx sizeof_login_packet_c2s x" and ?pkt = "login_of_bytes (si_rx x)"
    note c = reading_consume[OF r, of sizeof_login_packet_c2s]
    have out': "us_game ?y = None" using out by (simp add: frame_simps)
    have "wf_login ?pkt" using rx_length[OF r] by (intro wf_login_of_bytes) simp
    then obtain ok u where u: "handle_login api s ?pkt (set_session s ?y w) = Some (ok, u)" "served u s ?y"
      using served_login[OF c(2) _ out'] by blast
    have wu: "client_steps now s w u" using own_then[OF r quiet_ops(2) timely_ops(2)] login_steps[OF c(2) out' u(1)] by blast
    obtain z where z: "reading u s z" using u(2) by (auto simp: served_def)
    show ?thesis
    proof (cases ok)
      case (Inl e)
      then show ?thesis using 3 v c(1) u(1) wu by (simp add: parse_login_def Let_def)
    next
      case (Inr b)
      then show ?thesis
        using 3 v c(1) u(1) wu reading_close(1)[OF z] rtranclp.rtrancl_into_rtrancl[OF wu step_own[OF z, of session_close now]]
        by (cases b) (simp_all add: parse_login_def Let_def)
    qed
  qed
qed

lemma parse_command_steps:
  assumes r: "reading w s x" and v: "parse_command s x w = Some (stop, v)"
  shows "client_steps now s w v"
proof -
  note c = reading_consume[OF r]
  note cmd = parse_command_def Let_def
  let ?op = "si_rx x ! 0"
  have len: "length (cc_group (connect_of_bytes (si_rx x))) = ADHOCCTL_GROUPNAME_LEN"
    using rx_length[OF r] by (simp add: connect_of_bytes_def)
  note conn = handled_steps[OF r connect_steps[OF c(2) len] served_connect[OF c(2) len]]
    and disc = handled_steps[OF r disconnect_steps[OF c(2)] served_disconnect[OF c(2)]]
    and scan = handled_steps[OF r scan_steps[OF c(2)] served_scan[OF c(2)]]
    and chat = handled_steps[OF r chat_steps[OF c(2)] served_chat[OF c(2)]]
  consider "?op = opcode_byte OPCODE_PING" | "?op = opcode_byte OPCODE_CONNECT"
    | "?op = opcode_byte OPCODE_DISCONNECT" | "?op = opcode_byte OPCODE_SCAN" | "?op = opcode_byte OPCODE_CHAT"
    | "?op \<noteq> opcode_byte OPCODE_PING" "?op \<noteq> opcode_byte OPCODE_CONNECT"
      "?op \<noteq> opcode_byte OPCODE_DISCONNECT" "?op \<noteq> opcode_byte OPCODE_SCAN" "?op \<noteq> opcode_byte OPCODE_CHAT"
    by blast
  then show ?thesis
  proof cases
    case 1
    then show ?thesis using v c(1)[of 1] step_own[OF r, of "consume_rx 1" now] by (simp add: cmd)
  next
    case 2
    then show ?thesis using v c(1)[of 9] conn by (cases "si_rxpos x < 9") (auto simp: cmd split: bind_splits)
  next
    case 3
    then show ?thesis using v c(1)[of 1] disc by (auto simp: cmd split: bind_splits)
  next
    case 4
    then show ?thesis using v c(1)[of 1] scan by (auto simp: cmd split: bind_splits)
  next
    case 5
    then show ?thesis using v c(1)[of 65] chat by (cases "si_rxpos x < 65") (auto simp: cmd split: bind_splits)
  next
    case 6
    then have "parse_command s x w = do { w \<leftarrow> on_session s session_close w; Some (False, w) }"
      unfolding cmd by (simp only: if_False)
    then show ?thesis using v reading_close(1)[OF r] step_own[OF r, of session_close now] by simp
  qed
qed

text \<open>Fixed-point induction: whatever the loop returns, it is reached by steps.\<close>

lemma parse_loop_steps:
  "parse_loop api s w = Some rv \<Longrightarrow> reading w s x \<Longrightarrow> client_steps now s w (snd rv)"
proof (induction arbitrary: x rule: parse_loop.raw_induct[rotated, consumes 1, case_names step])
  case (step loop api s w rv)
  note r = step.prems and IH = step.IH and body = step.hyps
  note d = readingD[OF r]
  show ?case
  proof (cases "si_rxpos x > 0 \<and> \<not> si_closed x")
    case False
    then have "snd rv = w" using body d(5) by auto
    then show ?thesis by simp
  next
    case True
    show ?thesis
    proof (cases "us_game x = None")
      case None: True
      obtain res v y where s: "parse_login api s x w = Some (res, v)" "reading v s y"
        using parse_login_safe[OF r None conjunct1[OF True]] by blast
      note st = parse_login_steps[OF r None s(1)]
      show ?thesis
      proof (cases "res = Inr False")
        case go: True
        then have "loop api s v = Some rv" using body d True None s(1) by simp
        then show ?thesis using client_steps_trans[OF st IH[OF _ s(2)]] by blast
      next
        case False
        then have "v = snd rv" using body d True None s(1) by (auto split: sum.splits if_splits)
        then show ?thesis using st by simp
      qed
    next
      case Some: False
      obtain stop v y where s: "parse_command s x w = Some (stop, v)" "reading v s y"
        using parse_command_safe[OF r conjunct1[OF True]] by blast
      note st = parse_command_steps[OF r s(1)]
      show ?thesis
      proof (cases stop)
        case go: False
        then have "loop api s v = Some rv" using body d True Some s(1) by simp
        then show ?thesis using client_steps_trans[OF st IH[OF _ s(2)]] by blast
      next
        case stop: True
        then have "v = snd rv" using body d True Some s(1) by auto
        then show ?thesis using st by simp
      qed
    qed
  qed
qed

text \<open>The steps of the coroutine around the loop.\<close>

lemma reader_exit_steps:
  assumes inv: "server_inv w" and x: "session_at w s = Some x" "\<not> us_reaped x" and v: "reader_exit s w = Some v"
  shows "client_steps now s w v"
proof -
  let ?y = "session_close x"
  let ?w = "set_session s ?y w"
  note sx = links_session[OF x(1)] and reg = reading_links(2)[OF inv]
  have st1: "client_step now s w ?w" using sx by (intro client_step.own[of _ _ x]) (simp_all add: frame_simps)
  have al: "alive ?y" using sx by simp
  have inv': "registry_inv ?w"
    using sx registry_inv_session[OF reg, of s x] by (intro registry_inv_set_session[OF reg, of s x]) (simp_all add: frame_simps)
  have y: "session_at ?w s = Some ?y" "\<not> us_reaped ?y" using al x by (simp_all add: frame_simps)
  define f where "f = (\<lambda>t. if t \<in> peers_of ?w s then [disconnect_notice (us_ip_be ?y)] else [])"
  define c where "c = deliver f (closed_world s ?w)"
  have cl: "close_connection s ?w = Some c"
    unfolding f_def c_def using close_connection_eq[OF registry_invD(1)[OF inv'] y] .
  have st2: "client_step now s ?w c"
    unfolding c_def f_def using client_step.close[OF registry_invD(1)[OF inv'] y near_peers[OF registry_invD(1)[OF inv'] y(1)]] .
  let ?z = "send_all (f s) (?y\<lparr>us_reaped := True, us_group := None, us_game := None\<rparr>)"
  have sc: "w_sessions c s = Some ?z" using closed_world_sessions[of ?w s ?y] by (simp add: c_def deliver_sessions)
  have "alive ?z" using al by (simp add: frame_simps)
  then have "session_at c s = Some ?z" using sc by (simp add: session_at_def)
  then have "v = set_session s (si_reader_update (\<lambda>_. Rd_done) ?z) c"
    using v x cl by (simp add: reader_exit_def on_session_eq)
  then have "client_step now s c v" using sc by (auto intro!: client_step.own)
  then show ?thesis using st1 st2 by (meson converse_rtranclp_into_rtranclp r_into_rtranclp)
qed

lemma reader_head_steps:
  assumes inv: "server_inv w" and x: "session_at w s = Some x" "si_reader x = Rd_start \<or> si_reader x = Rd_read"
    and v: "reader_head s w = Some v"
  shows "client_steps now s w v"
proof -
  note sx = links_session[OF x(1)] and reg = reading_links(2)[OF inv]
  have nr: "\<not> us_reaped x" using inv sx x(2) by (auto simp: server_inv_def pc_wf_def)
  have own: "client_step now s w (set_session s y w)"
    if "us_game y = us_game x" "us_group y = us_group x" "us_reaped y = us_reaped x" "timely now x y" for y
    using that sx by (intro client_step.own) simp_all
  consider "si_closed x" | "\<not> si_closed x" "si_rxpos x \<ge> RX_SIZE" | "\<not> si_closed x" "\<not> si_rxpos x \<ge> RX_SIZE" by blast
  then show ?thesis
  proof cases
    case 1
    then show ?thesis using reader_exit_steps[OF inv x(1) nr] v x(1) by (simp add: reader_head_def)
  next
    case 2
    let ?w = "set_session s (session_close x) w"
    have "server_inv ?w"
      using server_inv_update[OF inv, of s x session_close] sx by (simp add: frame_simps)
    then have "client_steps now s ?w v"
      using 2 v x(1) sx nr by (intro reader_exit_steps[where x = "session_close x"]) (simp_all add: reader_head_def on_session_eq frame_simps)
    then show ?thesis using own[of "session_close x"] by (simp add: frame_simps converse_rtranclp_into_rtranclp)
  next
    case 3
    then show ?thesis using v x(1) own by (auto simp: reader_head_def on_session_eq)
  qed
qed

lemma reader_read_steps:
  assumes r: "reading w s x" and len: "length b \<le> RX_SIZE - si_rxpos x" and v: "reader_read api now ec b s w = Some v"
  shows "client_steps now s w v"
proof (cases "ec \<or> b = []")
  case True
  then show ?thesis using reader_exit_steps[of w s x] readingD[OF r] v by (simp add: reader_read_def)
next
  case False
  let ?f = "timer_expires_after now SERVER_USER_TIMEOUT_SECONDS \<circ> receive b"
  have "si_rxpos x + length b \<le> RX_SIZE" using len rx_length[OF r] by auto
  then have "session_wf (?f x)"
    unfolding o_apply using readingD(9)[OF r] by (intro session_wf_timer session_wf_receive)
  note u = reading_update[OF r quiet_ops(3) this]
  obtain res c y where p: "parse_loop api s (set_session s (?f x) w) = Some (res, c)" "reading c s y"
    using parse_loop_safe[OF u(2)] by fastforce
  have "timely now x (?f x)" unfolding o_apply by (rule timely_ops(4))
  from own_then[OF r quiet_ops(3) this] have st: "client_steps now s w c"
    using parse_loop_steps[OF p(1) u(2), of now] by simp
  note d = readingD[OF p(2)]
  show ?thesis
  proof (cases res)
    case (Inl e)
    then have "v = set_session s (si_reader_update (\<lambda>_. Rd_threw) y) c"
      using False u(1) p(1) d v by (simp add: reader_read_def on_session_eq comp_def)
    then have "client_step now s c v" using d(4) by (auto intro!: client_step.own)
    with st show ?thesis by (rule rtranclp.rtrancl_into_rtrancl)
  next
    case (Inr _)
    then have "reader_head s c = Some v" using False u(1) p(1) v by (simp add: reader_read_def comp_def)
    then show ?thesis using client_steps_trans[OF st reader_head_steps[OF d(1,5)]] d(6) by blast
  qed
qed

end
