(* ===== verification/Client_Effects.thy ===== *)
theory Client_Effects
  imports Client_Steps
begin

text \<open>
  What the steps of one client do, by rule induction over them: to the lobby, to the other sessions, and
  to the timers; and that what the server performs for a session is such steps.
\<close>

section \<open>What the steps do to the lobby\<close>

text \<open>The lobby operations of one session, with when they are possible.\<close>

inductive lobby_step :: "sid \<Rightarrow> lobby \<Rightarrow> lobby \<Rightarrow> bool" for s :: sid where
  login: "lb_game l s = None \<Longrightarrow> lobby_step s l (lb_login s code l)"
| join: "lb_game l s \<noteq> None \<Longrightarrow> lb_group l s = None \<Longrightarrow> group_name_ok n \<Longrightarrow> lobby_step s l (lb_connect s n l)"
| leave: "lb_group l s \<noteq> None \<Longrightarrow> lobby_step s l (lb_leave s l)"
| logout: "lobby_step s l (lb_logout s l)"

lemma lobby_set_session:
  assumes "w_sessions w s = Some x" "us_game y = us_game x" "us_group y = us_group x"
  shows "lobby_of (set_session s y w) = lobby_of w"
  using assms by (intro lobby_same_links) (auto simp: gm_of_def gr_of_def fun_eq_iff)

lemma client_step_lobby:
  assumes "client_step now s w v"
  shows "(lobby_step s)\<^sup>=\<^sup>= (lobby_of w) (lobby_of v)"
  using assms
proof cases
  case (own x y)
  then show ?thesis using lobby_set_session[OF own(2)] by simp
next
  case (login x pkt code)
  have "gm_of w s = None" using links_session[OF login(3)] login(4) by simp
  then show ?thesis
    using login game_name_None[OF login(2), of s] lobby_login[OF login(2,3,4)] by (auto intro: lobby_step.login)
next
  case (join x p key f)
  note sx = links_session[OF join(3)]
  show ?thesis
    using join sx game_name_None[OF join(2), of s] group_name_None[OF join(2), of s] lobby_join[OF join(2-5)]
    by (auto intro!: lobby_step.join)
next
  case (leave x q f)
  note sx = links_session[OF leave(3)]
  have q: "gr_of w s = Some q" using sx leave(4) by simp
  then show ?thesis
    using leave group_name_None[OF leave(2), of s] lobby_leave[OF leave(2) q] by (auto intro!: lobby_step.leave)
next
  case (close x f)
  then show ?thesis using lobby_close[OF close(2,3)] by (auto intro: lobby_step.logout)
qed simp_all

lemma client_steps_lobby: "client_steps now s w v \<Longrightarrow> (lobby_step s)\<^sup>*\<^sup>* (lobby_of w) (lobby_of v)"
proof (induction rule: rtranclp_induct)
  case (step v u)
  then show ?case using client_step_lobby[OF step.hyps(2)] by (auto intro: rtranclp.rtrancl_into_rtrancl)
qed simp

section \<open>What the steps do to the other sessions\<close>

definition gone :: "'db world \<Rightarrow> sid \<Rightarrow> bool" where
  "gone w s \<longleftrightarrow> (\<exists>x. w_sessions w s = Some x \<and> us_reaped x)"

text \<open>
  \<open>apart w s v\<close>: the others have gained packets at most, only those in a group, and only those of
  the game of \<open>s\<close> if it had one; \<open>s\<close> keeps its game until it is closed, and then sends nothing.
\<close>

definition apart :: "'db world \<Rightarrow> sid \<Rightarrow> 'db world \<Rightarrow> bool" where
  "apart w s v \<longleftrightarrow>
     (\<forall>t. t \<noteq> s \<longrightarrow> (\<exists>bs. w_sessions v t = map_option (send_all bs) (w_sessions w t)
        \<and> (bs \<noteq> [] \<longrightarrow> \<not> gone w s \<and> gr_of w t \<noteq> None \<and> (gm_of w s \<noteq> None \<longrightarrow> gm_of w t = gm_of w s))))
     \<and> (gone w s \<longrightarrow> gone v s) \<and> (gm_of w s \<noteq> None \<longrightarrow> gone v s \<or> gm_of v s = gm_of w s)"

lemma apartI:
  assumes "\<And>t. t \<noteq> s \<Longrightarrow> w_sessions u t = w_sessions w t" "near w s f" "\<not> gone w s"
    "gm_of w s \<noteq> None \<Longrightarrow> gone (deliver f u) s \<or> gm_of (deliver f u) s = gm_of w s"
  shows "apart w s (deliver f u)"
  using assms unfolding apart_def near_def by (auto simp: deliver_sessions intro!: exI[of _ "f _"])

lemma apart_own:
  assumes "\<And>t. t \<noteq> s \<Longrightarrow> w_sessions v t = w_sessions w t" "gone w s \<Longrightarrow> gone v s" "gm_of v s = gm_of w s"
  shows "apart w s v"
  using assms unfolding apart_def by (auto simp: option.map_ident intro!: exI[of _ "[]"])

lemma client_step_apart:
  assumes "client_step now s w v"
  shows "apart w s v"
  using assms
proof cases
  case (own x y)
  then show ?thesis by (intro apart_own) (auto simp: gone_def gm_of_def)
next
  case (database h)
  then show ?thesis by (intro apart_own) (simp_all add: gone_def gm_of_def)
next
  case (login x pkt code)
  note sx = links_session[OF login(3)]
  then have "apart w s (deliver (\<lambda>_. []) (login_world s pkt code w))"
    using login(4,5) by (intro apartI) (auto simp: near_def gone_def)
  then show ?thesis using login(1) by simp
next
  case (join x p key f)
  note sx = links_session[OF join(3)]
  obtain q where "w_sessions (join_world s p key w) = (w_sessions w)(s \<mapsto> x\<lparr>us_group := Some q\<rparr>)"
    using sx by (blast intro: join_world_sessions)
  then show ?thesis
    unfolding join(1) using join sx by (intro apartI) (auto simp: gone_def gm_of_def deliver_sessions frame_simps)
next
  case (leave x q f)
  note sx = links_session[OF leave(3)]
  then show ?thesis
    unfolding leave(1) using leave by (intro apartI) (auto simp: gone_def gm_of_def deliver_sessions frame_simps)
next
  case (send x f)
  note sx = links_session[OF send(2)]
  then show ?thesis
    unfolding send(1) using send by (intro apartI) (auto simp: gone_def gm_of_def deliver_sessions frame_simps)
next
  case (close x f)
  note sx = links_session[OF close(3)]
  have "w_sessions (closed_world s w) = (w_sessions w)(s \<mapsto> x\<lparr>us_reaped := True, us_group := None, us_game := None\<rparr>)"
    using sx by (intro closed_world_sessions) simp
  then show ?thesis
    unfolding close(1) using close sx by (intro apartI) (auto simp: gone_def deliver_sessions frame_simps)
qed

lemma apart_links:
  assumes "apart w s v" "t \<noteq> s"
  shows "gm_of v t = gm_of w t" "gr_of v t = gr_of w t"
proof -
  obtain bs where "w_sessions v t = map_option (send_all bs) (w_sessions w t)"
    using assms unfolding apart_def by blast
  then show "gm_of v t = gm_of w t" "gr_of v t = gr_of w t"
    by (auto simp: gm_of_def gr_of_def frame_simps split: option.split)
qed

lemma apart_trans:
  assumes "apart w s v" "apart v s u"
  shows "apart w s u"
proof -
  have "\<exists>bs. w_sessions u t = map_option (send_all bs) (w_sessions w t)
      \<and> (bs \<noteq> [] \<longrightarrow> \<not> gone w s \<and> gr_of w t \<noteq> None \<and> (gm_of w s \<noteq> None \<longrightarrow> gm_of w t = gm_of w s))"
    if t: "t \<noteq> s" for t
  proof -
    obtain b1 where b1: "w_sessions v t = map_option (send_all b1) (w_sessions w t)"
      "b1 \<noteq> [] \<longrightarrow> \<not> gone w s \<and> gr_of w t \<noteq> None \<and> (gm_of w s \<noteq> None \<longrightarrow> gm_of w t = gm_of w s)"
      using assms(1) t unfolding apart_def by blast
    obtain b2 where b2: "w_sessions u t = map_option (send_all b2) (w_sessions v t)"
      "b2 \<noteq> [] \<longrightarrow> \<not> gone v s \<and> gr_of v t \<noteq> None \<and> (gm_of v s \<noteq> None \<longrightarrow> gm_of v t = gm_of v s)"
      using assms(2) t unfolding apart_def by blast
    have "gone w s \<longrightarrow> gone v s" "gm_of w s \<noteq> None \<longrightarrow> gone v s \<or> gm_of v s = gm_of w s"
      using assms(1) unfolding apart_def by blast+
    moreover have "w_sessions u t = map_option (send_all (b1 @ b2)) (w_sessions w t)"
      using b1(1) b2(1) by (simp add: option.map_comp comp_def)
    ultimately show ?thesis
      using b1(2) b2(2) apart_links[OF assms(1) t] by (intro exI[of _ "b1 @ b2"]) auto
  qed
  then show ?thesis using assms unfolding apart_def by metis
qed

lemma client_steps_apart: "client_steps now s w v \<Longrightarrow> apart w s v"
proof (induction rule: rtranclp_induct)
  case base
  show ?case by (rule apart_own) simp_all
next
  case (step v u)
  then show ?case using apart_trans client_step_apart by blast
qed

section \<open>Actions of the server\<close>

text \<open>The session whose client an action lets act; the other actions are nobody's.\<close>

definition actor :: "'db action \<Rightarrow> sid option" where
  "actor a = (case a of Reader_start s \<Rightarrow> Some s | Reader_read s _ _ \<Rightarrow> Some s | _ \<Rightarrow> None)"

lemma perform_steps:
  assumes inv: "server_inv (gs_world g)" and en: "enabled a g" and p: "perform api a g = Some g'" and s: "actor a = Some s"
  shows "client_steps (gs_now g) s (gs_world g) (gs_world g')"
proof (cases a)
  case (Reader_start t)
  then obtain x where x: "w_sessions (gs_world g) s = Some x" "si_reader x = Rd_start"
    using en s by (auto simp: enabled_def session_is_def actor_def split: option.splits)
  have "session_at (gs_world g) s = Some x" using x by (simp add: session_at_def alive_def)
  then show ?thesis
    using reader_head_steps[OF inv] x p Reader_start s by (auto simp: perform_def actor_def)
next
  case (Reader_read t ec b)
  then obtain x where x: "w_sessions (gs_world g) s = Some x" "si_reader x = Rd_read" "length b \<le> RX_SIZE - si_rxpos x"
    using en s by (auto simp: enabled_def session_is_def actor_def split: option.splits)
  have "reading (gs_world g) s x" using inv x by (simp add: reading_def)
  then show ?thesis using reader_read_steps x p Reader_read s by (fastforce simp: perform_def actor_def)
qed (use s in \<open>simp_all add: actor_def\<close>)

section \<open>Timers\<close>

text \<open>
  An open session has a watchdog, and no session's timer runs out later than one timeout from now.
\<close>

definition timer_inv :: "nat \<Rightarrow> 'db world \<Rightarrow> bool" where
  "timer_inv now w \<longleftrightarrow> (\<forall>s x. w_sessions w s = Some x \<longrightarrow>
     (\<not> si_closed x \<longrightarrow> si_watchdog x \<noteq> Wd_done) \<and> si_expiry x \<le> now + SERVER_USER_TIMEOUT_SECONDS)"

lemma timer_invD:
  assumes "timer_inv now w" "w_sessions w s = Some x"
  shows "\<not> si_closed x \<Longrightarrow> si_watchdog x \<noteq> Wd_done" "si_expiry x \<le> now + SERVER_USER_TIMEOUT_SECONDS"
  using assms by (auto simp: timer_inv_def simp del: SERVER_USER_TIMEOUT_SECONDS_def)

lemma timer_inv_later: "timer_inv now w \<Longrightarrow> now \<le> now' \<Longrightarrow> timer_inv now' w"
  unfolding timer_inv_def by (meson add_le_mono1 le_trans)

lemma timer_inv_same: "timer_inv now w \<Longrightarrow> w_sessions v = w_sessions w \<Longrightarrow> timer_inv now v"
  by (simp add: timer_inv_def)

lemma timer_inv_deliver: "timer_inv now w \<Longrightarrow> timer_inv now (deliver f w)"
  by (auto simp: timer_inv_def deliver_sessions frame_simps)

lemma timer_inv_own:
  assumes "timer_inv now w" "w_sessions w s = Some x" "timely now x y" "w_sessions v = (w_sessions w)(s \<mapsto> y)"
  shows "timer_inv now v"
  using assms timer_invD[OF assms(1,2)] unfolding timer_inv_def timely_def by auto

lemma timely_same: "si_expiry y = si_expiry x \<Longrightarrow> si_watchdog y = si_watchdog x \<Longrightarrow> si_closed y = si_closed x \<Longrightarrow> timely now x y"
  by (simp add: timely_def)

lemma client_step_timer:
  assumes "client_step now s w v" "timer_inv now w"
  shows "timer_inv now v"
  using assms(1)
proof cases
  case (own x y)
  show ?thesis unfolding own(1) by (rule timer_inv_own[OF assms(2) own(2,6)]) simp
next
  case (login x pkt code)
  note sx = links_session[OF login(3)]
  show ?thesis unfolding login(1)
    by (rule timer_inv_own[OF assms(2), of s x]) (use sx in \<open>auto intro!: timely_same\<close>)
next
  case (join x p key f)
  note sx = links_session[OF join(3)]
  obtain q where q: "w_sessions (join_world s p key w) = (w_sessions w)(s \<mapsto> x\<lparr>us_group := Some q\<rparr>)"
    using sx by (blast intro: join_world_sessions)
  have "timer_inv now (join_world s p key w)"
    by (rule timer_inv_own[OF assms(2) _ _ q]) (use sx in \<open>auto intro!: timely_same\<close>)
  then show ?thesis unfolding join(1) by (rule timer_inv_deliver)
next
  case (leave x q f)
  note sx = links_session[OF leave(3)]
  have "timer_inv now (leave_links s q w)"
    by (rule timer_inv_own[OF assms(2), of s x]) (use sx in \<open>auto intro!: timely_same\<close>)
  then show ?thesis unfolding leave(1) by (rule timer_inv_deliver)
next
  case (close x f)
  note sx = links_session[OF close(3)]
  have "timer_inv now (closed_world s w)"
    by (rule timer_inv_own[OF assms(2) _ _ closed_world_sessions]) (use sx in \<open>auto intro!: timely_same\<close>)
  then show ?thesis unfolding close(1) by (rule timer_inv_deliver)
qed (use assms(2) in \<open>auto intro: timer_inv_deliver timer_inv_same\<close>)

lemma client_steps_timer: "client_steps now s w v \<Longrightarrow> timer_inv now w \<Longrightarrow> timer_inv now v"
  by (induction rule: rtranclp_induct) (auto intro: client_step_timer)

section \<open>Nobody's actions\<close>

text \<open>The order in which the hash maps are iterated does not show in the lobby.\<close>

lemma lobby_rehash:
  assumes "server_inv w" "rehashed w v"
  shows "lobby_of v = lobby_of w"
proof -
  obtain gs gh where v: "v = w\<lparr>w_games := gs, w_game_heap := gh\<rparr>" and gs: "mset gs = mset (w_games w)"
    and gh: "\<And>p. case w_game_heap w p of None \<Rightarrow> gh p = None
        | Some g \<Rightarrow> \<exists>ps. gh p = Some (g\<lparr>gm_groups := ps\<rparr>) \<and> mset ps = mset (gm_groups g)"
    using assms(2) by (auto simp: rehashed_def)
  note wf = links_invD[OF reading_links(1)[OF assms(1)]]
  have games: "map_of gs = map_of (w_games w)"
    using map_of_mset_eq(2)[OF gs games_wfD(1)[OF wf(1)]] .
  have new: "case w_game_heap w p of None \<Rightarrow> gh p = None
      | Some g \<Rightarrow> \<exists>ps. gh p = Some (g\<lparr>gm_groups := ps\<rparr>) \<and> map_of ps = map_of (gm_groups g)" for p
  proof (cases "w_game_heap w p")
    case None
    then show ?thesis using gh[of p] by simp
  next
    case (Some g)
    then obtain ps where "gh p = Some (g\<lparr>gm_groups := ps\<rparr>)" "mset ps = mset (gm_groups g)"
      using gh[of p] by auto
    moreover from this have "map_of ps = map_of (gm_groups g)"
      using map_of_mset_eq(2) groups_wfD(1)[OF wf(2) Some] by blast
    ultimately show ?thesis using Some by auto
  qed
  have mem: "members_of v p n = members_of w p n
      \<and> map_option gm_code_str (gh p) = map_option gm_code_str (w_game_heap w p)" for p n
  proof (cases "w_game_heap w p")
    case None
    then show ?thesis using new[of p] by (simp add: members_of_def v)
  next
    case (Some g)
    then obtain ps where "gh p = Some (g\<lparr>gm_groups := ps\<rparr>)" "map_of ps = map_of (gm_groups g)"
      using new[of p] by auto
    then show ?thesis using Some by (cases "map_of (gm_groups g) n") (simp_all add: members_of_def v)
  qed
  have "game_name v = game_name w" using mem by (intro game_name_cong) (simp_all add: v)
  moreover have "group_name v = group_name w"
    by (auto simp: group_name_def fun_eq_iff v split: option.splits)
  moreover have "players_in v = players_in w"
  proof -
    have "map_of (w_games v) = map_of (w_games w)" by (simp add: v games)
    then show ?thesis using mem by (auto simp: players_in_def fun_eq_iff split: option.splits)
  qed
  ultimately show ?thesis by (simp add: lobby_of_def)
qed

lemma lobby_open_session:
  assumes "w_sessions w (w_next_sid w) = None" "us_game x = None" "us_group x = None"
  shows "lobby_of ((set_session (w_next_sid w) x w)\<lparr>w_next_sid := n\<rparr>) = lobby_of w"
  using assms by (intro lobby_same_links) (auto simp: gm_of_def gr_of_def fun_eq_iff)

lemma lobby_accept:
  assumes "server_inv w"
  shows "lobby_of (accept_tcp now ep w) = lobby_of w" "lobby_of (accept_unix now w) = lobby_of w"
proof -
  have new: "w_sessions w (w_next_sid w) = None"
    using registry_invD(4)[OF reading_links(2)[OF assms]] by (simp add: count_inv_def)
  have "lobby_of (open_session now ip label (w\<lparr>w_connection_count := c\<rparr>)) = lobby_of w" for ip label c
    using lobby_open_session[of "w\<lparr>w_connection_count := c\<rparr>"] new
    by (simp add: open_session_def session_start_def new_session_def timer_expires_after_def)
  then show "lobby_of (accept_tcp now ep w) = lobby_of w" "lobby_of (accept_unix now w) = lobby_of w"
    by (simp_all add: accept_tcp_def accept_unix_def try_open_connection_def split: option.split address.split)
qed

lemma lobby_update_session:
  assumes "\<And>x. us_game (f x) = us_game x" "\<And>x. us_group (f x) = us_group x"
  shows "lobby_of (gs_world (update_session s f g)) = lobby_of (gs_world g)"
  using assms by (auto simp: update_session_def lobby_set_session split: option.split)

lemma perform_nobody:
  assumes inv: "server_inv (gs_world g)" and en: "enabled a g" and p: "perform api a g = Some g'" and s: "actor a = None"
  shows "lobby_of (gs_world g') = lobby_of (gs_world g)"
proof (cases a)
  case (Accept r)
  then show ?thesis using p lobby_accept[OF inv] by (cases r) (auto simp: perform_def game_accept_def)
next
  case (Writer_resume t)
  then show ?thesis using p lobby_update_session[of writer_loop] by (auto simp: perform_def frame_simps)
next
  case (Writer_written t ec)
  have "us_game (writer_written ec x) = us_game x" "us_group (writer_written ec x) = us_group x" for x
    by (simp_all add: writer_written_def writer_finish_def frame_simps)
  then show ?thesis using Writer_written p lobby_update_session[of "writer_written ec"] by (auto simp: perform_def)
next
  case (Watchdog_start t)
  then show ?thesis using p lobby_update_session[of watchdog_loop] by (auto simp: perform_def frame_simps)
next
  case (Watchdog_wake t ab)
  then show ?thesis using p lobby_update_session[of "watchdog_wake ab (gs_now g)"] by (auto simp: perform_def frame_simps)
next
  case Stop_signal
  then show ?thesis using p shutdown_contract[OF inv] by (auto simp: perform_def on_stop_signal_def)
next
  case (Rehash v)
  then show ?thesis using p en lobby_rehash[OF inv] by (auto simp: perform_def enabled_def)
qed (use p s in \<open>auto simp: perform_def actor_def\<close>)

end
