(* ===== verification/Session_Life.thy ===== *)
theory Session_Life
  imports Client_Effects
begin

text \<open>
  The life of a session: it has a watchdog as long as it is open, a silent client is closed when its
  timer has run out, and the coroutines of a closed session end, each at its next step, none of them
  asleep.
\<close>

section \<open>Runs\<close>

text \<open>A sequence of actions, each of which must be enabled.\<close>

fun execute :: "'db sqlite_api \<Rightarrow> 'db action list \<Rightarrow> 'db server \<Rightarrow> 'db server option" where
  "execute api [] g = Some g"
| "execute api (a # as) g = (if enabled a g then do { g \<leftarrow> perform api a g; execute api as g } else None)"

lemma execute_append: "execute api (as @ bs) g = do { g \<leftarrow> execute api as g; execute api bs g }"
  by (induction as arbitrary: g) (simp_all split: bind_splits)

lemma execute_reachable: "execute api as g = Some g' \<Longrightarrow> reachable api h g \<Longrightarrow> reachable api h g'"
  by (induction as arbitrary: g) (auto split: if_splits bind_splits intro: reachable.step)

lemma execute_ticks:
  "gs_running g \<Longrightarrow> execute api (replicate d Tick) g = Some (g\<lparr>gs_now := gs_now g + d\<rparr>)"
  by (induction d arbitrary: g) (simp_all add: enabled_def perform_def)

text \<open>The session whose coroutine an action resumes.\<close>

definition session_of :: "'db action \<Rightarrow> sid option" where
  "session_of a = (case a of
     Reader_start s \<Rightarrow> Some s | Reader_read s _ _ \<Rightarrow> Some s | Writer_resume s \<Rightarrow> Some s
   | Writer_written s _ \<Rightarrow> Some s | Watchdog_start s \<Rightarrow> Some s | Watchdog_wake s _ \<Rightarrow> Some s | _ \<Rightarrow> None)"

text \<open>How many of its three coroutines have not ended.\<close>

definition coroutines :: "session_impl \<Rightarrow> nat" where
  "coroutines x = (if si_reader x \<in> {Rd_start, Rd_read} then 1 else 0)
     + (if si_writer x \<noteq> Wr_done then 1 else 0) + (if si_watchdog x \<noteq> Wd_done then 1 else 0)"

lemma alive_coroutines: "alive x \<longleftrightarrow> coroutines x > 0"
  by (auto simp: alive_def coroutines_def)

section \<open>Timers of reachable states\<close>

lemma timer_inv_update:
  assumes "timer_inv now w"
    and "\<And>x. w_sessions w s = Some x \<Longrightarrow> si_expiry (f x) = si_expiry x
      \<and> (\<not> si_closed (f x) \<longrightarrow> si_watchdog (f x) = Wd_done \<longrightarrow> \<not> si_closed x \<and> si_watchdog x = Wd_done)"
  shows "timer_inv now (gs_world (update_session s f (g\<lparr>gs_world := w\<rparr>)))"
proof (cases "w_sessions w s")
  case (Some x)
  have "timer_inv now (set_session s (f x) w)"
    using assms(1) assms(2)[OF Some] timer_invD[OF assms(1) Some] unfolding timer_inv_def by auto
  then show ?thesis using Some by (simp add: update_session_def)
qed (use assms in \<open>simp add: update_session_def\<close>)

lemma timer_inv_open:
  assumes "timer_inv now w"
  shows "timer_inv now (open_session now ip label (w\<lparr>w_connection_count := c\<rparr>))"
  using assms by (auto simp: timer_inv_def open_session_def session_start_def new_session_def timer_expires_after_def)

lemma timer_inv_accept:
  assumes "timer_inv now w"
  shows "timer_inv now (accept_tcp now ep w)" "timer_inv now (accept_unix now w)"
  using assms timer_inv_open[OF assms]
  by (simp_all add: accept_tcp_def accept_unix_def try_open_connection_def split: option.split address.split)

lemma perform_timer:
  assumes inv: "server_inv (gs_world g)" and t: "timer_inv (gs_now g) (gs_world g)" and en: "enabled a g"
    and p: "perform api a g = Some g'"
  shows "timer_inv (gs_now g') (gs_world g')"
proof -
  have upd: "timer_inv (gs_now g) (gs_world (update_session s f g))"
    if "\<And>x. w_sessions (gs_world g) s = Some x \<Longrightarrow> si_expiry (f x) = si_expiry x
      \<and> (\<not> si_closed (f x) \<longrightarrow> si_watchdog (f x) = Wd_done \<longrightarrow> \<not> si_closed x \<and> si_watchdog x = Wd_done)" for s f
    using timer_inv_update[OF t, of s f g] that by simp
  have now: "gs_now (update_session s f g) = gs_now g" for s f by (simp add: update_session_def split: option.split)
  show ?thesis
  proof (cases "actor a")
    case (Some s)
    have "gs_now g' = gs_now g" using p Some by (cases a) (auto simp: perform_def actor_def)
    then show ?thesis using client_steps_timer[OF perform_steps[OF inv en p Some] t] by simp
  next
    case None
    show ?thesis
    proof (cases a)
      case Tick
      then show ?thesis using p timer_inv_later[OF t, of "Suc (gs_now g)"] by (auto simp: perform_def)
    next
      case (Accept r)
      then show ?thesis using p t timer_inv_accept[OF t] by (cases r) (auto simp: perform_def game_accept_def)
    next
      case (Writer_resume s)
      then show ?thesis using p now upd[of s writer_loop] by (auto simp: perform_def frame_simps)
    next
      case (Writer_written s ec)
      have "timer_inv (gs_now g) (gs_world (update_session s (writer_written ec) g))"
        by (rule upd) (auto simp: writer_written_def writer_finish_def frame_simps)
      then show ?thesis using Writer_written p now by (auto simp: perform_def)
    next
      case (Watchdog_start s)
      have "timer_inv (gs_now g) (gs_world (update_session s watchdog_loop g))"
        by (rule upd) (auto simp: watchdog_loop_def)
      then show ?thesis using Watchdog_start p now by (auto simp: perform_def)
    next
      case (Watchdog_wake s ab)
      have "timer_inv (gs_now g) (gs_world (update_session s (watchdog_wake ab (gs_now g)) g))"
        by (rule upd) (auto simp: watchdog_wake_def watchdog_loop_def frame_simps)
      then show ?thesis using Watchdog_wake p now by (auto simp: perform_def)
    next
      case Stop_signal
      have "timer_inv (gs_now g) ((gs_world g)\<lparr>w_shutdown_broadcasted := True\<rparr>)"
        by (rule timer_inv_same[OF t]) simp
      note flagged = timer_inv_deliver[OF this]
      show ?thesis using Stop_signal p flagged t broadcast_shutdown_eq[OF reading_links(1)[OF inv]]
        by (cases "w_shutdown_broadcasted (gs_world g)")
          (auto simp: perform_def on_stop_signal_def broadcast_shutdown_def[of "gs_world g"])
    next
      case (Rehash v)
      then show ?thesis using p en timer_inv_same[OF t, of v] by (auto simp: perform_def enabled_def rehashed_def)
    qed (use p t None in \<open>auto simp: perform_def actor_def intro: timer_inv_same\<close>)
  qed
qed

lemma reachable_timer: "reachable api h g \<Longrightarrow> timer_inv (gs_now g) (gs_world g)"
proof (induction rule: reachable.induct)
  case init
  show ?case by (simp add: timer_inv_def server_init_def registry_init_def)
next
  case (step g a g')
  then show ?case using perform_timer[OF reachable_inv] by blast
qed

section \<open>The end of a closed session\<close>

lemma session_close_closed: "si_closed x \<Longrightarrow> session_close x = x"
  by (simp add: session_close_def)

lemma not_own_peer: "s \<notin> peers_of w s"
  by (auto simp: peers_of_def split: option.splits)

text \<open>The reader's exit: the session is reaped and its coroutine has ended; nothing else of it changes.\<close>

lemma reader_exit_session:
  assumes inv: "server_inv w" and x: "session_at w s = Some x" "\<not> us_reaped x" "si_closed x"
  shows "\<exists>v. reader_exit s w = Some v \<and> lobby_of v = lb_logout s (lobby_of w)
    \<and> w_connection_count v = w_connection_count w - 1 \<and> 0 < w_connection_count w
    \<and> w_sessions v s = Some (x\<lparr>us_reaped := True, us_group := None, us_game := None, si_reader := Rd_done\<rparr>)"
proof -
  note sx = links_session[OF x(1)]
  let ?f = "\<lambda>t. if t \<in> peers_of w s then [disconnect_notice (us_ip_be x)] else []"
  let ?z = "x\<lparr>us_reaped := True, us_group := None, us_game := None\<rparr>"
  define c where "c = deliver ?f (closed_world s w)"
  have cl: "close_connection s w = Some c"
    unfolding c_def by (rule close_connection_eq[OF reading_links(1)[OF inv] x(1,2)])
  have sc: "w_sessions c s = Some ?z"
    using closed_world_sessions[of w s x] sx not_own_peer[of s w] by (simp add: c_def deliver_sessions)
  then have at: "session_at c s = Some ?z" using sx by (simp add: session_at_def alive_def)
  have "w_sessions w s = Some x" using sx by simp
  then have "set_session s x w = w" by (cases w) (auto simp: set_session_def)
  then have ex: "reader_exit s w = Some (set_session s (?z\<lparr>si_reader := Rd_done\<rparr>) c)"
    using x cl at by (simp add: reader_exit_def on_session_eq session_close_closed)
  moreover have "lobby_of (set_session s (?z\<lparr>si_reader := Rd_done\<rparr>) c) = lb_logout s (lobby_of w)"
    using lobby_set_session[OF sc] lobby_close[OF reading_links(1)[OF inv] x(1)] by (simp add: c_def)
  ultimately show ?thesis using close_contract[OF inv x(1,2)] cl by auto
qed

text \<open>However the pending read of a closed session completes, the reader exits.\<close>

lemma closed_reader_ends:
  assumes r: "reading w s x" and cl: "si_closed x" and len: "length b \<le> RX_SIZE - si_rxpos x"
  shows "\<exists>v y. reader_read api now ec b s w = Some v \<and> w_sessions v s = Some y \<and> lobby_of v = lb_logout s (lobby_of w)
    \<and> w_connection_count v = w_connection_count w - 1 \<and> 0 < w_connection_count w
    \<and> si_reader y = Rd_done \<and> us_reaped y \<and> si_closed y \<and> si_writer y = si_writer x
    \<and> (si_watchdog y = Wd_done \<longleftrightarrow> si_watchdog x = Wd_done)"
proof -
  note d = readingD[OF r]
  show ?thesis
  proof (cases "ec \<or> b = []")
    case True
    then show ?thesis using reader_exit_session[OF d(1,5,7) cl] cl by (auto simp: reader_read_def)
  next
    case False
    let ?f = "timer_expires_after now SERVER_USER_TIMEOUT_SECONDS \<circ> receive b"
    have "si_rxpos x + length b \<le> RX_SIZE" using len rx_length[OF r] by auto
    then have "session_wf (?f x)"
      unfolding o_apply using readingD(9)[OF r] by (intro session_wf_timer session_wf_receive)
    note u = reading_update[OF r quiet_ops(3) this]
    note du = readingD[OF u(2)]
    have fx: "si_closed (?f x)" "si_writer (?f x) = si_writer x" "si_watchdog (?f x) = Wd_done \<longleftrightarrow> si_watchdog x = Wd_done"
      "us_game (?f x) = us_game x" "us_group (?f x) = us_group x"
      using cl by (simp_all add: timer_expires_after_def frame_simps)
    have "parse_loop api s (set_session s (?f x) w) = Some (Inr (), set_session s (?f x) w)"
      using du(5) fx(1) by (subst parse_loop.simps) simp
    moreover have "reader_head s (set_session s (?f x) w) = reader_exit s (set_session s (?f x) w)"
      using du(5) fx(1) by (simp add: reader_head_def)
    ultimately have "reader_read api now ec b s w = reader_exit s (set_session s (?f x) w)"
      using False u(1) by (simp add: reader_read_def comp_def)
    moreover have "lobby_of (set_session s (?f x) w) = lobby_of w" by (rule lobby_set_session[OF d(4) fx(4,5)])
    ultimately show ?thesis
      using reader_exit_session[OF du(1,5,7) fx(1)] fx by auto
  qed
qed

text \<open>Each step of a closed session ends one of its coroutines.\<close>

lemma closed_step_ends:
  assumes inv: "server_inv (gs_world g)" and x: "w_sessions (gs_world g) s = Some x" "si_closed x"
    and a: "session_of a = Some s" "enabled a g"
  shows "\<exists>g' y. perform api a g = Some g' \<and> w_sessions (gs_world g') s = Some y \<and> si_closed y
    \<and> coroutines x = Suc (coroutines y) \<and> (si_reader x = Rd_threw \<longrightarrow> si_reader y = Rd_threw)"
proof -
  let ?w = "gs_world g"
  note en = enabled_def session_is_def
  have upd: "w_sessions (gs_world (update_session s f g)) s = Some (f x)" for f
    using x(1) by (simp add: update_session_def)
  show ?thesis
  proof (cases a)
    case (Reader_start t)
    then have st: "t = s" "si_reader x = Rd_start" using a x by (auto simp: en session_of_def)
    then have at: "session_at ?w s = Some x" "\<not> us_reaped x"
      using inv x by (auto simp: session_at_def alive_def server_inv_def pc_wf_def)
    have "reader_head s ?w = reader_exit s ?w" using at(1) x(2) by (simp add: reader_head_def)
    moreover let ?y = "x\<lparr>us_reaped := True, us_group := None, us_game := None, si_reader := Rd_done\<rparr>"
    obtain v where "reader_exit s ?w = Some v" "w_sessions v s = Some ?y"
      using reader_exit_session[OF inv at x(2)] by blast
    ultimately show ?thesis
      using Reader_start st x(2) by (intro exI[of _ "g\<lparr>gs_world := v\<rparr>"] exI[of _ ?y]) (simp add: perform_def coroutines_def)
  next
    case (Reader_read t ec b)
    then have st: "t = s" "si_reader x = Rd_read" "length b \<le> RX_SIZE - si_rxpos x"
      using a x by (auto simp: en session_of_def)
    have "reading ?w s x" using inv x st by (simp add: reading_def)
    from closed_reader_ends[OF this x(2) st(3), of api "gs_now g" ec] obtain v y where
      v: "reader_read api (gs_now g) ec b s ?w = Some v" "w_sessions v s = Some y" "si_reader y = Rd_done"
      "si_closed y" "si_writer y = si_writer x" "si_watchdog y = Wd_done \<longleftrightarrow> si_watchdog x = Wd_done" by blast
    then show ?thesis
      using Reader_read st by (intro exI[of _ "g\<lparr>gs_world := v\<rparr>"] exI[of _ y]) (simp add: perform_def coroutines_def)
  next
    case (Writer_resume t)
    then have "t = s" "si_writer x \<noteq> Wr_done" using a x by (auto simp: en session_of_def)
    then show ?thesis
      using Writer_resume upd[of writer_loop] x(2)
      by (intro exI[of _ "update_session s writer_loop g"] exI[of _ "writer_loop x"])
        (simp add: perform_def coroutines_def writer_loop_def)
  next
    case (Writer_written t ec)
    then have "t = s" "si_writer x \<noteq> Wr_done" using a x by (auto simp: en session_of_def split: writer_pc.splits)
    then show ?thesis
      using Writer_written upd[of "writer_written ec"] x(2)
      by (intro exI[of _ "update_session s (writer_written ec) g"] exI[of _ "writer_written ec x"])
        (simp add: perform_def coroutines_def writer_written_def writer_finish_def writer_loop_def session_close_closed)
  next
    case (Watchdog_start t)
    then have "t = s" "si_watchdog x \<noteq> Wd_done" using a x by (auto simp: en session_of_def)
    then show ?thesis
      using Watchdog_start upd[of watchdog_loop] x(2)
      by (intro exI[of _ "update_session s watchdog_loop g"] exI[of _ "watchdog_loop x"])
        (simp add: perform_def coroutines_def watchdog_loop_def)
  next
    case (Watchdog_wake t ab)
    then have "t = s" "si_watchdog x \<noteq> Wd_done" using a x by (auto simp: en session_of_def split: if_splits)
    then show ?thesis
      using Watchdog_wake upd[of "watchdog_wake ab (gs_now g)"] x(2)
      by (intro exI[of _ "update_session s (watchdog_wake ab (gs_now g)) g"] exI[of _ "watchdog_wake ab (gs_now g) x"])
        (simp add: perform_def coroutines_def watchdog_wake_def)
  qed (use a in \<open>simp_all add: session_of_def\<close>)
qed

text \<open>As long as one of its coroutines has not ended, one of its steps can be taken.\<close>

lemma closed_step_enabled:
  assumes inv: "server_inv (gs_world g)" and run: "gs_running g" and x: "w_sessions (gs_world g) s = Some x" "si_closed x"
    and c: "coroutines x > 0"
  shows "\<exists>a. session_of a = Some s \<and> enabled a g"
proof -
  have wf: "session_wf x" using registry_inv_session[OF reading_links(2)[OF inv] x(1)] .
  then have w: "si_writer x \<noteq> Wr_wait False" "si_watchdog x \<noteq> Wd_wait False"
    using x(2) by (auto simp: session_wf_def so.awake_inv_def)
  note en = enabled_def session_is_def session_of_def
  consider "si_reader x = Rd_start" | "si_reader x = Rd_read" | "si_writer x \<noteq> Wr_done" | "si_watchdog x \<noteq> Wd_done"
    using c by (auto simp: coroutines_def split: if_splits)
  then show ?thesis
  proof cases
    case 1
    then show ?thesis using run x by (intro exI[of _ "Reader_start s"]) (simp add: en)
  next
    case 2
    then show ?thesis using run x by (intro exI[of _ "Reader_read s True []"]) (simp add: en)
  next
    case 3
    then show ?thesis
    proof (cases "si_writer x")
      case (Wr_write b)
      then show ?thesis using run x by (intro exI[of _ "Writer_written s True"]) (simp add: en)
    next
      case (Wr_wait b)
      then show ?thesis using run x w by (intro exI[of _ "Writer_resume s"]) (simp add: en)
    qed (use run x in \<open>auto simp: en intro!: exI[of _ "Writer_resume s"]\<close>)
  next
    case 4
    then show ?thesis
    proof (cases "si_watchdog x")
      case (Wd_wait b)
      then show ?thesis using run x w by (intro exI[of _ "Watchdog_wake s True"]) (simp add: en)
    qed (use run x in \<open>auto simp: en intro!: exI[of _ "Watchdog_start s"]\<close>)
  qed
qed

section \<open>A silent client\<close>

text \<open>Waking the watchdog until it waits on the timer.\<close>

definition watchdog_waits :: "sid \<Rightarrow> session_impl \<Rightarrow> 'db action list" where
  "watchdog_waits s x = (case si_watchdog x of Wd_start \<Rightarrow> [Watchdog_start s]
     | Wd_wait True \<Rightarrow> [Watchdog_wake s True] | _ \<Rightarrow> [])"

lemma set_session_twice: "set_session s y (set_session s x w) = set_session s y w"
  by (simp add: set_session_def)

lemma execute_watchdog_waits:
  assumes "gs_running g" "w_sessions (gs_world g) s = Some x" "\<not> si_closed x" "si_watchdog x \<noteq> Wd_done"
  shows "execute api (watchdog_waits s x) g
    = Some (g\<lparr>gs_world := set_session s (x\<lparr>si_watchdog := Wd_wait False\<rparr>) (gs_world g)\<rparr>)"
proof (cases "si_watchdog x = Wd_wait False")
  case True
  then have "set_session s (x\<lparr>si_watchdog := Wd_wait False\<rparr>) (gs_world g) = gs_world g"
    using assms(2) by (cases "gs_world g") (auto simp: set_session_def)
  then show ?thesis using True by (simp add: watchdog_waits_def)
next
  case False
  then consider "si_watchdog x = Wd_start" | "si_watchdog x = Wd_wait True"
    using assms(4) by (cases "si_watchdog x") auto
  then show ?thesis
    using assms by cases (simp_all add: watchdog_waits_def enabled_def session_is_def perform_def update_session_def
        watchdog_loop_def watchdog_wake_def)
qed

lemma expired_run:
  assumes reach: "reachable api h g" and run: "gs_running g" and x: "w_sessions (gs_world g) s = Some x" "\<not> si_closed x"
  shows "execute api (watchdog_waits s x @ replicate (si_expiry x - gs_now g) Tick @ [Watchdog_wake s False]) g
    = Some (g\<lparr>gs_now := gs_now g + (si_expiry x - gs_now g), gs_world := set_session s
        ((session_close (x\<lparr>si_watchdog := Wd_wait False\<rparr>))\<lparr>si_watchdog := Wd_done\<rparr>) (gs_world g)\<rparr>)"
proof -
  let ?d = "si_expiry x - gs_now g" and ?x1 = "x\<lparr>si_watchdog := Wd_wait False\<rparr>"
  let ?g1 = "g\<lparr>gs_world := set_session s ?x1 (gs_world g)\<rparr>"
  have wd: "si_watchdog x \<noteq> Wd_done" using timer_invD(1)[OF reachable_timer[OF reach] x] .
  show ?thesis
    using execute_watchdog_waits[OF run x wd] execute_ticks[of ?g1 api ?d] run x(2)
    by (simp add: execute_append enabled_def session_is_def perform_def update_session_def watchdog_wake_def
        set_session_twice)
qed

text \<open>
  The state in which the watchdog has closed the session: nothing but the session and the clock has
  changed, and however the pending read completes, the session is logged out and its slot freed.
\<close>

lemma silent_run:
  assumes reach: "reachable api h g" and run: "gs_running g" and x: "w_sessions (gs_world g) s = Some x"
    "\<not> si_closed x" "si_reader x = Rd_read"
  shows "\<exists>g1 y. execute api (watchdog_waits s x @ replicate (si_expiry x - gs_now g) Tick @ [Watchdog_wake s False]) g
        = Some g1
    \<and> gs_now g1 = max (gs_now g) (si_expiry x) \<and> gs_world g1 = set_session s y (gs_world g)
    \<and> si_closed y \<and> si_watchdog y = Wd_done \<and> enabled (Reader_read s True []) g1
    \<and> lobby_of (gs_world g1) = lobby_of (gs_world g)
    \<and> (\<forall>ec b. enabled (Reader_read s ec b) g1 \<longrightarrow> (\<exists>g'. perform api (Reader_read s ec b) g1 = Some g'
        \<and> lobby_of (gs_world g') = lb_logout s (lobby_of (gs_world g))
        \<and> Suc (w_connection_count (gs_world g')) = w_connection_count (gs_world g)))"
proof -
  let ?y = "(session_close (x\<lparr>si_watchdog := Wd_wait False\<rparr>))\<lparr>si_watchdog := Wd_done\<rparr>"
  let ?as = "watchdog_waits s x @ replicate (si_expiry x - gs_now g) Tick @ [Watchdog_wake s False]"
  define g1 where "g1 = g\<lparr>gs_now := gs_now g + (si_expiry x - gs_now g), gs_world := set_session s ?y (gs_world g)\<rparr>"
  have e1: "execute api ?as g = Some g1" unfolding g1_def by (rule expired_run[OF reach run x(1,2)])
  have g1: "gs_running g1" "w_sessions (gs_world g1) s = Some ?y" "gs_now g1 = max (gs_now g) (si_expiry x)"
    "gs_world g1 = set_session s ?y (gs_world g)" "lobby_of (gs_world g1) = lobby_of (gs_world g)"
    "w_connection_count (gs_world g1) = w_connection_count (gs_world g)"
    using run lobby_set_session[OF x(1), of ?y] by (simp_all add: g1_def frame_simps)
  have y: "si_closed ?y" "si_watchdog ?y = Wd_done" "si_reader ?y = Rd_read" using x(3) by (simp_all add: frame_simps)
  have r: "reading (gs_world g1) s ?y"
    using reachable_inv[OF execute_reachable[OF e1 reach]] g1(2) y by (simp add: reading_def)
  have ends: "\<exists>g'. perform api (Reader_read s ec b) g1 = Some g' \<and> lobby_of (gs_world g') = lb_logout s (lobby_of (gs_world g))
      \<and> Suc (w_connection_count (gs_world g')) = w_connection_count (gs_world g)"
    if "enabled (Reader_read s ec b) g1" for ec b
  proof -
    have "length b \<le> RX_SIZE - si_rxpos ?y" using that g1(2) by (simp add: enabled_def session_is_def)
    from closed_reader_ends[OF r y(1) this, of api "gs_now g1" ec] obtain v where
      "reader_read api (gs_now g1) ec b s (gs_world g1) = Some v" "lobby_of v = lb_logout s (lobby_of (gs_world g1))"
      "w_connection_count v = w_connection_count (gs_world g1) - 1" "0 < w_connection_count (gs_world g1)" by auto
    then show ?thesis using g1 by (intro exI[of _ "g1\<lparr>gs_world := v\<rparr>"]) (simp add: perform_def)
  qed
  have "enabled (Reader_read s True []) g1" using g1 y(3) by (simp add: enabled_def session_is_def)
  then show ?thesis using e1 g1(3-5) y ends by (intro exI[of _ g1] exI[of _ ?y]) simp
qed

end
