(* ===== verification/Client_Reads.thy ===== *)
theory Client_Reads
  imports Session_Life
begin

text \<open>
  Reads that deliver one whole packet to a session that waits with an empty buffer: what a login and a
  connect packet, from the bytes on the socket to the next wait, do to the server.  With them the states
  of the examples are shown to be reachable.
\<close>

section \<open>Login\<close>

text \<open>The product code a login ends up with, given the crosslinks table.\<close>

definition linked_code :: "(bytes \<Rightarrow> bytes option) \<Rightarrow> bytes \<Rightarrow> bytes" where
  "linked_code links code = (case links (product_code_str code) of None \<Rightarrow> code
     | Some dst \<Rightarrow> if take PRODUCT_CODE_LENGTH dst = product_code_str code then code
         else data_from PRODUCT_CODE_LENGTH dst)"

lemma login_contract:
  assumes db: "sqlite_tables api ok names links" and inv: "server_inv w" and x: "session_at w s = Some x"
    and out: "us_game x = None" and h: "w_db w = Some h" "ok h" and pkt: "valid_login_packet pkt"
  shows "\<exists>w' h' p. handle_login api s pkt w = Some (Inr True, w')
    \<and> lobby_of w' = lb_login s (product_code_str (linked_code (links h) (lp_game pkt))) (lobby_of w)
    \<and> w_sessions w' = (w_sessions w)(s \<mapsto> x\<lparr>us_mac := lp_mac pkt, us_name := lp_name pkt, us_game := Some p\<rparr>)
    \<and> w_db w' = Some h' \<and> ok h' \<and> links h' = links h
    \<and> names h' (product_code_str (linked_code (links h) (lp_game pkt))) \<noteq> None
    \<and> sent w w' (\<lambda>_. [])"
proof -
  let ?code = "linked_code (links h) (lp_game pkt)"
  note links = reading_links(1)[OF inv] and sx = links_session[OF x]
  have cross: "apply_crosslink api (Some h) (lp_game pkt) = (Inr ?code, Some h)"
    using sqlite_tables.crosslink_result[OF db h(2)] by (simp add: linked_code_def split: option.split)
  obtain h' where h': "record_unknown_product api (Some h) ?code = (Inr (), Some h')" "ok h'" "links h' = links h"
    "names h' = (case names h (product_code_str ?code) of
       None \<Rightarrow> (names h)(product_code_str ?code \<mapsto> product_code_str ?code) | Some _ \<Rightarrow> names h)"
    by (rule sqlite_tables.record_result[OF db h(2)])
  let ?w = "w\<lparr>w_db := Some h'\<rparr>"
  have l: "links_inv ?w" "session_at ?w s = Some x" using links x by simp_all
  have "lobby_of (login_world s pkt ?code ?w) = lb_login s (product_code_str ?code) (lobby_of w)"
    using lobby_login[OF l out] by simp
  moreover have "handle_login api s pkt w = Some (Inr True, login_world s pkt ?code ?w)"
    using x out pkt h(1) cross h'(1) login_to_eq[OF l] by (simp add: handle_login_def)
  moreover have "w_db (login_world s pkt ?code ?w) = Some h'"
    by (auto simp: login_world_def Let_def split: option.splits)
  moreover have "names h' (product_code_str ?code) \<noteq> None" using h'(4) by (auto split: option.splits)
  moreover have "\<exists>p. w_sessions (login_world s pkt ?code ?w)
      = (w_sessions w)(s \<mapsto> x\<lparr>us_mac := lp_mac pkt, us_name := lp_name pkt, us_game := Some p\<rparr>)"
    using sx by auto
  moreover have "sent w (deliver (\<lambda>_. []) (login_world s pkt ?code ?w)) (\<lambda>_. [])"
    using sx by (intro sentI) (auto simp: session_at_def alive_def split: option.splits if_splits)
  ultimately show ?thesis using h'(2,3) by auto
qed

section \<open>Reading one packet\<close>

text \<open>The session waits for a read and has no unparsed bytes.\<close>

definition idle :: "'db world \<Rightarrow> sid \<Rightarrow> session_impl \<Rightarrow> bool" where
  "idle w s x \<longleftrightarrow> reading w s x \<and> \<not> si_closed x \<and> si_rxpos x = 0"

text \<open>The session after the bytes have arrived.\<close>

definition received :: "nat \<Rightarrow> bytes \<Rightarrow> session_impl \<Rightarrow> session_impl" where
  "received now b x = timer_expires_after now SERVER_USER_TIMEOUT_SECONDS (receive b x)"

lemma received_fields:
  "us_game (received now b x) = us_game x" "us_group (received now b x) = us_group x"
  "si_closed (received now b x) = si_closed x" "si_rxpos (received now b x) = si_rxpos x + length b"
  by (simp_all add: received_def timer_expires_after_def frame_simps) (simp add: receive_def)

lemma idle_received:
  assumes "idle w s x" "length b \<le> RX_SIZE"
  shows "on_session s (timer_expires_after now SERVER_USER_TIMEOUT_SECONDS \<circ> receive b) w
      = Some (set_session s (received now b x) w)"
    "reading (set_session s (received now b x) w) s (received now b x)"
    "si_rx (received now b x) = b @ drop (length b) (si_rx x)"
proof -
  have r: "reading w s x" and pos: "si_rxpos x = 0" using assms(1) by (simp_all add: idle_def)
  have "session_wf (received now b x)"
    unfolding received_def using readingD(9)[OF r] assms(2) pos by (intro session_wf_timer session_wf_receive) simp_all
  then show "on_session s (timer_expires_after now SERVER_USER_TIMEOUT_SECONDS \<circ> receive b) w
      = Some (set_session s (received now b x) w)"
    "reading (set_session s (received now b x) w) s (received now b x)"
    using reading_update[OF r quiet_ops(3), of now SERVER_USER_TIMEOUT_SECONDS b]
    by (simp_all add: received_def del: SERVER_USER_TIMEOUT_SECONDS_def)
  show "si_rx (received now b x) = b @ drop (length b) (si_rx x)"
    using pos by (simp add: received_def timer_expires_after_def receive_def)
qed

text \<open>With an empty buffer the parse loop stops, and the reader waits for the next read.\<close>

lemma empty_buffer_waits:
  assumes "session_at v s = Some y" "si_rxpos y = 0" "\<not> si_closed y" "si_reader y = Rd_read"
  shows "parse_loop api s v = Some (Inr (), v)" "reader_head s v = Some v"
proof -
  show "parse_loop api s v = Some (Inr (), v)" using assms by (subst parse_loop.simps) simp
  have "si_reader_update (\<lambda>_. Rd_read) y = y" "w_sessions v s = Some y"
    using assms(1,4) by (simp_all add: session_at_def split: option.splits if_splits)
  then have "on_session s (si_reader_update (\<lambda>_. Rd_read)) v = Some v"
    using assms(1) by (cases v) (auto simp: on_session_eq set_session_def)
  then show "reader_head s v = Some v" using assms(1-3) by (simp add: reader_head_def)
qed

text \<open>A packet after which the buffer is empty again.\<close>

lemma read_of_one_packet:
  assumes i: "idle w s x" and b: "b \<noteq> []" "length b \<le> RX_SIZE"
    and step: "parse_loop api s (set_session s (received now b x) w) = parse_loop api s v"
    and y: "w_sessions v s = Some y" "si_rxpos y = 0" "\<not> si_closed y" "si_reader y = Rd_read"
  shows "reader_read api now False b s w = Some v \<and> idle v s y"
proof -
  have at: "session_at v s = Some y" using y by (simp add: session_at_def alive_def)
  note e = empty_buffer_waits[OF at y(2-4)]
  have "reader_read api now False b s w = Some v"
    using b(1) idle_received(1)[OF i b(2)] step e by (simp add: reader_read_def)
  moreover have "server_inv v"
    using reader_read_safe[of w s x b api now False] calculation i b(2) by (auto simp: idle_def)
  ultimately show ?thesis using y by (simp add: idle_def reading_def)
qed

lemma read_reachable:
  assumes "reachable api h g" "gs_running g" "idle (gs_world g) s x" "length b \<le> RX_SIZE"
    "reader_read api (gs_now g) False b s (gs_world g) = Some v"
  shows "reachable api h (g\<lparr>gs_world := v\<rparr>)"
proof (rule reachable.step[OF assms(1)])
  show "enabled (Reader_read s False b) g"
    using assms(2-4) by (simp add: enabled_def session_is_def idle_def reading_def)
  show "perform api (Reader_read s False b) g = Some (g\<lparr>gs_world := v\<rparr>)" using assms(5) by (simp add: perform_def)
qed

section \<open>A login and a connect packet\<close>

lemma read_login:
  assumes db: "sqlite_tables api ok names links" and i: "idle w s x" and out: "us_game x = None"
    and h: "w_db w = Some h" "ok h"
    and pkt: "valid_login_packet pkt" "wf_login pkt" "lp_opcode pkt = opcode_byte OPCODE_LOGIN"
  shows "\<exists>v h' p y. reader_read api now False (login_bytes pkt) s w = Some v \<and> idle v s y
    \<and> us_game y = Some p \<and> us_group y = us_group x \<and> us_mac y = lp_mac pkt \<and> us_name y = lp_name pkt
    \<and> w_db v = Some h' \<and> ok h' \<and> links h' = links h \<and> (\<forall>t. t \<noteq> s \<longrightarrow> w_sessions v t = w_sessions w t)
    \<and> lobby_of v = lb_login s (product_code_str (linked_code (links h) (lp_game pkt))) (lobby_of w)"
proof -
  let ?b = "login_bytes pkt" and ?code = "product_code_str (linked_code (links h) (lp_game pkt))"
  have len: "length ?b = 144" using login_of_bytes_prefix(2)[OF pkt(2)] by simp
  then have b: "?b \<noteq> []" "length ?b \<le> RX_SIZE" by auto
  note rc = idle_received[OF i b(2), of now] and fields = received_fields[of now ?b x]
  define x1 where "x1 = received now ?b x"
  define w1 where "w1 = set_session s x1 w"
  define x2 where "x2 = consume_rx sizeof_login_packet_c2s x1"
  define w2 where "w2 = set_session s x2 w1"
  have r1: "reading w1 s x1" using rc(2) by (simp add: w1_def x1_def)
  have x1: "us_game x1 = None" "\<not> si_closed x1" "si_rxpos x1 = 144" "us_group x1 = us_group x"
    using i out fields len by (simp_all add: x1_def idle_def)
  have rx1: "si_rx x1 ! 0 = opcode_byte OPCODE_LOGIN" "login_of_bytes (si_rx x1) = pkt"
    using rc(3) login_of_bytes_prefix(1)[OF pkt(2)] pkt(3) by (simp_all add: x1_def login_bytes_def)
  note c = reading_consume[OF r1, of sizeof_login_packet_c2s, folded x2_def, folded w2_def]
  note d2 = readingD[OF c(2)]
  have x2: "us_game x2 = None" "\<not> si_closed x2" "si_rxpos x2 = 0" "us_group x2 = us_group x"
    using x1 consumed[OF r1, of sizeof_login_packet_c2s] by (simp_all add: x2_def frame_simps)
  have h2: "w_db w2 = Some h" using h by (simp add: w2_def w1_def)
  have "lobby_of w2 = lobby_of w1" using x1 x2 readingD(4)[OF r1] by (simp add: w2_def lobby_set_session)
  moreover have "w_sessions w s = Some x" using i by (simp add: idle_def reading_def)
  then have "lobby_of w1 = lobby_of w" using x1 out by (simp add: w1_def lobby_set_session)
  ultimately have lob: "lobby_of w2 = lobby_of w" by simp
  obtain v h' p where v: "handle_login api s pkt w2 = Some (Inr True, v)"
    "lobby_of v = lb_login s ?code (lobby_of w2)"
    "w_sessions v = (w_sessions w2)(s \<mapsto> x2\<lparr>us_mac := lp_mac pkt, us_name := lp_name pkt, us_game := Some p\<rparr>)"
    "w_db v = Some h'" "ok h'" "links h' = links h"
    using login_contract[OF db d2(1,5) x2(1) h2 h(2) pkt(1)] by blast
  have "parse_login api s x1 w1 = Some (Inr False, v)"
    using rx1 x1(3) c(1) v(1) by (simp add: parse_login_def)
  then have "parse_loop api s w1 = parse_loop api s v"
    using readingD(5)[OF r1] x1 by (subst parse_loop.simps) simp
  then have "reader_read api now False ?b s w = Some v
      \<and> idle v s (x2\<lparr>us_mac := lp_mac pkt, us_name := lp_name pkt, us_game := Some p\<rparr>)"
    using x2 d2(6) v(3) unfolding w1_def x1_def by (intro read_of_one_packet[OF i b]) simp_all
  moreover have "\<forall>t. t \<noteq> s \<longrightarrow> w_sessions v t = w_sessions w t"
    using v(3) by (simp add: w2_def w1_def)
  ultimately show ?thesis using v(2,4-6) lob x2 by fastforce
qed

lemma read_connect:
  assumes i: "idle w s x" and p: "us_game x = Some p" and out: "us_group x = None"
    and pkt: "length name = ADHOCCTL_GROUPNAME_LEN" "valid_group_name name"
  shows "\<exists>v y. reader_read api now False (opcode_byte OPCODE_CONNECT # name) s w = Some v \<and> idle v s y
    \<and> w_db v = w_db w \<and> (\<forall>t. t \<noteq> s \<longrightarrow> (\<exists>bs. w_sessions v t = map_option (send_all bs) (w_sessions w t)))
    \<and> lobby_of v = lb_connect s (group_name_str name) (lobby_of w)"
proof -
  let ?b = "opcode_byte OPCODE_CONNECT # name"
  have len: "length ?b = 9" using pkt(1) by simp
  then have b: "?b \<noteq> []" "length ?b \<le> RX_SIZE" by auto
  note rc = idle_received[OF i b(2), of now] and fields = received_fields[of now ?b x]
  define x1 where "x1 = received now ?b x"
  define w1 where "w1 = set_session s x1 w"
  define x2 where "x2 = consume_rx sizeof_connect_packet_c2s x1"
  define w2 where "w2 = set_session s x2 w1"
  have r1: "reading w1 s x1" using rc(2) by (simp add: w1_def x1_def)
  have x1: "us_game x1 = Some p" "\<not> si_closed x1" "si_rxpos x1 = 9" "us_group x1 = None"
    using i p out fields len by (simp_all add: x1_def idle_def)
  have rx1: "si_rx x1 ! 0 = opcode_byte OPCODE_CONNECT" "cc_group (connect_of_bytes (si_rx x1)) = name"
    using rc(3) pkt(1) by (simp_all add: x1_def connect_of_bytes_def)
  note c = reading_consume[OF r1, of sizeof_connect_packet_c2s, folded x2_def, folded w2_def]
  note d2 = readingD[OF c(2)]
  have x2: "us_game x2 = Some p" "\<not> si_closed x2" "si_rxpos x2 = 0" "us_group x2 = None"
    using x1 consumed[OF r1, of sizeof_connect_packet_c2s] by (simp_all add: x2_def frame_simps)
  have sx: "w_sessions w s = Some x" using i by (simp add: idle_def reading_def)
  have "lobby_of w2 = lobby_of w1" using x1 x2 readingD(4)[OF r1] by (simp add: w2_def lobby_set_session)
  moreover have "lobby_of w1 = lobby_of w" using x1 p out sx by (simp add: w1_def lobby_set_session)
  ultimately have lob: "lobby_of w2 = lobby_of w" by simp
  define f where "f = join_messages w2 s (members_of w2 p (group_name_str name))"
  define v where "v = deliver f (join_world s p (group_name_str name) w2)"
  have hc: "handle_connect s name w2 = Some (True, v)"
    unfolding v_def f_def by (rule handle_connect_eq[OF d2(3,5) x2(1,4) pkt(2)])
  obtain q where q: "w_sessions (join_world s p (group_name_str name) w2)
      = (w_sessions w2)(s \<mapsto> x2\<lparr>us_group := Some q\<rparr>)"
    using d2(4) by (blast intro: join_world_sessions)
  let ?y = "send_all (f s) (x2\<lparr>us_group := Some q\<rparr>)"
  have "parse_command s x1 w1 = Some (False, v)"
    using rx1 x1(3) c(1) hc by (simp add: parse_command_def Let_def close_unless_def)
  then have "parse_loop api s w1 = parse_loop api s v"
    using readingD(5)[OF r1] x1 by (subst parse_loop.simps) simp
  then have "reader_read api now False ?b s w = Some v \<and> idle v s ?y"
    using x2 d2(6) q unfolding w1_def x1_def
    by (intro read_of_one_packet[OF i b]) (simp_all add: v_def deliver_sessions frame_simps)
  moreover have "w_sessions v t = map_option (send_all (f t)) (w_sessions w t)" if "t \<noteq> s" for t
    using that q by (simp add: v_def deliver_sessions w2_def w1_def)
  moreover have "lobby_of v = lb_connect s (group_name_str name) (lobby_of w)"
    using lobby_join[OF d2(3,5) x2(1,4), of "group_name_str name"] lob by (simp add: v_def)
  moreover have "w_db v = w_db w" by (simp add: v_def w2_def w1_def)
  ultimately show ?thesis by blast
qed

end
