(* ===== verification/Game_Example.thy ===== *)
theory Game_Example
  imports Client_Reads
begin

text \<open>
  A reachable state of the server with a group of two: two clients connect over a UNIX socket, log in to
  the same game and join the same group, each packet read from its socket.
\<close>

definition ex_tables :: tables where
  "ex_tables = \<lparr>tb_productids = [], tb_crosslinks = []\<rparr>"

definition ex_waiting :: session_impl where
  "ex_waiting = (session_start 0 (new_session 0 (ascii ''unix'')))\<lparr>si_reader := Rd_read\<rparr>"

text \<open>Both have connected and wait for their first read.\<close>

definition ex_two :: "tables server" where
  "ex_two = (server_init (Some ex_tables))\<lparr>gs_world := (registry_init (Some ex_tables))
     \<lparr>w_sessions := [0 \<mapsto> ex_waiting, 1 \<mapsto> ex_waiting], w_connection_count := 2, w_next_sid := 2\<rparr>\<rparr>"

lemma ex_two_reachable: "reachable table_api (Some ex_tables) ex_two"
proof -
  let ?x = "session_start 0 (new_session 0 (ascii ''unix''))"
  have x: "si_reader ?x = Rd_start" "\<not> si_closed ?x" "si_rxpos ?x = 0"
    by (simp_all add: session_start_def new_session_def timer_expires_after_def)
  have "execute table_api [Accept Acc_unix, Accept Acc_unix, Reader_start 0, Reader_start 1]
      (server_init (Some ex_tables)) = Some ex_two"
    using x by (simp add: enabled_def session_is_def perform_def server_init_def game_accept_def accept_unix_def
        try_open_connection_def registry_init_def open_session_def set_session_def reader_head_def on_session_def
        session_at_def alive_def ex_two_def ex_waiting_def fun_upd_twist)
  then show ?thesis by (rule execute_reachable) (rule reachable.init)
qed

lemma ex_waiting_fields:
  "us_game ex_waiting = None" "us_group ex_waiting = None" "si_reader ex_waiting = Rd_read"
  "\<not> si_closed ex_waiting" "si_rxpos ex_waiting = 0"
  by (simp_all add: ex_waiting_def session_start_def new_session_def timer_expires_after_def)

lemma ex_packets:
  "lp_opcode ex_login = opcode_byte OPCODE_LOGIN" "length (login_bytes ex_login) \<le> RX_SIZE"
  "length (opcode_byte OPCODE_CONNECT # (65 # replicate 7 0)) \<le> RX_SIZE"
  using login_of_bytes_prefix(2)[OF ex_login_valid(2)] by (simp_all add: ex_login_def)

lemma ex_tables_code:
  "map_of (tb_crosslinks h) = map_of (tb_crosslinks ex_tables) \<Longrightarrow>
   product_code_str (linked_code (map_of (tb_crosslinks h)) (lp_game ex_login)) = ex_code"
  by (simp add: linked_code_def ex_login_def ex_tables_def ex_code_facts)

text \<open>Both log in.\<close>

definition ex_logged_in :: "tables server \<Rightarrow> session_impl \<Rightarrow> session_impl \<Rightarrow> bool" where
  "ex_logged_in g y z \<longleftrightarrow> reachable table_api (Some ex_tables) g \<and> gs_running g
     \<and> idle (gs_world g) 0 y \<and> us_game y \<noteq> None \<and> us_group y = None
     \<and> idle (gs_world g) 1 z \<and> us_game z \<noteq> None \<and> us_group z = None
     \<and> lobby_of (gs_world g) = lb_login 1 ex_code (lb_login 0 ex_code lb_empty)"

lemma ex_logins: "\<exists>g y z. ex_logged_in g y z"
proof -
  let ?b = "login_bytes ex_login"
  note read = read_login[OF tb.sqlite_tables_axioms _ ex_waiting_fields(1) _ TrueI ex_login_valid ex_packets(1)]
  have w0: "idle (gs_world ex_two) 0 ex_waiting" "w_sessions (gs_world ex_two) 1 = Some ex_waiting"
    "w_db (gs_world ex_two) = Some ex_tables" "gs_running ex_two" "lobby_of (gs_world ex_two) = lb_empty"
    using reachable_inv[OF ex_two_reachable] ex_waiting_fields
    by (simp_all add: idle_def reading_def ex_two_def registry_init_def server_init_def lobby_of_def lb_empty_def
        game_name_def group_name_def players_in_def gm_of_def gr_of_def fun_eq_iff)
  obtain v1 h1 p1 y1 where v1: "reader_read table_api (gs_now ex_two) False ?b 0 (gs_world ex_two) = Some v1"
    "idle v1 0 y1" "us_game y1 = Some p1" "us_group y1 = None" "w_db v1 = Some h1"
    "map_of (tb_crosslinks h1) = map_of (tb_crosslinks ex_tables)" "w_sessions v1 1 = Some ex_waiting"
    "lobby_of v1 = lb_login 0 ex_code lb_empty"
    using read[OF w0(1,3), of "gs_now ex_two"] w0(2,5) ex_tables_code[OF refl] ex_waiting_fields(2) by auto
  define g1 where "g1 = ex_two\<lparr>gs_world := v1\<rparr>"
  have r1: "reachable table_api (Some ex_tables) g1"
    unfolding g1_def by (rule read_reachable[OF ex_two_reachable w0(4,1) ex_packets(2) v1(1)])
  have i1: "idle v1 1 ex_waiting"
    using reachable_inv[OF r1] v1(7) ex_waiting_fields by (simp add: idle_def reading_def g1_def)
  obtain v2 p2 y2 where v2: "reader_read table_api (gs_now g1) False ?b 1 v1 = Some v2"
    "idle v2 1 y2" "us_game y2 = Some p2" "us_group y2 = None" "w_sessions v2 0 = w_sessions v1 0"
    "lobby_of v2 = lb_login 1 ex_code (lb_login 0 ex_code lb_empty)"
    using read[OF i1 v1(5), of "gs_now g1"] ex_tables_code[OF v1(6)] v1(8) ex_waiting_fields(2) by fastforce
  have r2: "reachable table_api (Some ex_tables) (g1\<lparr>gs_world := v2\<rparr>)"
    using w0(4) i1 v2(1) ex_packets(2) by (intro read_reachable[OF r1, of 1 ex_waiting ?b]) (simp_all add: g1_def)
  moreover have "idle v2 0 y1" using reachable_inv[OF r2] v1(2) v2(5) by (simp add: idle_def reading_def)
  ultimately have "ex_logged_in (g1\<lparr>gs_world := v2\<rparr>) y1 y2"
    using w0(4) v1(3,4) v2 by (simp add: ex_logged_in_def g1_def)
  then show ?thesis by blast
qed

text \<open>Both join the group \<open>A\<close>.\<close>

lemma ex_group_reachable:
  "\<exists>g. reachable table_api (Some ex_tables) g \<and> game_name (gs_world g) 0 = Some ex_code
    \<and> game_name (gs_world g) 1 = Some ex_code \<and> players_in (gs_world g) ex_code [65] = [0, 1]"
proof -
  let ?c = "opcode_byte OPCODE_CONNECT # (65 # replicate 7 0)"
  have name: "length (65 # replicate 7 0 :: bytes) = ADHOCCTL_GROUPNAME_LEN" by simp
  note read = read_connect[OF _ _ _ name ex_group_name(2), unfolded ex_group_name(1)]
  obtain g y z where "ex_logged_in g y z" using ex_logins by blast
  then obtain p q where l: "reachable table_api (Some ex_tables) g" "gs_running g" "idle (gs_world g) 0 y"
    "us_game y = Some p" "us_group y = None" "idle (gs_world g) 1 z" "us_game z = Some q" "us_group z = None"
    "lobby_of (gs_world g) = lb_login 1 ex_code (lb_login 0 ex_code lb_empty)"
    by (auto simp: ex_logged_in_def)
  obtain v1 bs where v1: "reader_read table_api (gs_now g) False ?c 0 (gs_world g) = Some v1"
    "w_sessions v1 1 = map_option (send_all bs) (w_sessions (gs_world g) 1)"
    "lobby_of v1 = lb_connect 0 [65] (lobby_of (gs_world g))"
    using read[OF l(3-5), of table_api "gs_now g"] by fastforce
  define g1 where "g1 = g\<lparr>gs_world := v1\<rparr>"
  have r1: "reachable table_api (Some ex_tables) g1"
    unfolding g1_def by (rule read_reachable[OF l(1-3) ex_packets(3) v1(1)])
  let ?z = "send_all bs z"
  have i1: "idle v1 1 ?z" "us_game ?z = Some q" "us_group ?z = None"
    using reachable_inv[OF r1] l(6-8) v1(2) by (simp_all add: idle_def reading_def g1_def frame_simps)
  obtain v2 where v2: "reader_read table_api (gs_now g1) False ?c 1 v1 = Some v2"
    "lobby_of v2 = lb_connect 1 [65] (lobby_of v1)"
    using read[OF i1, of table_api "gs_now g1"] by auto
  have "reachable table_api (Some ex_tables) (g1\<lparr>gs_world := v2\<rparr>)"
    using l(2) i1 v2(1) ex_packets(3) by (intro read_reachable[OF r1, of 1 ?z ?c]) (simp_all add: g1_def)
  moreover have "lobby_of v2 = lb_connect 1 [65] (lb_connect 0 [65] (lb_login 1 ex_code (lb_login 0 ex_code lb_empty)))"
    using v1(3) v2(2) l(9) by simp
  ultimately show ?thesis
    by (intro exI[of _ "g1\<lparr>gs_world := v2\<rparr>"])
      (auto simp: lb_connect_def lb_login_def lb_empty_def set_players_def dest!: lobby_ofD)
qed

end
