(* ===== verification/Game_Properties.thy ===== *)
theory Game_Properties
  imports Game_Example
begin

text \<open>
  The properties of the game server: safety of every reachable state, the contract of each handler, the
  session's queue and watchdog, logging in with and without a database, and the packet helpers.  Each is
  a short appeal to the components, with a witness on the state of Example.
\<close>

section \<open>Reachable states\<close>

text \<open>
  C1: On every reachable state of the server every step the event loop can take is free of undefined
  behaviour (no dangling pointer to a session, game or group is followed), terminates, and leads to a
  state in which the invariant holds again.
\<close>

theorem server_steps_defined:
  assumes "reachable api h g" "enabled a g"
  shows "\<exists>g'. perform api a g = Some g' \<and> server_inv (gs_world g')"
  using perform_safe[OF reachable_inv[OF assms(1)] assms(2)] .

theorem server_steps_defined_witness:
  "\<exists>g'. perform table_api (Reader_start 0) ex_server = Some g' \<and> server_inv (gs_world g')"
proof (rule server_steps_defined[OF ex_server_reachable])
  show "enabled (Reader_start 0) ex_server"
    using ex_server_session
    by (simp add: enabled_def session_is_def session_start_def) (simp add: ex_server_def game_accept_def server_init_def)
qed

text \<open>
  C2: The connection count is exact and bounded.  In every reachable state it is the number of sessions
  that have not been closed, at most SERVER\_USER\_MAXIMUM.  At that number an accepted connection is
  refused: neither accept loop changes the registry.  Below it, over a UNIX socket, IPv4 or IPv6 alike, one
  session with the next identity, fresh and with its timer running, is added and counted, with the address
  of an IPv4 peer and zero otherwise.  A TCP connection whose remote endpoint is unknown is dropped,
  uncounted.
\<close>

theorem connection_count_exact:
  assumes "reachable api h g" "w = gs_world g"
  shows "w_connection_count w = card (unreaped w) \<and> w_connection_count w \<le> SERVER_USER_MAXIMUM
   \<and> accept_tcp now None w = w
   \<and> (w_connection_count w = SERVER_USER_MAXIMUM \<longrightarrow> accept_unix now w = w \<and> accept_tcp now ep w = w)
   \<and> (w_connection_count w < SERVER_USER_MAXIMUM \<longrightarrow> w_sessions w (w_next_sid w) = None
      \<and> (let added = (\<lambda>ip label. w\<lparr>w_connection_count := w_connection_count w + 1, w_next_sid := w_next_sid w + 1,
            w_sessions := (w_sessions w)(w_next_sid w \<mapsto> session_start now (new_session ip label))\<rparr>)
         in accept_unix now w = added 0 (ascii ''unix'')
          \<and> accept_tcp now (Some (Addr_v4 b l)) w = added (of_le32 b) l
          \<and> accept_tcp now (Some (Addr_v6 l)) w = added 0 l))"
  using reachable_inv[OF assms(1)] assms(2)
  by (auto simp: server_inv_def registry_inv_def count_inv_def accept_unix_def accept_tcp_def try_open_connection_def
      open_session_def set_session_def Let_def split: option.splits)

theorem connection_count_exact_witness:
  "card (unreaped (gs_world ex_server)) = 1
    \<and> w_connection_count (accept_unix 7 (gs_world ex_server)) = 2
    \<and> map_option si_expiry (w_sessions (accept_tcp 7 (Some (Addr_v6 (ascii ''::1''))) (gs_world ex_server)) 1) = Some 22
    \<and> map_option us_ip_be (w_sessions (accept_tcp 7 (Some (Addr_v4 [1, 0, 0, 0] [])) (gs_world ex_server)) 1) = Some 1"
proof -
  let ?w = "gs_world ex_server"
  have c: "w_connection_count ?w = 1" "w_next_sid ?w = 1"
    by (simp_all add: ex_server_def server_init_def game_accept_def accept_unix_def try_open_connection_def
        registry_init_def open_session_def set_session_def)
  have max: "(1::nat) < SERVER_USER_MAXIMUM" by simp
  note exact = connection_count_exact[OF ex_server_reachable refl, unfolded Let_def c, THEN conjunct2, THEN conjunct2,
      THEN conjunct2, THEN conjunct2, rule_format, OF max]
  have "card (unreaped ?w) = 1" using connection_count_exact[OF ex_server_reachable refl] c by metis
  moreover have "w_connection_count (accept_unix 7 ?w) = 2" using exact[of 7] by simp
  moreover have "map_option si_expiry (w_sessions (accept_tcp 7 (Some (Addr_v6 (ascii ''::1''))) ?w) 1) = Some 22"
    using exact[of 7 undefined "ascii ''::1''"] by (simp add: session_start_def timer_expires_after_def)
  moreover have "of_le32 [1, 0, 0, 0] = 1" by (simp add: of_le32_def)
  then have "map_option us_ip_be (w_sessions (accept_tcp 7 (Some (Addr_v4 [1, 0, 0, 0] [])) ?w) 1) = Some 1"
    using exact[of 7 "[1, 0, 0, 0]" "[]"] by (simp add: session_start_def new_session_def timer_expires_after_def)
  ultimately show ?thesis by blast
qed

text \<open>
  C3: In every reachable state a writer that sleeps on its signal has an empty queue and an open session,
  and a watchdog that sleeps on its timer has an open session: no wake-up is ever lost.
\<close>

theorem no_lost_wakeup:
  assumes "reachable api h g" "w_sessions (gs_world g) s = Some x"
  shows "(si_writer x = Wr_wait False \<longrightarrow> si_write_queue x = [] \<and> \<not> si_closed x)
    \<and> (si_watchdog x = Wd_wait False \<longrightarrow> \<not> si_closed x)"
  using registry_inv_session[OF reading_links(2)[OF reachable_inv[OF assms(1)]] assms(2)]
  by (simp add: session_wf_def so.awake_inv_def)

theorem no_lost_wakeup_witness:
  "\<exists>g x. reachable table_api None g \<and> w_sessions (gs_world g) 0 = Some x \<and> si_writer x = Wr_wait False
    \<and> si_watchdog x = Wd_wait False \<and> si_write_queue x = [] \<and> \<not> si_closed x"
proof -
  obtain g x where g: "execute table_api [Writer_resume 0, Watchdog_start 0] ex_server = Some g"
    "w_sessions (gs_world g) 0 = Some x" "si_writer x = Wr_wait False" "si_watchdog x = Wd_wait False"
    using ex_server_session
    by (simp add: enabled_def session_is_def perform_def update_session_def ex_server_fields session_start_def
        new_session_def timer_expires_after_def writer_loop_def watchdog_loop_def)
  have r: "reachable table_api None g" by (rule execute_reachable[OF g(1) ex_server_reachable])
  show ?thesis using no_lost_wakeup[OF r g(2)] r g(2-4) by blast
qed

section \<open>The reader\<close>

text \<open>
  C4: The parse loop always ends, without undefined behaviour; if no exception escaped, the session is
  closed or fewer than 144 bytes (one login packet) remain, so the check for a full receive buffer at
  the head of the reader never closes a session.
\<close>

theorem parse_loop_ends:
  assumes "server_inv w" "w_sessions w s = Some x" "si_reader x = Rd_read"
  shows "\<exists>r v y. parse_loop api s w = Some (r, v) \<and> server_inv v \<and> session_at v s = Some y
    \<and> (r = Inr () \<longrightarrow> si_closed y \<or> si_rxpos y < sizeof_login_packet_c2s \<and> si_rxpos y < RX_SIZE)"
proof -
  have "reading w s x" using assms by (simp add: reading_def)
  from parse_loop_safe[OF this, of api] show ?thesis
    using readingD(1,5) by fastforce
qed

theorem parse_loop_ends_witness:
  "\<exists>r v y. parse_loop table_api 3 ex_world = Some (r, v) \<and> server_inv v \<and> session_at v 3 = Some y"
  using parse_loop_ends[OF ex_server_inv, of 3 "ex_session 3 None None" table_api] links_session[OF ex_sessions(4)]
  by auto

section \<open>The handlers\<close>

text \<open>
  C5: Joining a group.  A logged-in session outside every group that sends a valid group name becomes the
  last player of that group of its game, which is created if it was not there; every player that was in
  it is sent the newcomer's name, MAC and address, the newcomer is sent each player's, in join order,
  and then the MAC of the group's founder.  No other session is sent anything.
\<close>

theorem connect_joins_group:
  assumes "server_inv w" "session_at w s = Some x" "us_game x = Some p" "us_group x = None"
    "valid_group_name name" "game_name w s = Some code"
  shows "\<exists>w'. handle_connect s name w = Some (True, w')
    \<and> lobby_of w' = lb_connect s (group_name_str name) (lobby_of w)
    \<and> sent w w' (join_messages w s (players_in w code (group_name_str name)))"
  using connect_contract[OF assms] .

theorem connect_joins_group_witness:
  "\<exists>w'. handle_connect 2 (65 # replicate 7 0) ex_world = Some (True, w')
    \<and> lb_players (lobby_of w') ex_code [65] = [0, 1, 2]
    \<and> sent ex_world w' (join_messages ex_world 2 [0, 1])"
  using connect_joins_group[OF ex_server_inv ex_sessions(3) _ _ ex_group_name(2) ex_names(2), of 0]
  by (auto simp: ex_group_name ex_names lb_connect_def set_players_def dest!: lobby_ofD)

text \<open>
  C6: Leaving a group.  The session is out of its group, the order of the others is kept, and exactly the
  others are sent its address.  The group node keeps the others; when there are none it is freed and its
  name is out of the game's map.
\<close>

theorem disconnect_leaves_group:
  assumes "server_inv w" "session_at w s = Some x" "us_group x = Some q"
  shows "\<exists>w'. handle_disconnect s w = Some (True, w') \<and> lobby_of w' = lb_leave s (lobby_of w)
    \<and> group_left s q w w'
    \<and> sent w w' (\<lambda>t. if t \<in> lobby_peers (lobby_of w) s then [disconnect_notice (us_ip_be x)] else [])"
  using disconnect_contract[OF assms] .

theorem disconnect_leaves_group_witness:
  "\<exists>w' w''. handle_disconnect 0 ex_world = Some (True, w') \<and> lb_players (lobby_of w') ex_code [65] = [1]
    \<and> sent ex_world w' (\<lambda>t. if t = 1 then [disconnect_notice 0] else [])
    \<and> handle_disconnect 1 w' = Some (True, w'') \<and> w_group_heap w'' 1 = None
    \<and> (\<exists>g. w_game_heap w'' 0 = Some g \<and> map_of (gm_groups g) [65] = None)"
proof -
  let ?gr = "\<lparr>gn_name = [65], gn_game = 0, gn_players = [0, 1]\<rparr>"
  have heap: "w_group_heap ex_world 1 = Some ?gr" by (simp add: ex_world_def)
  have "lobby_peers (lobby_of ex_world) 0 = {1}" by (auto simp: lobby_peers_def ex_names)
  then obtain w' where w': "handle_disconnect 0 ex_world = Some (True, w')" "lobby_of w' = lb_leave 0 (lobby_of ex_world)"
    "group_left 0 1 ex_world w'" "sent ex_world w' (\<lambda>t. if t = 1 then [disconnect_notice 0] else [])"
    using disconnect_leaves_group[OF ex_server_inv ex_sessions(1), of 1] by (auto cong: if_cong)
  have heap': "w_group_heap w' = [1 \<mapsto> ?gr\<lparr>gn_players := [1]\<rparr>]"
    using w'(3) heap by (auto simp: group_left_def fun_eq_iff) (simp add: ex_world_def)
  have names: "players_in w' ex_code [65] = [1]" "group_name w' 1 = Some [65]"
    using w'(2) by (auto simp: lb_leave_def set_players_def ex_names ex_group_1 dest!: lobby_ofD)
  have "reading ex_world 0 (ex_session 0 (Some 0) (Some 1))" using ex_server_inv ex_sessions(1) by (simp add: reading_def ex_links)
  then have inv: "server_inv w'" using served_disconnect w'(1) by (fastforce simp: served_def reading_def)
  obtain y where y: "session_at w' 1 = Some y" using w'(4) ex_sessions(2) by (auto simp: sent_def)
  moreover from this have "us_group y = Some 1"
    using names(2) heap' links_session[OF y] by (auto simp: group_name_def split: option.splits if_splits)
  ultimately obtain w'' where "handle_disconnect 1 w' = Some (True, w'')" "group_left 1 1 w' w''"
    using disconnect_leaves_group[OF inv] by blast
  then show ?thesis using w' names heap' by (auto simp: group_left_def)
qed

text \<open>
  C7: A scan outside every group is answered with one packet per group of the session's game, carrying
  the MAC of the founder (the first player), and then SCAN\_COMPLETE; nobody else is sent anything and
  the lobby is unchanged.
\<close>

theorem scan_lists_groups:
  assumes "server_inv w" "session_at w s = Some x" "us_game x = Some p" "us_group x = None"
    "game_name w s = Some code"
  shows "\<exists>w' names. handle_scan s w = Some (True, w') \<and> lobby_of w' = lobby_of w
    \<and> distinct names \<and> set names = {n. players_in w code n \<noteq> []}
    \<and> sent w w' (\<lambda>t. if t = s then
        map (\<lambda>n. scan_notice n (mac_of w (hd (players_in w code n)))) names @ [[opcode_byte OPCODE_SCAN_COMPLETE]]
        else [])"
  using scan_contract[OF assms] .

theorem scan_lists_groups_witness:
  "\<exists>w' names. handle_scan 2 ex_world = Some (True, w') \<and> lobby_of w' = lobby_of ex_world \<and> [65 :: byte] \<in> set names"
proof -
  obtain w' names where "handle_scan 2 ex_world = Some (True, w')" "lobby_of w' = lobby_of ex_world"
    "set names = {n. players_in ex_world ex_code n \<noteq> []}"
    using scan_lists_groups[OF ex_server_inv ex_sessions(3) ex_session_fields(1,2) ex_names(2)] by blast
  moreover from this have "[65] \<in> set names" by (simp only: mem_Collect_eq ex_names) simp
  ultimately show ?thesis by blast
qed

text \<open>
  C8: A chat message of a session in a group is sent, with the session's nickname, to exactly the other
  members of its group.
\<close>

theorem chat_reaches_peers:
  assumes "server_inv w" "session_at w s = Some x" "us_group x = Some q"
  shows "\<exists>w'. handle_chat s message w = Some (True, w') \<and> lobby_of w' = lobby_of w
    \<and> sent w w' (\<lambda>t. if t \<in> lobby_peers (lobby_of w) s then [chat_notice message (us_name x)] else [])"
  using chat_contract[OF assms] .

theorem chat_reaches_peers_witness:
  "\<exists>w'. handle_chat 0 (ascii ''hi'') ex_world = Some (True, w')
    \<and> sent ex_world w' (\<lambda>t. if t = 1 then [chat_notice (ascii ''hi'') (ex_name 65)] else [])"
proof -
  have "lobby_peers (lobby_of ex_world) 0 = {1}" by (auto simp: lobby_peers_def ex_names)
  then show ?thesis
    using chat_reaches_peers[OF ex_server_inv ex_sessions(1), of 1 "ascii ''hi''"] by (auto cong: if_cong)
qed

text \<open>
  C9: Closing a connection logs the session out of its game and group, notifies exactly its peers and
  frees one connection slot; closing it again changes nothing.
\<close>

theorem close_logs_out:
  assumes "server_inv w" "session_at w s = Some x" "\<not> us_reaped x"
  shows "\<exists>w'. close_connection s w = Some w' \<and> lobby_of w' = lb_logout s (lobby_of w)
    \<and> sent w w' (\<lambda>t. if t \<in> lobby_peers (lobby_of w) s then [disconnect_notice (us_ip_be x)] else [])
    \<and> w_connection_count w' = w_connection_count w - 1 \<and> 0 < w_connection_count w
    \<and> close_connection s w' = Some w'"
  using close_contract[OF assms] .

theorem close_logs_out_witness:
  "\<exists>w'. close_connection 0 ex_world = Some w' \<and> lb_game (lobby_of w') 0 = None
    \<and> lb_players (lobby_of w') ex_code [65] = [1] \<and> w_connection_count w' = 3"
proof -
  have "w_connection_count ex_world = 4" by (simp add: ex_world_def)
  then show ?thesis
    using close_logs_out[OF ex_server_inv ex_sessions(1)]
    by (auto simp: lb_logout_def lb_leave_def set_players_def ex_names Let_def dest!: lobby_ofD)
qed

text \<open>
  C10: The shutdown message is sent once, to exactly the sessions that are in a group; a second shutdown
  broadcast does nothing.
\<close>

theorem shutdown_broadcast_once:
  assumes "server_inv w"
  shows "\<exists>w'. broadcast_shutdown w = Some w' \<and> lobby_of w' = lobby_of w \<and> w_shutdown_broadcasted w'
    \<and> sent w w' (\<lambda>t. if group_name w t \<noteq> None \<and> \<not> w_shutdown_broadcasted w then [shutdown_notice] else [])
    \<and> broadcast_shutdown w' = Some w'"
  using shutdown_contract[OF assms] .

theorem shutdown_broadcast_once_witness:
  "\<exists>w'. broadcast_shutdown ex_world = Some w' \<and> w_shutdown_broadcasted w'"
  using shutdown_broadcast_once[OF ex_server_inv] by blast

text \<open>
  C11: A session may be in a group only together with other sessions of the same game: the players of a
  group are, without repetition, the sessions whose game and group it is.
\<close>

theorem group_members_exact:
  assumes "reachable api h g"
  shows "distinct (players_in (gs_world g) c n)
    \<and> set (players_in (gs_world g) c n)
      = {s. game_name (gs_world g) s = Some c \<and> group_name (gs_world g) s = Some n}"
proof -
  have inv: "links_inv (gs_world g)" using reading_links(1)[OF reachable_inv[OF assms]] .
  show ?thesis using players_in_distinct[OF inv] players_in_iff[OF inv] by auto
qed

theorem group_members_exact_witness:
  "\<exists>g. reachable table_api (Some ex_tables) g \<and> players_in (gs_world g) ex_code [65] = [0, 1]
    \<and> {s. game_name (gs_world g) s = Some ex_code \<and> group_name (gs_world g) s = Some [65]} = {0, 1}"
proof -
  obtain g where g: "reachable table_api (Some ex_tables) g" "players_in (gs_world g) ex_code [65] = [0, 1]"
    using ex_group_reachable by blast
  then show ?thesis using group_members_exact[OF g(1), of ex_code "[65]"] by auto
qed

end
