(* ===== verification/Client_Properties.thy ===== *)
theory Client_Properties
  imports Session_Life
begin

text \<open>
  What clients can cause, whatever they send: the properties of whole reads and of whole lives of
  sessions, rather than of one packet's handler.
\<close>

section \<open>Examples\<close>

definition ex_running :: "tables server" where
  "ex_running = \<lparr>gs_world = ex_world, gs_now = 3, gs_open = True, gs_loop = True, gs_running = True\<rparr>"

lemma ex_running_world: "server_inv (gs_world ex_running)" "gs_world ex_running = ex_world"
  using ex_server_inv by (simp_all add: ex_running_def)

lemma ex_lost_enabled: "enabled (Reader_read 0 True []) ex_running"
  by (simp add: ex_running_def enabled_def session_is_def ex_world_def)

text \<open>A reachable state whose session 0 waits for a read.\<close>

definition ex_reading :: "tables server" where
  "ex_reading = update_session 0 (si_reader_update (\<lambda>_. Rd_read)) ex_server"

lemma ex_reading_facts:
  "reachable table_api None ex_reading" "gs_running ex_reading" "gs_now ex_reading = 0"
  "w_sessions (gs_world ex_reading) 0
     = Some ((session_start 0 (new_session 0 (ascii ''unix'')))\<lparr>si_reader := Rd_read\<rparr>)"
proof -
  note f = ex_server_session ex_server_fields
  have at: "session_at (gs_world ex_server) 0 = Some (session_start 0 (new_session 0 (ascii ''unix'')))"
    using f by (simp add: session_at_def session_start_def alive_def)
  have "enabled (Reader_start 0) ex_server" using f by (simp add: enabled_def session_is_def session_start_def)
  moreover have "perform table_api (Reader_start 0) ex_server = Some ex_reading"
    using f at by (simp add: perform_def ex_reading_def reader_head_def on_session_eq update_session_def
        session_start_def timer_expires_after_def new_session_def)
  ultimately show "reachable table_api None ex_reading" by (rule reachable.step[OF ex_server_reachable])
  show "gs_running ex_reading" "gs_now ex_reading = 0"
    "w_sessions (gs_world ex_reading) 0 = Some ((session_start 0 (new_session 0 (ascii ''unix'')))\<lparr>si_reader := Rd_read\<rparr>)"
    using f by (simp_all add: ex_reading_def update_session_def)
qed

section \<open>The server implements the lobby\<close>

text \<open>
  C12: Simulation.  Every step of the server, with however many packets the read delivers and whatever the
  database answers, moves the abstract lobby by a sequence of lobby operations of the one session whose
  client acted (log in, join, leave, log out, each where it is allowed); every other step, a rehash of
  the hash maps included, leaves the lobby as it is.
\<close>

theorem server_refines_lobby:
  assumes "server_inv (gs_world g)" "enabled a g" "perform api a g = Some g'"
  shows "case actor a of
      Some s \<Rightarrow> (lobby_step s)\<^sup>*\<^sup>* (lobby_of (gs_world g)) (lobby_of (gs_world g'))
    | None \<Rightarrow> lobby_of (gs_world g') = lobby_of (gs_world g)"
  using client_steps_lobby[OF perform_steps[OF assms]] perform_nobody[OF assms] by (cases "actor a") simp_all

theorem server_refines_lobby_witness:
  "\<exists>g'. perform table_api (Reader_read 0 True []) ex_running = Some g'
    \<and> (lobby_step 0)\<^sup>*\<^sup>* (lobby_of ex_world) (lobby_of (gs_world g'))"
proof -
  obtain g' where "perform table_api (Reader_read 0 True []) ex_running = Some g'"
    using perform_safe[OF ex_running_world(1) ex_lost_enabled] by blast
  then show ?thesis
    using server_refines_lobby[OF ex_running_world(1) ex_lost_enabled, of table_api g']
    by (simp add: actor_def ex_running_world(2))
qed

section \<open>Clients are isolated\<close>

text \<open>
  C13: Whatever one client sends, every other session keeps all its members and is sent packets at most;
  packets only go to sessions in a group, and, when the client is logged in, only to those of its own
  game.
\<close>

theorem clients_isolated:
  assumes "server_inv (gs_world g)" "enabled a g" "perform api a g = Some g'" "actor a = Some s"
    "w_sessions (gs_world g) s = Some x" "t \<noteq> s" "w_sessions (gs_world g) t = Some y"
  shows "\<exists>bs. w_sessions (gs_world g') t = Some (send_all bs y)
    \<and> (bs \<noteq> [] \<longrightarrow> us_group y \<noteq> None \<and> (us_game x \<noteq> None \<longrightarrow> us_game y = us_game x))"
proof -
  have "apart (gs_world g) s (gs_world g')" using client_steps_apart[OF perform_steps[OF assms(1-4)]] .
  then obtain bs where "w_sessions (gs_world g') t = map_option (send_all bs) (w_sessions (gs_world g) t)"
    "bs \<noteq> [] \<longrightarrow> gr_of (gs_world g) t \<noteq> None \<and> (gm_of (gs_world g) s \<noteq> None \<longrightarrow> gm_of (gs_world g) t = gm_of (gs_world g) s)"
    using assms(6) unfolding apart_def by blast
  then show ?thesis using assms(5,7) by (intro exI[of _ bs]) (simp add: gm_of_def gr_of_def)
qed

theorem clients_isolated_witness:
  "\<exists>g'. perform table_api (Reader_read 0 True []) ex_running = Some g'
    \<and> w_sessions (gs_world g') 2 = Some (ex_session 2 (Some 0) None)"
proof -
  obtain g' where p: "perform table_api (Reader_read 0 True []) ex_running = Some g'"
    using perform_safe[OF ex_running_world(1) ex_lost_enabled] by blast
  have s: "w_sessions (gs_world ex_running) 0 = Some (ex_session 0 (Some 0) (Some 1))"
    "w_sessions (gs_world ex_running) 2 = Some (ex_session 2 (Some 0) None)"
    by (simp_all add: ex_running_world(2) ex_world_def)
  have "actor (Reader_read 0 True [] :: tables action) = Some 0" by (simp add: actor_def)
  from clients_isolated[OF ex_running_world(1) ex_lost_enabled p this s(1) _ s(2)] p show ?thesis by auto
qed

section \<open>Sessions end\<close>

text \<open>
  C14: A closed session ends.  In every reachable state each step of one of its coroutines that can be
  taken, in whatever order and however its read, write or timer completes, ends that coroutine; as long
  as one has not ended such a step can be taken, so none sleeps for ever; and when none is left the
  registry has reaped the session, unless an exception ended its reader.
\<close>

theorem closed_session_ends:
  assumes "reachable api h g" "gs_running g" "w_sessions (gs_world g) s = Some x" "si_closed x"
  shows "(\<forall>a. session_of a = Some s \<and> enabled a g \<longrightarrow> (\<exists>g' y. perform api a g = Some g'
        \<and> w_sessions (gs_world g') s = Some y \<and> si_closed y \<and> coroutines x = Suc (coroutines y)))
    \<and> (0 < coroutines x \<longrightarrow> (\<exists>a. session_of a = Some s \<and> enabled a g))
    \<and> (coroutines x = 0 \<longrightarrow> us_reaped x \<or> si_reader x = Rd_threw)"
proof -
  note inv = reachable_inv[OF assms(1)]
  have "pc_wf x" using inv assms(3) by (simp add: server_inv_def)
  then have "coroutines x = 0 \<longrightarrow> us_reaped x \<or> si_reader x = Rd_threw"
    by (cases "si_reader x") (auto simp: coroutines_def pc_wf_def)
  then show ?thesis
    using closed_step_ends[OF inv assms(3,4)] closed_step_enabled[OF inv assms(2-4)] by metis
qed

theorem closed_session_ends_witness:
  "\<exists>g x. reachable table_api None g \<and> w_sessions (gs_world g) 0 = Some x \<and> si_closed x \<and> coroutines x = 2
    \<and> (\<exists>a. session_of a = Some 0 \<and> enabled a g)"
proof -
  let ?x = "(session_start 0 (new_session 0 (ascii ''unix'')))\<lparr>si_reader := Rd_read\<rparr>"
  let ?y = "(session_close (?x\<lparr>si_watchdog := Wd_wait False\<rparr>))\<lparr>si_watchdog := Wd_done\<rparr>"
  have "\<not> si_closed ?x" by (simp add: session_start_def new_session_def timer_expires_after_def)
  note e = expired_run[OF ex_reading_facts(1,2,4) this]
  define g where "g = ex_reading\<lparr>gs_now := gs_now ex_reading + (si_expiry ?x - gs_now ex_reading),
    gs_world := set_session 0 ?y (gs_world ex_reading)\<rparr>"
  have r: "reachable table_api None g" using execute_reachable[OF e ex_reading_facts(1)] unfolding g_def .
  have g: "gs_running g" "w_sessions (gs_world g) 0 = Some ?y" using ex_reading_facts(2) by (simp_all add: g_def)
  have y: "si_closed ?y" "coroutines ?y = 2"
    by (simp_all add: frame_simps coroutines_def session_start_def new_session_def timer_expires_after_def session_close_def)
  have "\<exists>a. session_of a = Some 0 \<and> enabled a g"
    using closed_session_ends[OF r g y(1)] y(2) by (metis zero_less_numeral)
  then show ?thesis using r g y by (intro exI[of _ g] exI[of _ ?y]) simp
qed

text \<open>
  C15: A silent client is logged out.  In every reachable state in which an open session waits for its
  client, the session's timer runs out within one timeout.  Before that no step of its watchdog closes
  it.  When it has, with the watchdog resumed and no byte read in between, the watchdog's next step closes
  the session and nothing else; and however the pending read then completes, the session is logged out of
  its game and group and its connection slot is free.
\<close>

theorem silent_client_logged_out:
  assumes "reachable api h g" "gs_running g" "w_sessions (gs_world g) s = Some x" "\<not> si_closed x" "si_reader x = Rd_read"
  shows "si_expiry x \<le> gs_now g + SERVER_USER_TIMEOUT_SECONDS
    \<and> (\<forall>ab g'. gs_now g < si_expiry x \<and> enabled (Watchdog_wake s ab) g \<and> perform api (Watchdog_wake s ab) g = Some g'
        \<longrightarrow> (\<exists>y. w_sessions (gs_world g') s = Some y \<and> \<not> si_closed y))
    \<and> (\<exists>g1 y. execute api (watchdog_waits s x @ replicate (si_expiry x - gs_now g) Tick @ [Watchdog_wake s False]) g
          = Some g1
        \<and> gs_now g1 = max (gs_now g) (si_expiry x) \<and> gs_world g1 = set_session s y (gs_world g)
        \<and> si_closed y \<and> si_watchdog y = Wd_done \<and> enabled (Reader_read s True []) g1
        \<and> lobby_of (gs_world g1) = lobby_of (gs_world g)
        \<and> (\<forall>ec b. enabled (Reader_read s ec b) g1 \<longrightarrow> (\<exists>g'. perform api (Reader_read s ec b) g1 = Some g'
            \<and> lobby_of (gs_world g') = lb_logout s (lobby_of (gs_world g))
            \<and> Suc (w_connection_count (gs_world g')) = w_connection_count (gs_world g))))"
proof (intro conjI)
  show "si_expiry x \<le> gs_now g + SERVER_USER_TIMEOUT_SECONDS"
    using timer_invD(2)[OF reachable_timer[OF assms(1)] assms(3)] .
  show "\<forall>ab g'. gs_now g < si_expiry x \<and> enabled (Watchdog_wake s ab) g \<and> perform api (Watchdog_wake s ab) g = Some g'
      \<longrightarrow> (\<exists>y. w_sessions (gs_world g') s = Some y \<and> \<not> si_closed y)"
    using assms(3,4) by (auto simp: perform_def update_session_def watchdog_wake_def watchdog_loop_def)
qed (rule silent_run[OF assms])

theorem silent_client_logged_out_witness:
  "\<exists>g1 y. execute table_api ([Watchdog_start 0] @ replicate 15 Tick @ [Watchdog_wake 0 False]) ex_reading = Some g1
    \<and> gs_now g1 = 15 \<and> w_sessions (gs_world g1) 0 = Some y \<and> si_closed y
    \<and> (\<exists>g'. perform table_api (Reader_read 0 True []) g1 = Some g' \<and> Suc (w_connection_count (gs_world g')) = 1)"
proof -
  let ?x = "(session_start 0 (new_session 0 (ascii ''unix'')))\<lparr>si_reader := Rd_read\<rparr>"
  have x: "\<not> si_closed ?x" "si_reader ?x = Rd_read" "si_expiry ?x = 15" "watchdog_waits 0 ?x = [Watchdog_start 0]"
    by (simp_all add: session_start_def new_session_def timer_expires_after_def watchdog_waits_def)
  have "w_connection_count (gs_world ex_reading) = 1"
    by (simp add: ex_reading_def update_session_def ex_server_def server_init_def game_accept_def accept_unix_def
        try_open_connection_def registry_init_def open_session_def set_session_def)
  moreover obtain g1 y where "execute table_api (watchdog_waits 0 ?x @ replicate (si_expiry ?x - gs_now ex_reading) Tick
        @ [Watchdog_wake 0 False]) ex_reading = Some g1"
    "gs_now g1 = max (gs_now ex_reading) (si_expiry ?x)" "gs_world g1 = set_session 0 y (gs_world ex_reading)" "si_closed y"
    "enabled (Reader_read 0 True []) g1"
    "\<forall>ec b. enabled (Reader_read 0 ec b) g1 \<longrightarrow> (\<exists>g'. perform table_api (Reader_read 0 ec b) g1 = Some g'
      \<and> lobby_of (gs_world g') = lb_logout 0 (lobby_of (gs_world ex_reading))
      \<and> Suc (w_connection_count (gs_world g')) = w_connection_count (gs_world ex_reading))"
    using silent_client_logged_out[OF ex_reading_facts(1,2,4) x(1,2)] by blast
  moreover from this have "\<exists>g'. perform table_api (Reader_read 0 True []) g1 = Some g'
      \<and> Suc (w_connection_count (gs_world g')) = w_connection_count (gs_world ex_reading)" by blast
  ultimately show ?thesis unfolding x(3,4) ex_reading_facts(3)
    by (intro exI[of _ g1] exI[of _ y]) simp
qed

end
