(* ===== verification/Login_Properties.thy ===== *)
theory Login_Properties
  imports Client_Reads
begin

text \<open>
  Properties of logging in, of the product database, of a session's write queue and watchdog, of the
  status snapshot and of the packet helpers.
\<close>

section \<open>Login\<close>

text \<open>
  C34: Logging in.  With a working database a valid login packet gives the session the MAC and the name of
  the packet and puts it into the game of its product code after the crosslink; nothing else of it, and no
  other session, changes, so nobody is sent anything; and the product is known to the database afterwards.
\<close>

theorem login_enters_game:
  assumes "sqlite_tables api ok names links" "server_inv w" "session_at w s = Some x"
    "us_game x = None" "w_db w = Some h" "ok h" "valid_login_packet pkt"
  shows "\<exists>w' h' p. handle_login api s pkt w = Some (Inr True, w')
    \<and> lobby_of w' = lb_login s (product_code_str (linked_code (links h) (lp_game pkt))) (lobby_of w)
    \<and> w_sessions w' = (w_sessions w)(s \<mapsto> x\<lparr>us_mac := lp_mac pkt, us_name := lp_name pkt, us_game := Some p\<rparr>)
    \<and> w_db w' = Some h' \<and> ok h' \<and> links h' = links h
    \<and> names h' (product_code_str (linked_code (links h) (lp_game pkt))) \<noteq> None
    \<and> sent w w' (\<lambda>_. [])"
  by (rule login_contract[OF assms])

theorem login_enters_game_witness:
  "\<exists>w' y. handle_login table_api 3 ex_login ex_world = Some (Inr True, w')
    \<and> game_name w' 3 = Some ex_code \<and> w_sessions w' 3 = Some y \<and> us_mac y = ex_mac 9 \<and> us_name y = ex_name 90"
proof -
  let ?t = "\<lparr>tb_productids = [(ex_code, ascii ''Game'')], tb_crosslinks = []\<rparr>"
  have db: "w_db ex_world = Some ?t" by (simp add: ex_world_def)
  have code: "linked_code (map_of (tb_crosslinks ?t)) (lp_game ex_login) = ex_code"
    by (simp add: linked_code_def ex_login_def)
  obtain w' p where "handle_login table_api 3 ex_login ex_world = Some (Inr True, w')"
    "lobby_of w' = lb_login 3 (product_code_str ex_code) (lobby_of ex_world)"
    "w_sessions w' = (w_sessions ex_world)(3 \<mapsto> (ex_session 3 None None)
      \<lparr>us_mac := lp_mac ex_login, us_name := lp_name ex_login, us_game := Some p\<rparr>)"
    using login_enters_game[OF tb.sqlite_tables_axioms ex_server_inv ex_sessions(4) ex_session_fields(1) db TrueI
      ex_login_valid(1)] code by auto
  then show ?thesis by (auto simp: lb_login_def ex_login_def ex_code_facts dest!: lobby_ofD)
qed

text \<open>
  C35: Without a database file the product database holds a null handle, and the reader that receives a
  valid login is ended by an exception: the session keeps its connection slot and is never closed by the
  reader.
\<close>

lemma handle_login_null:
  assumes db: "sqlite_tables api ok names links" and "session_at w s = Some x" "us_game x = None"
    "w_db w = None" "valid_login_packet pkt"
  shows "handle_login api s pkt w = Some (Inl Runtime_error, w)"
  using assms sqlite_tables.null_throws(1)[OF db, of "lp_game pkt"] by (simp add: handle_login_def)

theorem login_without_database_leaks:
  assumes "product_db_open False opened schema = Inr (w_db w)" "sqlite_tables api ok names links" "server_inv w"
    "w_sessions w s = Some x" "si_reader x = Rd_read" "us_game x = None" "\<not> si_closed x" "si_rxpos x = 0"
    "valid_login_packet pkt" "wf_login pkt" "lp_opcode pkt = opcode_byte OPCODE_LOGIN"
  shows "\<exists>w' y. reader_read api now False (login_bytes pkt) s w = Some w' \<and> w_sessions w' s = Some y
    \<and> si_reader y = Rd_threw \<and> \<not> us_reaped y \<and> \<not> si_closed y
    \<and> w_connection_count w' = w_connection_count w"
proof -
  have null: "w_db w = None" using assms(1) by (simp add: product_db_open_def)
  let ?b = "login_bytes pkt"
  let ?x = "timer_expires_after now SERVER_USER_TIMEOUT_SECONDS (receive ?b x)"
  let ?w = "set_session s ?x w"
  let ?y = "consume_rx sizeof_login_packet_c2s ?x"
  have r: "reading w s x" using assms by (simp add: reading_def)
  have len: "length ?b = 144" using login_of_bytes_prefix(2)[OF assms(10)] by simp
  have rx: "si_rx ?x = ?b @ drop 144 (si_rx x)" "si_rxpos ?x = 144"
    using assms(8) len by (simp_all add: timer_expires_after_def receive_def)
  have pkt: "login_of_bytes (si_rx ?x) = pkt" using login_of_bytes_prefix(1)[OF assms(10)] rx by simp
  have hd: "si_rx ?x ! 0 = opcode_byte OPCODE_LOGIN"
    using assms(11) by (simp only: rx) (simp add: login_bytes_def)
  have al: "alive ?x" "alive ?y" "session_at ?w s = Some ?x"
    using assms(5) by (simp_all add: alive_def timer_expires_after_def receive_def consume_rx_def Let_def session_at_def)
  have fields: "us_game ?x = None" "\<not> si_closed ?x" "us_game ?y = None"
    using assms(6,7) by (simp_all add: timer_expires_after_def frame_simps)
  have at: "session_at w s = Some x" using readingD(5)[OF r] .
  have login: "parse_login api s ?x ?w = Some (Inl Runtime_error, set_session s ?y ?w)"
    using hd rx(2) pkt al null fields assms(9)
    by (simp add: parse_login_def on_session_eq Let_def handle_login_null[OF assms(2), of _ s ?y])
  have loop: "parse_loop api s ?w = Some (Inl Runtime_error, set_session s ?y ?w)"
    using al(3) rx(2) fields(1,2) login by (subst parse_loop.simps) simp
  let ?v = "set_session s (si_reader_update (\<lambda>_. Rd_threw) ?y) (set_session s ?y ?w)"
  have "reader_read api now False ?b s w = Some ?v"
    using at loop al len by (auto simp: reader_read_def on_session_eq comp_def)
  moreover have "\<not> us_reaped ?y" "\<not> si_closed ?y"
    using readingD(7)[OF r] assms(7) by (simp_all add: frame_simps timer_expires_after_def)
  ultimately show ?thesis by (intro exI[of _ ?v]) auto
qed

lemma ex_db: "w_db (ex_world\<lparr>w_db := None\<rparr>) = None" "server_inv (ex_world\<lparr>w_db := None\<rparr>)"
  using ex_server_inv by (simp_all add: server_inv_def)

theorem login_without_database_leaks_witness:
  "\<exists>w' y. reader_read table_api 5 False (login_bytes ex_login) 3 (ex_world\<lparr>w_db := None\<rparr>) = Some w'
    \<and> w_sessions w' 3 = Some y \<and> si_reader y = Rd_threw \<and> w_connection_count w' = 4"
proof -
  have "w_sessions (ex_world\<lparr>w_db := None\<rparr>) 3 = Some (ex_session 3 None None)"
    "w_connection_count (ex_world\<lparr>w_db := None\<rparr>) = 4"
    using links_session[OF ex_sessions(4)] by (simp_all add: ex_world_def)
  moreover have "product_db_open False (0, None) (\<lambda>h. (0, h)) = Inr (w_db (ex_world\<lparr>w_db := None\<rparr>))"
    by (simp add: product_db_open_def)
  moreover have "lp_opcode ex_login = opcode_byte OPCODE_LOGIN" by (simp add: ex_login_def)
  ultimately show ?thesis
    using login_without_database_leaks[OF _ tb.sqlite_tables_axioms ex_db(2) _ ex_session_fields(4,1) _
        ex_session_fields(5) ex_login_valid, where now = 5]
    by fastforce
qed

section \<open>The product database\<close>

text \<open>
  Recording a product makes it known under its own code and leaves a product that is known, and every
  other product, as it was; the display name of a product is its recorded name.
\<close>

lemma record_then_display:
  assumes "sqlite_tables api ok names links" "ok h"
  shows "\<exists>h'. record_unknown_product api (Some h) code = (Inr (), Some h') \<and> ok h' \<and> links h' = links h
    \<and> (\<forall>k. display_name_for api (Some h') k = (Inr (case names h k of
        Some n \<Rightarrow> n | None \<Rightarrow> k), Some h'))
    \<and> record_unknown_product api (Some h') code = (Inr (), Some h')"
proof -
  let ?pid = "product_code_str code"
  obtain h' where h': "record_unknown_product api (Some h) code = (Inr (), Some h')" "ok h'" "links h' = links h"
    "names h' = (case names h ?pid of None \<Rightarrow> (names h)(?pid \<mapsto> ?pid) | Some _ \<Rightarrow> names h)"
    by (rule sqlite_tables.record_result[OF assms])
  have "display_name_for api (Some h') k = (Inr (case names h k of Some n \<Rightarrow> n | None \<Rightarrow> k), Some h')" for k
    using sqlite_tables.display_result[OF assms(1) h'(2), of k] h'(4) by (auto split: option.splits)
  moreover obtain n where "names h' ?pid = Some n" using h'(4) by (auto split: option.splits)
  then have "record_unknown_product api (Some h') code = (Inr (), Some h')"
    using assms(1) h'(2)
    by (simp add: record_unknown_product_def sqlite_tables.checks[OF assms(1)] Let_def
        sqlite_tables.step_known[OF assms(1)] ckd_def)
  ultimately show ?thesis using h' by blast
qed

section \<open>The watchdog\<close>

text \<open>
  The watchdog closes a session exactly when its timer has run out unreset; a wait that was cancelled
  because data arrived never closes it.
\<close>

lemma watchdog_closes_iff_expired:
  "si_closed (watchdog_wake aborted now x) \<longleftrightarrow> si_closed x \<or> (\<not> aborted \<and> si_expiry x \<le> now)"
  by (auto simp: watchdog_wake_def watchdog_loop_def frame_simps)

end
