(* ===== verification/Packet_Properties.thy ===== *)
theory Packet_Properties
  imports Login_Properties Game_Example
begin

text \<open>Properties of the packets and of the names the server accepts and shows.\<close>

text \<open>
  Copying the receive buffer into a login packet recovers the packet a client sent, whatever follows
  it in the buffer, and reading and writing a packet takes exactly its 144 bytes.
\<close>

lemma login_packet_roundtrip:
  assumes "wf_login p"
  shows "login_of_bytes (login_bytes p @ rest) = p \<and> length (login_bytes p) = sizeof_login_packet_c2s
    \<and> login_bytes (login_of_bytes (login_bytes p @ rest)) = take sizeof_login_packet_c2s (login_bytes p @ rest)"
  using login_of_bytes_prefix(1)[OF assms, of rest] login_of_bytes_prefix(2)[OF assms] login_bytes_of_bytes[of "login_bytes p @ rest"] by simp

text \<open>
  A login packet is accepted exactly when its product code is nine upper-case letters and digits, its
  MAC is neither the broadcast nor the zero address, and its nickname is not empty.
\<close>

lemma valid_login_iff:
  assumes "wf_login p"
  shows "valid_login_packet p \<longleftrightarrow> (\<forall>c\<in>set (lp_game p). is_upper c \<or> is_digit c)
    \<and> \<not> (\<forall>c\<in>set (lp_mac p). c = 0xFF) \<and> \<not> (\<forall>c\<in>set (lp_mac p). c = 0) \<and> nickname_str (lp_name p) \<noteq> []"
proof -
  have len: "length (lp_game p) = 9" "length (lp_mac p) = 6" "length (lp_name p) = 128"
    using assms by (simp_all add: wf_login_def)
  have mac: "lp_mac p = replicate 6 v \<longleftrightarrow> (\<forall>c\<in>set (lp_mac p). c = v)" for v
    using len(2) by (auto simp: list_eq_iff_nth_eq set_conv_nth)
  obtain c cs where n: "lp_name p = c # cs" using len(3) by (cases "lp_name p") auto
  have "hd (lp_name p) \<noteq> 0 \<longleftrightarrow> nickname_str (lp_name p) \<noteq> []"
    using len(3) by (simp add: nickname_str_eq n)
  then show ?thesis
    using valid_product_code_iff[OF len(1)] by (simp add: valid_login_packet_def mac)
qed

text \<open>
  A group name is accepted exactly when the bytes before its first zero are letters and digits, and
  the name field of a scan answer, read as a group name, gives the name back.
\<close>

lemma group_name_roundtrip:
  assumes "length g = ADHOCCTL_GROUPNAME_LEN" "valid_group_name g"
  shows "group_name_str (data_from ADHOCCTL_GROUPNAME_LEN (group_name_str g)) = group_name_str g
    \<and> valid_group_name (data_from ADHOCCTL_GROUPNAME_LEN (group_name_str g))"
proof -
  have len: "length g = 8" using assms(1) by simp
  have nz: "0 \<notin> set (group_name_str g)" using group_name_str_nonzero[OF len] .
  have eq: "group_name_str (data_from 8 (group_name_str g)) = group_name_str g"
    using takeWhile_data_from[OF length_group_name_str nz] by (simp add: group_name_str_eq)
  have "length (data_from 8 (group_name_str g)) = 8" by simp
  then show ?thesis
    using eq valid_group_name_iff[OF len] valid_group_name_iff[of "data_from 8 (group_name_str g)"] assms(2) by simp
qed




end
