(* ===== verification/Relay_Directory.thy ===== *)
theory Relay_Directory
  imports Prelude
begin

text \<open>
  \<^verbatim>\<open>relay_directory\<close> of \<^verbatim>\<open>source/relay_server.hpp\<close> and
  \<^verbatim>\<open>.cpp\<close>: the ports each MAC address has open on the relay, as two sorted vectors per
  MAC.  The locale \<open>port_directory\<close> is the interface the relay sessions rely on, a set of
  (MAC, kind, port) triples; the interpretation shows that the sorted vectors implement it.
\<close>

section \<open>The class\<close>

datatype port_kind = Pdp | Ptp

text \<open>An enumeration: quantifiers over it compute.\<close>

instantiation port_kind :: enum
begin

definition "enum_port_kind = [Pdp, Ptp]"
definition "enum_all_port_kind P \<longleftrightarrow> P Pdp \<and> P Ptp"
definition "enum_ex_port_kind P \<longleftrightarrow> P Pdp \<or> P Ptp"

instance
proof
  have univ: "UNIV = {Pdp, Ptp}" using port_kind.exhaust by auto
  show "(UNIV :: port_kind set) = set enum_class.enum" by (simp add: univ enum_port_kind_def)
  show "distinct (enum_class.enum :: port_kind list)" by (simp add: enum_port_kind_def)
  show "enum_class.enum_all P \<longleftrightarrow> Ball UNIV P" "enum_class.enum_ex P \<longleftrightarrow> Bex UNIV P" for P :: "port_kind \<Rightarrow> bool"
    by (simp_all add: univ enum_all_port_kind_def enum_ex_port_kind_def)
qed

end

lemma port_kind_quant: "(\<forall>k. P k) \<longleftrightarrow> P Pdp \<and> P Ptp" "(\<exists>k. P k) \<longleftrightarrow> P Pdp \<or> P Ptp"
  using enum_all_port_kind_def[of P] enum_ex_port_kind_def[of P] by simp_all

record port_set =
  ps_pdp :: "u16 list"
  ps_ptp :: "u16 list"

type_synonym directory = "(bytes, port_set) umap"

text \<open>\<^verbatim>\<open>auto& ports = kind == pdp ? set.pdp : set.ptp\<close>, read and assigned.\<close>

fun ports_of :: "port_kind \<Rightarrow> port_set \<Rightarrow> u16 list" where
  "ports_of Pdp s = ps_pdp s"
| "ports_of Ptp s = ps_ptp s"

fun set_ports :: "port_kind \<Rightarrow> u16 list \<Rightarrow> port_set \<Rightarrow> port_set" where
  "set_ports Pdp ps s = s\<lparr>ps_pdp := ps\<rparr>"
| "set_ports Ptp ps s = s\<lparr>ps_ptp := ps\<rparr>"

definition empty_port_set :: port_set where
  "empty_port_set = \<lparr>ps_pdp = [], ps_ptp = []\<rparr>"

text \<open>\<^verbatim>\<open>std::lower_bound\<close> on a sorted vector, as an index.\<close>

definition lower_bound :: "u16 list \<Rightarrow> u16 \<Rightarrow> nat" where
  "lower_bound ps port = length (takeWhile (\<lambda>p. p < port) ps)"

text \<open>\<^verbatim>\<open>ports.insert(it, port)\<close>.\<close>

definition insert_at :: "nat \<Rightarrow> 'a \<Rightarrow> 'a list \<Rightarrow> 'a list" where
  "insert_at i x xs = take i xs @ x # drop i xs"

definition dir_add :: "bytes \<Rightarrow> port_kind \<Rightarrow> u16 \<Rightarrow> directory \<Rightarrow> bool \<times> directory" where
  "dir_add mac kind port d =
     (let d = um_emplace mac empty_port_set d;
          s = (case map_of d mac of Some s \<Rightarrow> s | None \<Rightarrow> empty_port_set);
          ports = ports_of kind s;
          it = lower_bound ports port
      in if it \<noteq> length ports \<and> ports ! it = port then (False, d)
         else (True, AList.update mac (set_ports kind (insert_at it port ports) s) d))"

definition dir_remove :: "bytes \<Rightarrow> port_kind \<Rightarrow> u16 \<Rightarrow> directory \<Rightarrow> directory" where
  "dir_remove mac kind port d = (case map_of d mac of
     None \<Rightarrow> d
   | Some s \<Rightarrow>
       let s = set_ports kind (remove1 port (ports_of kind s)) s;
           d = AList.update mac s d
       in if ps_pdp s = [] \<and> ps_ptp s = [] then um_erase mac d else d)"

definition dir_find :: "bytes \<Rightarrow> directory \<Rightarrow> port_set option" where
  "dir_find mac d = map_of d mac"

section \<open>The interface\<close>

locale port_directory =
  fixes ok :: "'d \<Rightarrow> bool" and has :: "'d \<Rightarrow> (bytes \<times> port_kind \<times> u16) set"
    and add :: "bytes \<Rightarrow> port_kind \<Rightarrow> u16 \<Rightarrow> 'd \<Rightarrow> bool \<times> 'd"
    and remove :: "bytes \<Rightarrow> port_kind \<Rightarrow> u16 \<Rightarrow> 'd \<Rightarrow> 'd" and none :: 'd
  assumes none_ok: "ok none" and none_has: "has none = {}"
    and add_ok: "ok d \<Longrightarrow> ok (snd (add m k p d))"
    and add_result: "ok d \<Longrightarrow> fst (add m k p d) \<longleftrightarrow> (m, k, p) \<notin> has d"
    and add_has: "ok d \<Longrightarrow> has (snd (add m k p d)) = insert (m, k, p) (has d)"
    and remove_ok: "ok d \<Longrightarrow> ok (remove m k p d)"
    and remove_has: "ok d \<Longrightarrow> has (remove m k p d) = has d - {(m, k, p)}"
begin

lemma add_twice: "ok d \<Longrightarrow> \<not> fst (add m k p (snd (add m k p d)))"
  by (simp add: add_result add_ok add_has)

lemma add_remove: "ok d \<Longrightarrow> (m, k, p) \<notin> has d \<Longrightarrow> has (remove m k p (snd (add m k p d))) = has d"
  by (simp add: remove_has add_ok add_has)

text \<open>A refused add does not change the set; undoing it anyway loses the first owner's entry.\<close>

lemma refused_then_removed:
  assumes "ok d" "add m k p d = (False, d')"
  shows "(m, k, p) \<in> has d" "(m, k, p) \<notin> has (remove m k p d')"
proof -
  show "(m, k, p) \<in> has d" using add_result[OF assms(1), of m k p] assms(2) by simp
  have "ok d'" using add_ok[OF assms(1), of m k p] assms(2) by simp
  then show "(m, k, p) \<notin> has (remove m k p d')" by (simp add: remove_has)
qed

end

section \<open>The sorted vectors implement the interface\<close>

definition port_set_wf :: "port_set \<Rightarrow> bool" where
  "port_set_wf s \<longleftrightarrow> sorted (ps_pdp s) \<and> distinct (ps_pdp s) \<and> sorted (ps_ptp s) \<and> distinct (ps_ptp s)
     \<and> (ps_pdp s \<noteq> [] \<or> ps_ptp s \<noteq> [])"

definition dir_wf :: "directory \<Rightarrow> bool" where
  "dir_wf d \<longleftrightarrow> um_wf d \<and> (\<forall>m s. map_of d m = Some s \<longrightarrow> port_set_wf s)"

definition dir_has :: "directory \<Rightarrow> (bytes \<times> port_kind \<times> u16) set" where
  "dir_has d = {(m, k, p). \<exists>s. map_of d m = Some s \<and> p \<in> set (ports_of k s)}"

lemma dir_wfD: "dir_wf d \<Longrightarrow> um_wf d" "dir_wf d \<Longrightarrow> map_of d m = Some s \<Longrightarrow> port_set_wf s"
  by (auto simp: dir_wf_def)

lemma ports_of_set_ports [simp]: "ports_of k' (set_ports k ps s) = (if k' = k then ps else ports_of k' s)"
  by (cases k; cases k') simp_all

lemma port_set_wf_ports:
  "port_set_wf s \<longleftrightarrow> (\<forall>k. sorted (ports_of k s) \<and> distinct (ports_of k s)) \<and> (\<exists>k. ports_of k s \<noteq> [])"
  by (auto simp: port_set_wf_def port_kind_quant)

lemma in_ports_of: "p \<in> set (ports_of k s) \<longleftrightarrow> k = Pdp \<and> p \<in> set (ps_pdp s) \<or> k = Ptp \<and> p \<in> set (ps_ptp s)"
  by (cases k) simp_all

lemma empty_ports [simp]: "ports_of k empty_port_set = []"
  by (cases k) (simp_all add: empty_port_set_def)

lemma both_empty_iff: "ps_pdp s = [] \<and> ps_ptp s = [] \<longleftrightarrow> (\<forall>k. ports_of k s = [])"
  by (simp add: port_kind_quant)

lemma lower_bound_split:
  assumes "sorted ps"
  obtains l r where "ps = l @ r" "lower_bound ps port = length l" "\<forall>p\<in>set l. p < port" "\<forall>p\<in>set r. port \<le> p"
proof -
  let ?l = "takeWhile (\<lambda>p. p < port) ps" and ?r = "dropWhile (\<lambda>p. p < port) ps"
  have "\<forall>p\<in>set ?r. port \<le> p"
  proof (cases ?r)
    case Nil
    show ?thesis unfolding Nil by simp
  next
    case (Cons x xs)
    then have "\<not> x < port" by (metis hd_dropWhile list.distinct(1) list.sel(1))
    moreover have "sorted ?r" using assms by (metis sorted_append takeWhile_dropWhile_id)
    ultimately show ?thesis using Cons by auto
  qed
  then show ?thesis
    using that[of ?l ?r] by (auto simp: lower_bound_def dest: set_takeWhileD)
qed

text \<open>The test of \<^verbatim>\<open>add\<close> finds exactly the ports that are there.\<close>

lemma lower_bound_found:
  assumes "sorted ps"
  shows "lower_bound ps port \<noteq> length ps \<and> ps ! lower_bound ps port = port \<longleftrightarrow> port \<in> set ps"
proof -
  obtain l r where ps: "ps = l @ r" "lower_bound ps port = length l" "\<forall>p\<in>set l. p < port" "\<forall>p\<in>set r. port \<le> p"
    by (rule lower_bound_split[OF assms])
  show ?thesis
  proof (cases r)
    case Nil
    then show ?thesis using ps by auto
  next
    case (Cons x xs)
    have "port \<in> set ps \<longrightarrow> x = port"
      using ps assms Cons by (auto simp: sorted_append)
    then show ?thesis using ps Cons by auto
  qed
qed

lemma insert_lower_bound:
  assumes "sorted ps" "distinct ps" "port \<notin> set ps"
  shows "sorted (insert_at (lower_bound ps port) port ps)" "distinct (insert_at (lower_bound ps port) port ps)"
    "set (insert_at (lower_bound ps port) port ps) = insert port (set ps)"
proof -
  obtain l r where ps: "ps = l @ r" "lower_bound ps port = length l" "\<forall>p\<in>set l. p < port" "\<forall>p\<in>set r. port \<le> p"
    by (rule lower_bound_split[OF assms(1)])
  then have eq: "insert_at (lower_bound ps port) port ps = l @ port # r" by (simp add: insert_at_def)
  show "sorted (insert_at (lower_bound ps port) port ps)"
    unfolding eq using assms(1) ps by (fastforce simp: sorted_append)
  show "distinct (insert_at (lower_bound ps port) port ps)" "set (insert_at (lower_bound ps port) port ps) = insert port (set ps)"
    unfolding eq using assms ps(1) by auto
qed

text \<open>What \<^verbatim>\<open>add\<close> works on: the entry of the MAC, possibly a new one.\<close>

definition entry :: "bytes \<Rightarrow> directory \<Rightarrow> port_set" where
  "entry m d = (case map_of d m of Some s \<Rightarrow> s | None \<Rightarrow> empty_port_set)"

lemma entry_sorted: "dir_wf d \<Longrightarrow> sorted (ports_of k (entry m d)) \<and> distinct (ports_of k (entry m d))"
  using dir_wfD(2)[of d m] by (auto simp: entry_def port_set_wf_ports split: option.splits)

lemma entry_has: "(m, k, p) \<in> dir_has d \<longleftrightarrow> p \<in> set (ports_of k (entry m d))"
  by (auto simp: dir_has_def entry_def split: option.splits)

lemma dir_add_eq:
  assumes "dir_wf d"
  shows "dir_add m k p d = (if (m, k, p) \<in> dir_has d then (False, d)
    else (True, AList.update m (set_ports k (insert_at (lower_bound (ports_of k (entry m d)) p) p
      (ports_of k (entry m d))) (entry m d)) (um_emplace m empty_port_set d)))"
proof -
  have s: "(case map_of (um_emplace m empty_port_set d) m of Some s \<Rightarrow> s | None \<Rightarrow> empty_port_set) = entry m d"
    by (auto simp: entry_def map_of_um_emplace split: option.splits)
  have "um_emplace m empty_port_set d = d" if "(m, k, p) \<in> dir_has d"
    using that by (auto simp: dir_has_def um_emplace_def)
  then show ?thesis
    using lower_bound_found[OF conjunct1[OF entry_sorted[OF assms]], of k m p]
    by (simp add: dir_add_def s Let_def entry_has)
qed

lemma dir_add_map:
  assumes "dir_wf d" "(m, k, p) \<notin> dir_has d"
  shows "map_of (snd (dir_add m k p d)) = (map_of d)(m \<mapsto> set_ports k
    (insert_at (lower_bound (ports_of k (entry m d)) p) p (ports_of k (entry m d))) (entry m d))"
  using assms(2) unfolding dir_add_eq[OF assms(1)]
  by (auto simp: update_conv' map_of_um_emplace split: option.splits)

lemma um_wf_update: "um_wf d \<Longrightarrow> um_wf (AList.update k v d)"
  by (rule distinct_update)

lemma dir_add_wf: "dir_wf d \<Longrightarrow> dir_wf (snd (dir_add m k p d))"
proof (cases "(m, k, p) \<in> dir_has d")
  case True
  then show "dir_wf d \<Longrightarrow> ?thesis" by (simp add: dir_add_eq)
next
  case False
  assume wf: "dir_wf d"
  note e = entry_sorted[OF wf] and ins = insert_lower_bound[OF _ _ False[unfolded entry_has]]
  have "port_set_wf (set_ports k (insert_at (lower_bound (ports_of k (entry m d)) p) p (ports_of k (entry m d))) (entry m d))"
    using e[of _ m] ins by (auto simp: port_set_wf_ports insert_at_def intro!: exI[of _ k])
  moreover have "um_wf (snd (dir_add m k p d))"
    using wf False by (simp add: dir_add_eq dir_wfD(1) um_wf_update)
  ultimately show ?thesis
    using dir_add_map[OF wf False] wf by (simp add: dir_wf_def)
qed

lemma dir_add_has: "dir_wf d \<Longrightarrow> dir_has (snd (dir_add m k p d)) = insert (m, k, p) (dir_has d)"
proof (cases "(m, k, p) \<in> dir_has d")
  case True
  then show "dir_wf d \<Longrightarrow> ?thesis" by (auto simp: dir_add_eq)
next
  case False
  assume wf: "dir_wf d"
  have "entry m' (snd (dir_add m k p d)) = (if m' = m then set_ports k
    (insert_at (lower_bound (ports_of k (entry m d)) p) p (ports_of k (entry m d))) (entry m d) else entry m' d)" for m'
    by (simp add: entry_def dir_add_map[OF wf False])
  then show ?thesis
    using insert_lower_bound(3)[OF _ _ False[unfolded entry_has]] entry_sorted[OF wf, of k m]
    by (auto simp: entry_has split: if_splits)
qed

lemma dir_remove_facts:
  assumes "dir_wf d"
  shows "dir_wf (dir_remove m k p d)" "dir_has (dir_remove m k p d) = dir_has d - {(m, k, p)}"
proof -
  have goal: "dir_wf (dir_remove m k p d) \<and> dir_has (dir_remove m k p d) = dir_has d - {(m, k, p)}"
  proof (cases "map_of d m")
    case None
    then show ?thesis using assms by (auto simp: dir_remove_def dir_has_def)
  next
    case (Some s)
    let ?s = "set_ports k (remove1 p (ports_of k s)) s"
    have wf: "port_set_wf s" using dir_wfD(2)[OF assms Some] .
    have ports: "sorted (ports_of k' ?s) \<and> distinct (ports_of k' ?s)" for k'
      using wf by (auto simp: port_set_wf_ports sorted_remove1)
    have set: "set (ports_of k' ?s) = set (ports_of k' s) - (if k' = k then {p} else {})" for k'
      using wf by (auto simp: port_set_wf_ports set_remove1_eq)
    have eq: "map_of (dir_remove m k p d) = (map_of d)(m := if \<forall>k'. ports_of k' ?s = [] then None else Some ?s)"
      unfolding dir_remove_def Some
      by (auto simp: Let_def both_empty_iff map_of_um_erase update_conv' simp del: ports_of_set_ports)
    have "um_wf (dir_remove m k p d)"
      using assms Some by (simp add: dir_remove_def Let_def dir_wfD(1) um_wf_update)
    then have "dir_wf (dir_remove m k p d)"
      using assms ports by (auto simp: dir_wf_def eq port_set_wf_ports)
    moreover have "entry m' (dir_remove m k p d) = (if m' = m then
        (if \<forall>k'. ports_of k' ?s = [] then empty_port_set else ?s) else entry m' d)" for m'
      by (simp add: entry_def eq)
    then have "(m', k', q) \<in> dir_has (dir_remove m k p d) \<longleftrightarrow>
        (if m' = m then q \<in> set (ports_of k' ?s) else (m', k', q) \<in> dir_has d)" for m' k' q
      unfolding entry_has by (cases "\<forall>k'. ports_of k' ?s = []") auto
    then have "dir_has (dir_remove m k p d) = dir_has d - {(m, k, p)}"
      using set Some by (auto simp: dir_has_def split: if_splits)
    ultimately show ?thesis by blast
  qed
  then show "dir_wf (dir_remove m k p d)" "dir_has (dir_remove m k p d) = dir_has d - {(m, k, p)}" by blast+
qed

interpretation pd: port_directory dir_wf dir_has dir_add dir_remove "[]"
proof unfold_locales
  show "dir_wf []" "dir_has [] = {}" by (simp_all add: dir_wf_def dir_has_def)
  show "dir_wf d \<Longrightarrow> dir_wf (snd (dir_add m k p d))" for d m k p by (rule dir_add_wf)
  show "dir_wf d \<Longrightarrow> fst (dir_add m k p d) \<longleftrightarrow> (m, k, p) \<notin> dir_has d" for d m k p by (simp add: dir_add_eq)
  show "dir_wf d \<Longrightarrow> dir_has (snd (dir_add m k p d)) = insert (m, k, p) (dir_has d)" for d m k p
    by (rule dir_add_has)
  show "dir_wf d \<Longrightarrow> dir_wf (dir_remove m k p d)" for d m k p by (rule dir_remove_facts(1))
  show "dir_wf d \<Longrightarrow> dir_has (dir_remove m k p d) = dir_has d - {(m, k, p)}" for d m k p
    by (rule dir_remove_facts(2))
qed

end
