(* ===== verification/Relay_Names.thy ===== *)
theory Relay_Names
  imports Prelude
begin

text \<open>
  The session names of the relay (\<^verbatim>\<open>get_listen_session_name\<close> and its siblings in
  \<^verbatim>\<open>source/relay_server.cpp\<close>), which key its session map.  They are text made by the
  fmt library, whose conversions are a parameter: \<open>fmt_laws\<close> states what fmt documents of the three
  it is used for, and \<open>std_fmt\<close> is a concrete instance.
\<close>

section \<open>fmt as a parameter\<close>

text \<open>
  \<^verbatim>\<open>{:02x}\<close> of a byte, \<^verbatim>\<open>{}\<close> of an unsigned integer, and
  \<^verbatim>\<open>{:04x}\<close> of a byte (used by the status page).
\<close>

record fmt_api =
  fm_hex2 :: "byte \<Rightarrow> bytes"
  fm_dec :: "nat \<Rightarrow> bytes"
  fm_hex4 :: "byte \<Rightarrow> bytes"

locale fmt_laws =
  fixes F :: fmt_api
  assumes hex2_length: "length (fm_hex2 F b) = 2"
    and hex2_inj: "fm_hex2 F b = fm_hex2 F c \<Longrightarrow> b = c"
    and dec_digits: "c \<in> set (fm_dec F n) \<Longrightarrow> 48 \<le> c \<and> c \<le> 57"
    and dec_inj: "fm_dec F n = fm_dec F m \<Longrightarrow> n = m"
    and hex4_text: "fm_hex4 F b = [48, 48] @ fm_hex2 F b"

section \<open>The names\<close>

text \<open>\<^verbatim>\<open>struct mac\<close>: the text of the first six bytes.\<close>

definition mac_text :: "fmt_api \<Rightarrow> bytes \<Rightarrow> bytes" where
  "mac_text F m = fm_hex2 F (m ! 0) @ [58] @ fm_hex2 F (m ! 1) @ [58] @ fm_hex2 F (m ! 2) @ [58]
     @ fm_hex2 F (m ! 3) @ [58] @ fm_hex2 F (m ! 4) @ [58] @ fm_hex2 F (m ! 5)"

definition get_listen_session_name :: "fmt_api \<Rightarrow> bytes \<Rightarrow> u16 \<Rightarrow> bytes" where
  "get_listen_session_name F m port = ascii ''PTP_LISTEN '' @ mac_text F m @ [32] @ fm_dec F (unat port)"

definition get_connect_session_name :: "fmt_api \<Rightarrow> bytes \<Rightarrow> u16 \<Rightarrow> bytes \<Rightarrow> u16 \<Rightarrow> bytes" where
  "get_connect_session_name F src sport dst dport = ascii ''PTP_CONNECT '' @ mac_text F src @ [32]
     @ fm_dec F (unat sport) @ [32] @ mac_text F dst @ [32] @ fm_dec F (unat dport)"

definition get_accept_session_name :: "fmt_api \<Rightarrow> bytes \<Rightarrow> u16 \<Rightarrow> bytes \<Rightarrow> u16 \<Rightarrow> bytes" where
  "get_accept_session_name F src sport dst dport = ascii ''PTP_ACCEPT '' @ mac_text F src @ [32]
     @ fm_dec F (unat sport) @ [32] @ mac_text F dst @ [32] @ fm_dec F (unat dport)"

definition get_pdp_session_name :: "fmt_api \<Rightarrow> bytes \<Rightarrow> u16 \<Rightarrow> bytes" where
  "get_pdp_session_name F m port = ascii ''PDP '' @ mac_text F m @ [32] @ fm_dec F (unat port)"

lemmas session_name_defs = get_listen_session_name_def get_connect_session_name_def
  get_accept_session_name_def get_pdp_session_name_def

section \<open>Names determine what they name\<close>

context fmt_laws begin

lemma mac_text_length: "length (mac_text F m) = 17"
  by (simp add: mac_text_def hex2_length)

lemma mac_text_inj:
  assumes "mac_text F m = mac_text F n"
  shows "take 6 m = take 6 n \<or> length m < 6 \<or> length n < 6"
proof -
  have "\<forall>i<6. m ! i = n ! i"
    using assms hex2_inj
    by (auto simp: mac_text_def hex2_length less_Suc_eq numeral_eq_Suc)
  then show ?thesis by (auto simp: list_eq_iff_nth_eq)
qed

lemma mac_eq_iff: "length m = 6 \<Longrightarrow> length n = 6 \<Longrightarrow> mac_text F m = mac_text F n \<longleftrightarrow> m = n"
  using mac_text_inj[of m n] by auto

lemma dec_no_space: "32 \<notin> set (fm_dec F n)"
proof
  assume "32 \<in> set (fm_dec F n)"
  from dec_digits[OF this] have "(48 :: byte) \<le> 32" by simp
  then show False by simp
qed

lemma dec_split:
  "fm_dec F n @ [32] @ xs = fm_dec F m @ [32] @ ys \<longleftrightarrow> n = m \<and> xs = ys"
proof
  assume eq: "fm_dec F n @ [32] @ xs = fm_dec F m @ [32] @ ys"
  have t: "takeWhile (\<lambda>c. c \<noteq> 32) (fm_dec F k @ [32] @ zs) = fm_dec F k" for k zs
    using dec_no_space[of k] by (subst takeWhile_append2) auto
  have "fm_dec F n = fm_dec F m" using arg_cong[OF eq, of "takeWhile (\<lambda>c. c \<noteq> 32)"] unfolding t .
  then show "n = m \<and> xs = ys" using eq dec_inj by auto
qed auto

lemma mac_split: "mac_text F m @ xs = mac_text F n @ ys \<longleftrightarrow> mac_text F m = mac_text F n \<and> xs = ys"
  by (simp add: mac_text_length)

lemma name_inj:
  assumes "length m = 6" "length n = 6" "length m' = 6" "length n' = 6"
  shows "get_listen_session_name F m p = get_listen_session_name F n q \<longleftrightarrow> m = n \<and> p = q"
    "get_pdp_session_name F m p = get_pdp_session_name F n q \<longleftrightarrow> m = n \<and> p = q"
    "get_connect_session_name F m p m' p' = get_connect_session_name F n q n' q'
      \<longleftrightarrow> m = n \<and> p = q \<and> m' = n' \<and> p' = q'"
    "get_accept_session_name F m p m' p' = get_accept_session_name F n q n' q'
      \<longleftrightarrow> m = n \<and> p = q \<and> m' = n' \<and> p' = q'"
  unfolding session_name_defs
  using assms dec_inj dec_split
  by (auto simp only: append_assoc same_append_eq mac_split mac_eq_iff word_unat_eq_iff[symmetric] append_Cons
      append_Nil list.inject dec_split[simplified] dest: dec_inj)

end

lemma name_kinds [simp]:
  "get_listen_session_name F a p \<noteq> get_connect_session_name F b q c r"
  "get_connect_session_name F b q c r \<noteq> get_listen_session_name F a p"
  "get_listen_session_name F a p \<noteq> get_accept_session_name F b q c r"
  "get_accept_session_name F b q c r \<noteq> get_listen_session_name F a p"
  "get_listen_session_name F a p \<noteq> get_pdp_session_name F b q"
  "get_pdp_session_name F b q \<noteq> get_listen_session_name F a p"
  "get_connect_session_name F b q c r \<noteq> get_accept_session_name F b' q' c' r'"
  "get_accept_session_name F b' q' c' r' \<noteq> get_connect_session_name F b q c r"
  "get_connect_session_name F b q c r \<noteq> get_pdp_session_name F a p"
  "get_pdp_session_name F a p \<noteq> get_connect_session_name F b q c r"
  "get_accept_session_name F b q c r \<noteq> get_pdp_session_name F a p"
  "get_pdp_session_name F a p \<noteq> get_accept_session_name F b q c r"
  by (simp_all add: session_name_defs)

section \<open>An instance of the laws\<close>

definition hex_digit :: "byte \<Rightarrow> byte" where
  "hex_digit n = (if n < 10 then 48 + n else 87 + n)"

definition hex2 :: "byte \<Rightarrow> bytes" where
  "hex2 b = [hex_digit (drop_bit 4 b), hex_digit (b AND 15)]"

fun dec_text :: "nat \<Rightarrow> bytes" where
  "dec_text n = (if n < 10 then [of_nat (48 + n)] else dec_text (n div 10) @ [of_nat (48 + n mod 10)])"

declare dec_text.simps [simp del]

definition std_fmt :: fmt_api where
  "std_fmt = \<lparr>fm_hex2 = hex2, fm_dec = dec_text, fm_hex4 = (\<lambda>b. [48, 48] @ hex2 b)\<rparr>"

text \<open>Reading a decimal text back.\<close>

definition dec_value :: "bytes \<Rightarrow> nat" where
  "dec_value s = foldl (\<lambda>acc c. acc * 10 + (unat c - 48)) 0 s"

lemma digit_value: "d < 10 \<Longrightarrow> unat (of_nat (48 + d) :: byte) = 48 + d"
  by (simp add: unat_of_nat del: of_nat_add)

lemma dec_value_text: "dec_value (dec_text n) = n"
proof (induction n rule: dec_text.induct)
  case (1 n)
  show ?case
  proof (cases "n < 10")
    case True
    then show ?thesis
      using digit_value[OF True] by (subst dec_text.simps) (simp add: dec_value_def del: of_nat_add)
  next
    case False
    then have "dec_value (dec_text n) = dec_value (dec_text (n div 10)) * 10 + n mod 10"
      using digit_value[of "n mod 10"]
      by (subst dec_text.simps) (simp add: dec_value_def del: of_nat_add)
    then show ?thesis using 1 False by simp
  qed
qed

lemma dec_text_digits: "c \<in> set (dec_text n) \<Longrightarrow> 48 \<le> c \<and> c \<le> 57"
proof (induction n rule: dec_text.induct)
  case (1 n)
  have digit: "48 \<le> (of_nat (48 + d) :: byte) \<and> (of_nat (48 + d) :: byte) \<le> 57" if "d < 10" for d
    using digit_value[OF that] that by (simp add: word_le_nat_alt del: of_nat_add)
  show ?case
  proof (cases "n < 10")
    case True
    then show ?thesis using 1(2) digit by (simp add: dec_text.simps[of n] del: of_nat_add)
  next
    case False
    then show ?thesis using 1 digit[of "n mod 10"] by (auto simp: dec_text.simps[of n] simp del: of_nat_add)
  qed
qed

lemma hex_digit_value:
  assumes "n < 16"
  shows "unat (hex_digit n) = (if unat n < 10 then 48 + unat n else 87 + unat n)"
proof -
  have n: "unat n < 16" using assms by (simp add: word_less_nat_alt)
  then show ?thesis by (auto simp: hex_digit_def unat_word_ariths word_less_nat_alt)
qed

lemma hex_digit_inj:
  assumes "n < 16" "m < 16" "hex_digit n = hex_digit m"
  shows "n = m"
proof -
  have "unat n = unat m"
    using hex_digit_value[OF assms(1)] hex_digit_value[OF assms(2)] assms by (auto simp: word_less_nat_alt split: if_splits)
  then show ?thesis by (simp add: word_unat_eq_iff)
qed

lemma nibbles_bound: "drop_bit 4 (b :: byte) < 16" "(b :: byte) AND 15 < 16"
proof -
  have "unat b < 256" using unsigned_less[of b] by simp
  moreover have "unat (drop_bit 4 b) = unat b div 16"
    unfolding unat_drop_bit_eq by (simp add: drop_bit_eq_div)
  ultimately have "unat (drop_bit 4 b) < 16" by simp
  then show "drop_bit 4 b < 16" by (simp add: word_less_nat_alt)
  have "b AND 15 \<le> 15" by (simp add: word_and_le1)
  then show "b AND 15 < 16" by (simp add: word_le_nat_alt word_less_nat_alt)
qed

lemma nibbles: "push_bit 4 (drop_bit 4 b) OR (b AND 15) = (b :: byte)"
proof (rule bit_word_eqI)
  fix i assume "i < LENGTH(8)"
  moreover have "bit (15 :: byte) i \<longleftrightarrow> i < 8 \<and> i < 4"
    using bit_mask_iff[of 4 i, where 'a = byte] by (auto simp: mask_eq_exp_minus_1 bit_simps)
  ultimately show "bit (push_bit 4 (drop_bit 4 b) OR (b AND 15)) i = bit b i"
    by (auto simp: bit_simps)
qed

lemma hex2_inj:
  assumes "hex2 b = hex2 c"
  shows "b = c"
proof -
  have hi: "drop_bit 4 b = drop_bit 4 c"
    using assms hex_digit_inj[OF nibbles_bound(1) nibbles_bound(1)] by (simp add: hex2_def)
  have lo: "b AND 15 = c AND 15"
    using assms hex_digit_inj[OF nibbles_bound(2) nibbles_bound(2)] by (simp add: hex2_def)
  have "b = push_bit 4 (drop_bit 4 b) OR (b AND 15)" by (rule nibbles[symmetric])
  also have "\<dots> = push_bit 4 (drop_bit 4 c) OR (c AND 15)" by (simp only: hi lo)
  also have "\<dots> = c" by (rule nibbles)
  finally show ?thesis .
qed

lemma dec_text_inj: "dec_text n = dec_text m \<Longrightarrow> n = m"
  by (metis dec_value_text)

interpretation sf: fmt_laws std_fmt
proof unfold_locales
  show "length (fm_hex2 std_fmt b) = 2" for b by (simp add: std_fmt_def hex2_def)
  show "fm_hex2 std_fmt b = fm_hex2 std_fmt c \<Longrightarrow> b = c" for b c by (simp add: std_fmt_def hex2_inj)
  show "c \<in> set (fm_dec std_fmt n) \<Longrightarrow> 48 \<le> c \<and> c \<le> 57" for c n by (simp add: std_fmt_def dec_text_digits)
  show "fm_dec std_fmt n = fm_dec std_fmt m \<Longrightarrow> n = m" for n m by (simp add: std_fmt_def dec_text_inj)
  show "fm_hex4 std_fmt b = [48, 48] @ fm_hex2 std_fmt b" for b by (simp add: std_fmt_def)
qed

end
