(* ===== verification/Relay_Session.thy ===== *)
theory Relay_Session
  imports Outbox Relay_Directory Relay_Names
begin

text \<open>
  The relay of \<^verbatim>\<open>source/relay_server.cpp\<close>: the packed structs, the members and operations
  of \<^verbatim>\<open>relay_session\<close>, of \<^verbatim>\<open>relay_registry\<close>, and every step of the session
  coroutine between two awaits.  Sessions are shared pointers, kept alive by whoever holds one, so
  following one is always defined; the model never frees a session object.

  Time is in milliseconds.  The timer of the write queue is its waiter, as in Session; of the timers of a
  session that is being established the expiry is kept, one member since it waits on one at a time; a timer in \<^verbatim>\<open>waiters_\<close> is named by the session that waits on it.
\<close>

section \<open>Packed structs\<close>

definition AEMU_POSTOFFICE_PDP_BLOCK_MAX :: nat where [simp]: "AEMU_POSTOFFICE_PDP_BLOCK_MAX = 10 * 1024"
definition AEMU_POSTOFFICE_PTP_BLOCK_MAX :: nat where [simp]: "AEMU_POSTOFFICE_PTP_BLOCK_MAX = 50 * 1024"
definition session_init_time_limit_ms :: nat where [simp]: "session_init_time_limit_ms = 5000"
definition data_queue_size_limit_byte :: nat where [simp]: "data_queue_size_limit_byte = 512000"
definition connect_time_limit_ms :: nat where [simp]: "connect_time_limit_ms = 5000"
definition max_num_sessions :: nat where [simp]: "max_num_sessions = 5000"

text \<open>\<^verbatim>\<open>enum aemu_postoffice_init_type\<close>, whose values a client sends.\<close>

definition AEMU_POSTOFFICE_INIT_PDP :: u32 where [simp]: "AEMU_POSTOFFICE_INIT_PDP = 0"
definition AEMU_POSTOFFICE_INIT_PTP_LISTEN :: u32 where [simp]: "AEMU_POSTOFFICE_INIT_PTP_LISTEN = 1"
definition AEMU_POSTOFFICE_INIT_PTP_CONNECT :: u32 where [simp]: "AEMU_POSTOFFICE_INIT_PTP_CONNECT = 2"
definition AEMU_POSTOFFICE_INIT_PTP_ACCEPT :: u32 where [simp]: "AEMU_POSTOFFICE_INIT_PTP_ACCEPT = 3"

record postoffice_init =
  pi_type :: u32
  pi_src_addr :: bytes
  pi_sport :: u16
  pi_dst_addr :: bytes
  pi_dport :: u16

definition init_bytes :: "postoffice_init \<Rightarrow> bytes" where
  "init_bytes i = le32 (pi_type i) @ pi_src_addr i @ le16 (pi_sport i) @ pi_dst_addr i @ le16 (pi_dport i)"

definition init_of_bytes :: "bytes \<Rightarrow> postoffice_init" where
  "init_of_bytes b = \<lparr>pi_type = of_le32 (take 4 b), pi_src_addr = take 8 (drop 4 b),
     pi_sport = of_le16 (take 2 (drop 12 b)), pi_dst_addr = take 8 (drop 14 b),
     pi_dport = of_le16 (take 2 (drop 22 b))\<rparr>"

record postoffice_pdp =
  pp_addr :: bytes
  pp_port :: u16
  pp_size :: u32

definition pdp_bytes :: "postoffice_pdp \<Rightarrow> bytes" where
  "pdp_bytes p = pp_addr p @ le16 (pp_port p) @ le32 (pp_size p)"

definition pdp_of_bytes :: "bytes \<Rightarrow> postoffice_pdp" where
  "pdp_of_bytes b = \<lparr>pp_addr = take 8 b, pp_port = of_le16 (take 2 (drop 8 b)),
     pp_size = of_le32 (take 4 (drop 10 b))\<rparr>"

definition ptp_connect_bytes :: "bytes \<Rightarrow> u16 \<Rightarrow> bytes" where
  "ptp_connect_bytes addr port = addr @ le16 port"

text \<open>\<^verbatim>\<open>to_str\<close>: a MAC in a zeroed eight-byte field.\<close>

definition to_str :: "bytes \<Rightarrow> bytes" where
  "to_str m = take 6 m @ [0, 0]"

section \<open>A relay session\<close>

type_synonym rid = nat

datatype session_mode = PDP | PTP_LISTEN | PTP_CONNECT | PTP_ACCEPT

text \<open>
  The coroutine \<^verbatim>\<open>run\<close>: not started, reading the init block, waiting for the listen session
  (the flag: its timer was cancelled), waiting on \<^verbatim>\<open>bond_signal_\<close> (likewise), reading what a
  listening client sends, reading a block header, reading the payload of a PDP block for a target, or of
  a PTP block, or finished.
\<close>

datatype run_pc = Run_start | Run_init | Run_await postoffice_init bool | Run_bond bool | Run_listen
  | Run_header | Run_payload bytes u32 | Run_data u32 | Run_done

record relay_session =
  rs_client_addr :: bytes
  rs_create_time :: nat
  rs_expiry :: nat
  rs_identifier :: bytes
  rs_mode :: session_mode
  rs_from_mac :: bytes
  rs_from_port :: u16
  rs_to_mac :: bytes
  rs_to_port :: u16
  rs_write_queue :: "bytes list"
  rs_queued_bytes :: nat
  rs_established :: bool
  rs_closed :: bool
  rs_registered :: bool
  rs_superseded :: bool
  rs_finished :: bool
  rs_run :: run_pc
  rs_writer :: writer_pc

definition new_relay_session :: "bytes \<Rightarrow> nat \<Rightarrow> relay_session" where
  "new_relay_session addr now = \<lparr>rs_client_addr = addr, rs_create_time = now, rs_expiry = 0, rs_identifier = [],
     rs_mode = PDP, rs_from_mac = replicate 6 0, rs_from_port = 0, rs_to_mac = replicate 6 0, rs_to_port = 0,
     rs_write_queue = [], rs_queued_bytes = 0, rs_established = False, rs_closed = False,
     rs_registered = False, rs_superseded = False, rs_finished = False, rs_run = Run_start,
     rs_writer = Wr_start\<rparr>"

fun wake_bond :: "run_pc \<Rightarrow> run_pc" where
  "wake_bond (Run_bond _) = Run_bond True"
| "wake_bond pc = pc"

definition relay_close :: "relay_session \<Rightarrow> relay_session" where
  "relay_close x = (if rs_closed x then x
     else x\<lparr>rs_closed := True, rs_writer := wake (rs_writer x), rs_run := wake_bond (rs_run x)\<rparr>)"

definition queue_send :: "bytes \<Rightarrow> relay_session \<Rightarrow> relay_session" where
  "queue_send b x =
     (if rs_closed x \<or> b = [] then x
      else let x = x\<lparr>rs_queued_bytes := rs_queued_bytes x + length b,
                     rs_write_queue := rs_write_queue x @ [b], rs_writer := wake (rs_writer x)\<rparr>
           in if rs_queued_bytes x \<ge> data_queue_size_limit_byte then relay_close x else x)"

definition bond :: "relay_session \<Rightarrow> relay_session" where
  "bond x = x\<lparr>rs_established := True, rs_run := wake_bond (rs_run x)\<rparr>"

definition supersede :: "relay_session \<Rightarrow> relay_session" where
  "supersede x = relay_close (x\<lparr>rs_superseded := True\<rparr>)"

definition set_endpoints :: "bytes \<Rightarrow> u16 \<Rightarrow> bytes option \<Rightarrow> u16 \<Rightarrow> relay_session \<Rightarrow> relay_session" where
  "set_endpoints from_mac from_port to_mac to_port x =
     (let x = x\<lparr>rs_from_mac := take 6 from_mac, rs_from_port := from_port\<rparr>;
          x = (case to_mac of None \<Rightarrow> x | Some m \<Rightarrow> x\<lparr>rs_to_mac := take 6 m\<rparr>)
      in x\<lparr>rs_to_port := to_port\<rparr>)"

definition remaining_init_time :: "nat \<Rightarrow> relay_session \<Rightarrow> nat" where
  "remaining_init_time now x = (let elapsed = now - rs_create_time x in
     if elapsed \<ge> session_init_time_limit_ms then 0 else session_init_time_limit_ms - elapsed)"

definition get_identifier :: "fmt_api \<Rightarrow> relay_session \<Rightarrow> bytes" where
  "get_identifier F x = (case rs_mode x of
     PDP \<Rightarrow> get_pdp_session_name F (rs_from_mac x) (rs_from_port x)
   | PTP_LISTEN \<Rightarrow> get_listen_session_name F (rs_from_mac x) (rs_from_port x)
   | PTP_CONNECT \<Rightarrow> get_connect_session_name F (rs_from_mac x) (rs_from_port x) (rs_to_mac x) (rs_to_port x)
   | PTP_ACCEPT \<Rightarrow> get_accept_session_name F (rs_from_mac x) (rs_from_port x) (rs_to_mac x) (rs_to_port x))"

definition get_peer_identifier :: "fmt_api \<Rightarrow> relay_session \<Rightarrow> bytes" where
  "get_peer_identifier F x = (case rs_mode x of
     PDP \<Rightarrow> []
   | PTP_LISTEN \<Rightarrow> []
   | PTP_CONNECT \<Rightarrow> get_accept_session_name F (rs_to_mac x) (rs_to_port x) (rs_from_mac x) (rs_from_port x)
   | PTP_ACCEPT \<Rightarrow> get_connect_session_name F (rs_to_mac x) (rs_to_port x) (rs_from_mac x) (rs_from_port x))"

definition directory_port_kind :: "relay_session \<Rightarrow> port_kind" where
  "directory_port_kind x = (if rs_mode x = PDP then Pdp else Ptp)"

section \<open>The writer\<close>

definition relay_writer_loop :: "relay_session \<Rightarrow> relay_session" where
  "relay_writer_loop x =
     (if rs_closed x then x\<lparr>rs_writer := Wr_done\<rparr>
      else case rs_write_queue x of
        [] \<Rightarrow> x\<lparr>rs_writer := Wr_wait False\<rparr>
      | b # q \<Rightarrow> x\<lparr>rs_write_queue := q, rs_queued_bytes := rs_queued_bytes x - length b,
                   rs_writer := Wr_write b\<rparr>)"

definition relay_writer_finish :: "relay_session \<Rightarrow> relay_session" where
  "relay_writer_finish x = x\<lparr>rs_writer := Wr_done\<rparr>"

definition relay_writer_written :: "bool \<Rightarrow> relay_session \<Rightarrow> relay_session" where
  "relay_writer_written ec x =
     (if ec then relay_writer_finish (relay_close x) else relay_writer_loop x)"

interpretation ro: outbox rs_write_queue rs_closed rs_writer queue_send relay_close
    relay_writer_loop relay_writer_finish
proof -
  have [simp]: "wake (wake pc) = wake pc" for pc by (cases pc) simp_all
  show "outbox rs_write_queue rs_closed rs_writer queue_send relay_close relay_writer_loop relay_writer_finish"
    by unfold_locales
      (auto simp: queue_send_def relay_close_def relay_writer_loop_def relay_writer_finish_def Let_def
        split: list.splits)
qed

section \<open>The registry\<close>

record relay =
  rl_sess :: "rid \<Rightarrow> relay_session"
  rl_next :: rid
  rl_names :: "(bytes, rid) umap"
  rl_waiters :: "(bytes, rid list) umap"
  rl_active :: nat
  rl_dir :: directory
  rl_now :: nat

definition relay_init :: relay where
  "relay_init = \<lparr>rl_sess = (\<lambda>_. new_relay_session [] 0), rl_next = 0, rl_names = [], rl_waiters = [],
     rl_active = 0, rl_dir = [], rl_now = 0\<rparr>"

definition on_relay :: "rid \<Rightarrow> (relay_session \<Rightarrow> relay_session) \<Rightarrow> relay \<Rightarrow> relay" where
  "on_relay s f r = r\<lparr>rl_sess := (rl_sess r)(s := f (rl_sess r s))\<rparr>"

definition reg_find :: "bytes \<Rightarrow> relay \<Rightarrow> rid option" where
  "reg_find name r = map_of (rl_names r) name"

text \<open>\<^verbatim>\<open>timer->cancel()\<close> on the timer a session waits on in \<^verbatim>\<open>await_session\<close>.\<close>

definition cancel_wait :: "relay_session \<Rightarrow> relay_session" where
  "cancel_wait x = (case rs_run x of Run_await i _ \<Rightarrow> x\<lparr>rs_run := Run_await i True\<rparr> | _ \<Rightarrow> x)"

definition reg_add :: "bytes \<Rightarrow> rid \<Rightarrow> relay \<Rightarrow> relay" where
  "reg_add name s r =
     (let r = (case reg_find name r of None \<Rightarrow> r | Some t \<Rightarrow> on_relay t supersede r);
          r = r\<lparr>rl_names := AList.update name s (rl_names r)\<rparr>
      in case map_of (rl_waiters r) name of
           None \<Rightarrow> r
         | Some ws \<Rightarrow> (fold (\<lambda>t. on_relay t cancel_wait) ws r)\<lparr>rl_waiters := um_erase name (rl_waiters r)\<rparr>)"

definition reg_remove :: "bytes \<Rightarrow> rid \<Rightarrow> relay \<Rightarrow> relay" where
  "reg_remove name who r =
     (if reg_find name r = Some who then r\<lparr>rl_names := um_erase name (rl_names r)\<rparr> else r)"

definition inc_active :: "relay \<Rightarrow> relay" where
  "inc_active r = r\<lparr>rl_active := rl_active r + 1\<rparr>"

definition dec_active :: "relay \<Rightarrow> relay" where
  "dec_active r = (if rl_active r > 0 then r\<lparr>rl_active := rl_active r - 1\<rparr> else r)"

definition add_waiter :: "bytes \<Rightarrow> rid \<Rightarrow> relay \<Rightarrow> relay" where
  "add_waiter name s r = r\<lparr>rl_waiters := AList.update name
     ((case map_of (rl_waiters r) name of None \<Rightarrow> [] | Some ws \<Rightarrow> ws) @ [s]) (rl_waiters r)\<rparr>"

definition remove_waiter :: "bytes \<Rightarrow> rid \<Rightarrow> relay \<Rightarrow> relay" where
  "remove_waiter name s r = (case map_of (rl_waiters r) name of
     None \<Rightarrow> r
   | Some ws \<Rightarrow> let ws = filter (\<lambda>t. t \<noteq> s) ws in
       r\<lparr>rl_waiters := (if ws = [] then um_erase name (rl_waiters r)
                       else AList.update name ws (rl_waiters r))\<rparr>)"

text \<open>\<^verbatim>\<open>expires_after\<close> of the timer a session is about to wait on.\<close>

definition expires_after :: "rid \<Rightarrow> nat \<Rightarrow> relay \<Rightarrow> relay" where
  "expires_after s ms r = on_relay s (\<lambda>x. x\<lparr>rs_expiry := rl_now r + ms\<rparr>) r"

text \<open>
  \<^verbatim>\<open>await_session\<close> up to its await: the session it returns at once, or none, or the
  relay in which the caller waits (\<open>pc\<close>); and what it returns after the await.
\<close>

definition await_session :: "bytes \<Rightarrow> nat \<Rightarrow> run_pc \<Rightarrow> rid \<Rightarrow> relay \<Rightarrow> rid option + relay" where
  "await_session name timeout pc s r = (case reg_find name r of
     Some found \<Rightarrow> Inl (Some found)
   | None \<Rightarrow>
     if timeout = 0 then Inl None
     else Inr (on_relay s (\<lambda>x. x\<lparr>rs_run := pc\<rparr>) (add_waiter name s (expires_after s timeout r))))"

definition await_session_resume :: "bytes \<Rightarrow> rid \<Rightarrow> relay \<Rightarrow> rid option \<times> relay" where
  "await_session_resume name s r = (let r = remove_waiter name s r in (reg_find name r, r))"

section \<open>The steps of a session\<close>

definition finish :: "fmt_api \<Rightarrow> rid \<Rightarrow> relay \<Rightarrow> relay" where
  "finish F s r = (let x = rl_sess r s in
     if rs_finished x then r
     else let
       r = on_relay s (\<lambda>x. relay_close (x\<lparr>rs_finished := True\<rparr>)) r;
       r = (if rs_registered x
            then r\<lparr>rl_dir := dir_remove (rs_from_mac x) (directory_port_kind x) (rs_from_port x) (rl_dir r)\<rparr>
            else r);
       r = (if rs_registered x \<and> \<not> rs_superseded x then
              let r = reg_remove (rs_identifier x) s r; peer = get_peer_identifier F x in
              if peer \<noteq> [] then (case reg_find peer r of None \<Rightarrow> r | Some p \<Rightarrow> on_relay p relay_close r) else r
            else r)
     in dec_active r)"

text \<open>\<^verbatim>\<open>finish(); co_return;\<close>\<close>

definition run_end :: "fmt_api \<Rightarrow> rid \<Rightarrow> relay \<Rightarrow> relay" where
  "run_end F s r = on_relay s (\<lambda>x. x\<lparr>rs_run := Run_done\<rparr>) (finish F s r)"

definition register_self :: "fmt_api \<Rightarrow> rid \<Rightarrow> relay \<Rightarrow> bool \<times> relay" where
  "register_self F s r = (let
     r = on_relay s (\<lambda>x. x\<lparr>rs_identifier := get_identifier F x\<rparr>) r;
     r = reg_add (rs_identifier (rl_sess r s)) s r;
     r = on_relay s (\<lambda>x. x\<lparr>rs_registered := True\<rparr>) r;
     x = rl_sess r s
   in case dir_add (rs_from_mac x) (directory_port_kind x) (rs_from_port x) (rl_dir r) of
        (added, d) \<Rightarrow> (added, r\<lparr>rl_dir := d\<rparr>))"

text \<open>The head of the loop of \<^verbatim>\<open>forward_loop\<close>, up to its read; a closed session finishes.\<close>

definition forward_head :: "fmt_api \<Rightarrow> rid \<Rightarrow> relay \<Rightarrow> relay" where
  "forward_head F s r = (let x = rl_sess r s in
     if rs_closed x then run_end F s r
     else on_relay s (\<lambda>x. x\<lparr>rs_run := if rs_mode x = PTP_LISTEN then Run_listen else Run_header\<rparr>) r)"

text \<open>\<^verbatim>\<open>if (!register_self(self)) { finish(); co_return; }\<close>, for PDP and listen sessions.\<close>

definition establish_self :: "fmt_api \<Rightarrow> rid \<Rightarrow> relay \<Rightarrow> relay" where
  "establish_self F s r = (case register_self F s r of
     (True, r) \<Rightarrow> forward_head F s r
   | (False, r) \<Rightarrow> run_end F s r)"

text \<open>\<^verbatim>\<open>establish_connect\<close> after the listen session was found.\<close>

definition connect_to :: "fmt_api \<Rightarrow> rid \<Rightarrow> rid \<Rightarrow> relay \<Rightarrow> relay" where
  "connect_to F s listen r = (case register_self F s (on_relay s (\<lambda>x. x\<lparr>rs_established := False\<rparr>) r) of
     (False, r) \<Rightarrow> run_end F s r
   | (True, r) \<Rightarrow> let x = rl_sess r s in
       on_relay s (\<lambda>x. x\<lparr>rs_run := Run_bond False\<rparr>) (expires_after s connect_time_limit_ms
         (on_relay listen (queue_send (ptp_connect_bytes (to_str (rs_from_mac x)) (rs_from_port x))) r)))"

text \<open>\<^verbatim>\<open>establish_connect\<close> up to its await.\<close>

definition establish_connect :: "fmt_api \<Rightarrow> postoffice_init \<Rightarrow> rid \<Rightarrow> relay \<Rightarrow> relay" where
  "establish_connect F i s r =
     (let listen_name = get_listen_session_name F (pi_dst_addr i) (pi_dport i) in
      case await_session listen_name (remaining_init_time (rl_now r) (rl_sess r s)) (Run_await i False) s r of
        Inl (Some l) \<Rightarrow> connect_to F s l r
      | Inl None \<Rightarrow> run_end F s r
      | Inr r \<Rightarrow> r)"

definition establish_accept :: "fmt_api \<Rightarrow> postoffice_init \<Rightarrow> rid \<Rightarrow> relay \<Rightarrow> relay" where
  "establish_accept F i s r =
     (let connect_name = get_connect_session_name F (pi_dst_addr i) (pi_dport i) (pi_src_addr i) (pi_sport i) in
      case reg_find connect_name r of
        None \<Rightarrow> run_end F s r
      | Some c \<Rightarrow>
        if rs_established (rl_sess r c) then run_end F s r
        else case register_self F s (on_relay s (\<lambda>x. x\<lparr>rs_established := True\<rparr>) r) of
          (False, r) \<Rightarrow> run_end F s r
        | (True, r) \<Rightarrow> let
            r = on_relay c (queue_send (ptp_connect_bytes (to_str (rs_from_mac (rl_sess r s))) (rs_from_port (rl_sess r s)))) r;
            r = on_relay s (queue_send (ptp_connect_bytes (to_str (rs_from_mac (rl_sess r c))) (rs_from_port (rl_sess r c)))) r
          in forward_head F s (on_relay c bond r))"

text \<open>\<^verbatim>\<open>run\<close> up to the await of \<^verbatim>\<open>read_init\<close>, whose read is cancelled after the time limit.\<close>

definition read_init :: "rid \<Rightarrow> relay \<Rightarrow> relay" where
  "read_init s r = on_relay s (\<lambda>x. x\<lparr>rs_run := Run_init\<rparr>) (expires_after s session_init_time_limit_ms r)"

text \<open>The init block has been read, or reading it failed or timed out.\<close>

definition run_init :: "fmt_api \<Rightarrow> bytes option \<Rightarrow> rid \<Rightarrow> relay \<Rightarrow> relay" where
  "run_init F b s r = (case b of
     None \<Rightarrow> run_end F s r
   | Some b \<Rightarrow> let i = init_of_bytes b in
     if pi_type i = AEMU_POSTOFFICE_INIT_PDP then
       establish_self F s (on_relay s (\<lambda>x. set_endpoints (pi_src_addr i) (pi_sport i) None 0 (x\<lparr>rs_mode := PDP\<rparr>)) r)
     else if pi_type i = AEMU_POSTOFFICE_INIT_PTP_LISTEN then
       establish_self F s (on_relay s (\<lambda>x. set_endpoints (pi_src_addr i) (pi_sport i) None 0 (x\<lparr>rs_mode := PTP_LISTEN\<rparr>)) r)
     else if pi_type i = AEMU_POSTOFFICE_INIT_PTP_CONNECT then
       establish_connect F i s (on_relay s (\<lambda>x. set_endpoints (pi_src_addr i) (pi_sport i)
         (Some (pi_dst_addr i)) (pi_dport i) (x\<lparr>rs_mode := PTP_CONNECT\<rparr>)) r)
     else if pi_type i = AEMU_POSTOFFICE_INIT_PTP_ACCEPT then
       establish_accept F i s (on_relay s (\<lambda>x. set_endpoints (pi_src_addr i) (pi_sport i)
         (Some (pi_dst_addr i)) (pi_dport i) (x\<lparr>rs_mode := PTP_ACCEPT\<rparr>)) r)
     else run_end F s r)"

text \<open>The wait in \<^verbatim>\<open>await_session\<close> ends.\<close>

definition run_await :: "fmt_api \<Rightarrow> postoffice_init \<Rightarrow> rid \<Rightarrow> relay \<Rightarrow> relay" where
  "run_await F i s r =
     (let listen_name = get_listen_session_name F (pi_dst_addr i) (pi_dport i)
      in case await_session_resume listen_name s r of
           (None, r) \<Rightarrow> run_end F s r
         | (Some l, r) \<Rightarrow> connect_to F s l r)"

text \<open>The wait on \<^verbatim>\<open>bond_signal_\<close> ends.\<close>

definition run_bond :: "fmt_api \<Rightarrow> rid \<Rightarrow> relay \<Rightarrow> relay" where
  "run_bond F s r = (if rs_established (rl_sess r s) then forward_head F s r else run_end F s r)"

text \<open>A read of a listening session ends, with an error or not.\<close>

definition run_listen :: "fmt_api \<Rightarrow> bool \<Rightarrow> rid \<Rightarrow> relay \<Rightarrow> relay" where
  "run_listen F ec s r = (if ec then run_end F s r else forward_head F s r)"

definition deliver_pdp :: "fmt_api \<Rightarrow> bytes \<Rightarrow> u32 \<Rightarrow> bytes \<Rightarrow> rid \<Rightarrow> relay \<Rightarrow> relay" where
  "deliver_pdp F target sz payload s r = (let x = rl_sess r s in
     forward_head F s (case reg_find target r of
       None \<Rightarrow> r
     | Some d \<Rightarrow> on_relay d (queue_send (pdp_bytes \<lparr>pp_addr = to_str (rs_from_mac x),
         pp_port = rs_from_port x, pp_size = sz\<rparr> @ payload)) r))"

definition deliver_ptp :: "fmt_api \<Rightarrow> u32 \<Rightarrow> bytes \<Rightarrow> rid \<Rightarrow> relay \<Rightarrow> relay" where
  "deliver_ptp F sz payload s r =
     forward_head F s (case reg_find (get_peer_identifier F (rl_sess r s)) r of
       None \<Rightarrow> r
     | Some d \<Rightarrow> on_relay d (queue_send (le32 sz @ payload)) r)"

text \<open>A block header was read, or reading it failed.\<close>

definition run_header :: "fmt_api \<Rightarrow> bytes option \<Rightarrow> rid \<Rightarrow> relay \<Rightarrow> relay" where
  "run_header F b s r = (case b of
     None \<Rightarrow> run_end F s r
   | Some b \<Rightarrow>
     if rs_mode (rl_sess r s) = PDP then
       let h = pdp_of_bytes b; target = get_pdp_session_name F (pp_addr h) (pp_port h) in
       if unat (pp_size h) > AEMU_POSTOFFICE_PDP_BLOCK_MAX * 2 then run_end F s r
       else if pp_size h > 0 then on_relay s (\<lambda>x. x\<lparr>rs_run := Run_payload target (pp_size h)\<rparr>) r
       else deliver_pdp F target (pp_size h) [] s r
     else
       let sz = of_le32 b in
       if unat sz > AEMU_POSTOFFICE_PTP_BLOCK_MAX * 2 then run_end F s r
       else if sz > 0 then on_relay s (\<lambda>x. x\<lparr>rs_run := Run_data sz\<rparr>) r
       else deliver_ptp F sz [] s r)"

definition run_payload :: "fmt_api \<Rightarrow> bytes option \<Rightarrow> rid \<Rightarrow> relay \<Rightarrow> relay" where
  "run_payload F b s r = (case b of
     None \<Rightarrow> run_end F s r
   | Some payload \<Rightarrow> (case rs_run (rl_sess r s) of
       Run_payload target sz \<Rightarrow> deliver_pdp F target sz payload s r
     | Run_data sz \<Rightarrow> deliver_ptp F sz payload s r
     | _ \<Rightarrow> r))"

text \<open>
  What \<^verbatim>\<open>remote_endpoint\<close> answers for an accepted socket: an error, an address
  (as Boost.Asio writes it) and port, or the path of a UNIX socket; and its description.
\<close>

datatype peer = Peer_error | Peer_tcp bytes u16 | Peer_unix bytes

definition describe_peer :: "fmt_api \<Rightarrow> peer \<Rightarrow> bytes" where
  "describe_peer F p = (case p of
     Peer_error \<Rightarrow> ascii ''unknown''
   | Peer_tcp address port \<Rightarrow> address @ [58] @ fm_dec F (unat port)
   | Peer_unix path \<Rightarrow> path)"

text \<open>The acceptor's loop body after a socket was accepted.\<close>

definition relay_accept :: "bytes \<Rightarrow> relay \<Rightarrow> relay" where
  "relay_accept addr r =
     (if rl_active r \<ge> max_num_sessions then r
      else (inc_active r)\<lparr>rl_sess := (rl_sess r)(rl_next r := new_relay_session addr (rl_now r)),
                         rl_next := Suc (rl_next r)\<rparr>)"

end
