(* ===== verification/Relay_Inv.thy ===== *)
theory Relay_Inv
  imports Relay_Session
begin

text \<open>
  The invariant of the relay and its preservation by the operations of sessions and registry.  While the
  code of a session runs, that session is busy and its program counter says nothing; \<open>relay_inv F B\<close>
  is the invariant with the sessions of \<open>B\<close> busy.
\<close>

section \<open>The invariant\<close>

definition rs_wf :: "fmt_api \<Rightarrow> relay_session \<Rightarrow> bool" where
  "rs_wf F x \<longleftrightarrow> rs_queued_bytes x = sum_list (map length (rs_write_queue x))
     \<and> (\<not> rs_closed x \<longrightarrow> rs_queued_bytes x < data_queue_size_limit_byte)
     \<and> ro.awake_inv x \<and> length (rs_from_mac x) = 6 \<and> length (rs_to_mac x) = 6
     \<and> (rs_finished x \<longrightarrow> rs_closed x) \<and> (rs_registered x \<longrightarrow> rs_identifier x = get_identifier F x)
     \<and> (rs_superseded x \<longrightarrow> rs_registered x \<and> rs_closed x)
     \<and> (rs_run x = Run_bond False \<longrightarrow> \<not> rs_closed x)"

definition early :: "run_pc \<Rightarrow> bool" where
  "early pc \<longleftrightarrow> (case pc of Run_start \<Rightarrow> True | Run_init \<Rightarrow> True | Run_await _ _ \<Rightarrow> True | _ \<Rightarrow> False)"

definition run_wf :: "relay_session \<Rightarrow> bool" where
  "run_wf x \<longleftrightarrow> (rs_finished x \<longleftrightarrow> rs_run x = Run_done) \<and> (early (rs_run x) \<longrightarrow> \<not> rs_registered x)"

definition active :: "relay \<Rightarrow> rid set" where
  "active r = {s. s < rl_next r \<and> \<not> rs_finished (rl_sess r s)}"

text \<open>The sessions the registry's map holds: registered, and neither superseded nor finished.\<close>

definition current :: "relay \<Rightarrow> rid \<Rightarrow> bool" where
  "current r s \<longleftrightarrow> s \<in> active r \<and> rs_registered (rl_sess r s) \<and> \<not> rs_superseded (rl_sess r s)"

definition names_ok :: "relay \<Rightarrow> bool" where
  "names_ok r \<longleftrightarrow> um_wf (rl_names r)
     \<and> (\<forall>n s. map_of (rl_names r) n = Some s \<longleftrightarrow> current r s \<and> rs_identifier (rl_sess r s) = n)"

definition active_ok :: "relay \<Rightarrow> bool" where
  "active_ok r \<longleftrightarrow> rl_active r = card (active r) \<and> rl_active r \<le> max_num_sessions"

definition port_key :: "relay_session \<Rightarrow> bytes \<times> port_kind \<times> u16" where
  "port_key x = (rs_from_mac x, directory_port_kind x, rs_from_port x)"

definition dir_ok :: "relay \<Rightarrow> bool" where
  "dir_ok r \<longleftrightarrow> dir_wf (rl_dir r) \<and> (\<forall>e\<in>dir_has (rl_dir r). \<exists>s\<in>active r.
     rs_registered (rl_sess r s) \<and> port_key (rl_sess r s) = e)"

definition listen_name :: "fmt_api \<Rightarrow> postoffice_init \<Rightarrow> bytes" where
  "listen_name F i = get_listen_session_name F (pi_dst_addr i) (pi_dport i)"

text \<open>A session that waits uncancelled for a listen session is in the list that wakes it, and no such
  session is there.\<close>

definition wait_ok :: "fmt_api \<Rightarrow> rid set \<Rightarrow> relay \<Rightarrow> bool" where
  "wait_ok F B r \<longleftrightarrow> um_wf (rl_waiters r) \<and> (\<forall>s i. s \<notin> B \<longrightarrow> rs_run (rl_sess r s) = Run_await i False \<longrightarrow>
     map_of (rl_names r) (listen_name F i) = None
     \<and> (\<exists>ws. map_of (rl_waiters r) (listen_name F i) = Some ws \<and> s \<in> set ws))"

text \<open>Nothing happens to a session before it is registered: nobody can name it.\<close>

definition calm :: "relay_session \<Rightarrow> bool" where
  "calm x \<longleftrightarrow> (\<not> rs_registered x \<and> \<not> rs_finished x \<longrightarrow>
     \<not> rs_closed x \<and> rs_write_queue x = [] \<and> (\<forall>b. rs_writer x \<noteq> Wr_write b))"

definition relay_inv :: "fmt_api \<Rightarrow> rid set \<Rightarrow> relay \<Rightarrow> bool" where
  "relay_inv F B r \<longleftrightarrow> (\<forall>s. rs_wf F (rl_sess r s)) \<and> (\<forall>s. s \<notin> B \<longrightarrow> run_wf (rl_sess r s))
     \<and> names_ok r \<and> active_ok r \<and> dir_ok r \<and> wait_ok F B r \<and> (\<forall>s. calm (rl_sess r s))"

lemma relay_invD:
  assumes "relay_inv F B r"
  shows "rs_wf F (rl_sess r s)" "s \<notin> B \<Longrightarrow> run_wf (rl_sess r s)" "names_ok r" "active_ok r" "dir_ok r"
    "wait_ok F B r" "calm (rl_sess r s)"
  using assms by (simp_all add: relay_inv_def)

lemma relay_inv_init: "relay_inv F {} relay_init"
  by (simp add: relay_inv_def relay_init_def rs_wf_def new_relay_session_def ro.awake_inv_def run_wf_def early_def
      names_ok_def current_def active_def active_ok_def dir_ok_def pd.none_ok pd.none_has wait_ok_def calm_def)

lemma on_relay_simps [simp]:
  "rl_next (on_relay s f r) = rl_next r" "rl_names (on_relay s f r) = rl_names r"
  "rl_waiters (on_relay s f r) = rl_waiters r" "rl_active (on_relay s f r) = rl_active r"
  "rl_dir (on_relay s f r) = rl_dir r" "rl_now (on_relay s f r) = rl_now r"
  "rl_sess (on_relay s f r) t = (if t = s then f (rl_sess r s) else rl_sess r t)"
  by (simp_all add: on_relay_def)

section \<open>Changes of one session\<close>

text \<open>What the queue, the timers and the flags of a pending connect may change of a session.\<close>

definition mild :: "fmt_api \<Rightarrow> (relay_session \<Rightarrow> relay_session) \<Rightarrow> bool" where
  "mild F f \<longleftrightarrow> (\<forall>x. rs_identifier (f x) = rs_identifier x \<and> port_key (f x) = port_key x
     \<and> rs_registered (f x) = rs_registered x \<and> rs_superseded (f x) = rs_superseded x
     \<and> rs_finished (f x) = rs_finished x \<and> (rs_wf F x \<longrightarrow> rs_wf F (f x))
     \<and> (rs_run (f x) = rs_run x \<or> (\<exists>c. rs_run x = Run_bond c) \<and> rs_run (f x) = Run_bond True
        \<or> (\<exists>i c. rs_run x = Run_await i c \<and> rs_run (f x) = Run_await i True)))"

lemma mildD:
  assumes "mild F f"
  shows "rs_identifier (f x) = rs_identifier x" "port_key (f x) = port_key x"
    "rs_registered (f x) = rs_registered x" "rs_superseded (f x) = rs_superseded x"
    "rs_finished (f x) = rs_finished x" "rs_wf F x \<Longrightarrow> rs_wf F (f x)"
    "rs_run (f x) = Run_await i False \<Longrightarrow> rs_run x = Run_await i False"
    "early (rs_run (f x)) \<longleftrightarrow> early (rs_run x)" "rs_run (f x) = Run_done \<longleftrightarrow> rs_run x = Run_done"
  using assms[unfolded mild_def, rule_format, of x] by (auto simp: early_def)

lemma relay_inv_mild:
  assumes "relay_inv F B r" "mild F f" "calm (f (rl_sess r s))"
  shows "relay_inv F B (on_relay s f r)"
proof -
  note m = mildD[OF assms(2)]
  have act: "active (on_relay s f r) = active r" by (auto simp: active_def m)
  have cur: "current (on_relay s f r) = current r" by (auto simp: current_def act m fun_eq_iff)
  have "names_ok (on_relay s f r)" using relay_invD(3)[OF assms(1)] by (simp add: names_ok_def cur m)
  moreover have "active_ok (on_relay s f r)" using relay_invD(4)[OF assms(1)] by (simp add: active_ok_def act)
  moreover have "dir_ok (on_relay s f r)" 
  proof -
    have "rs_registered (rl_sess (on_relay s f r) t) = rs_registered (rl_sess r t)"
      "port_key (rl_sess (on_relay s f r) t) = port_key (rl_sess r t)" for t
      by (simp_all add: m)
    then show ?thesis
      using relay_invD(5)[OF assms(1)] unfolding dir_ok_def act by (simp del: on_relay_simps(7))
  qed
  moreover have "wait_ok F B (on_relay s f r)"
  proof -
    have "rs_run (rl_sess r t) = Run_await i False" if "rs_run (rl_sess (on_relay s f r) t) = Run_await i False" for t i
      using that m(7)[of "rl_sess r s" i] by (cases "t = s") simp_all
    then show ?thesis using relay_invD(6)[OF assms(1)] unfolding wait_ok_def on_relay_simps(2,3) by blast
  qed
  moreover have "rs_wf F (rl_sess (on_relay s f r) t)" for t
    using relay_invD(1)[OF assms(1)] m(6) by simp
  moreover have "run_wf (rl_sess (on_relay s f r) t)" if "t \<notin> B" for t
    using relay_invD(2)[OF assms(1) that] by (cases "t = s") (simp_all add: run_wf_def m(3,5,8,9))
  moreover have "calm (rl_sess (on_relay s f r) t)" for t
    using relay_invD(7)[OF assms(1)] assms(3) by simp
  ultimately show ?thesis by (simp add: relay_inv_def)
qed

lemma early_simps [simp]:
  "early Run_start" "early Run_init" "early (Run_await i c)" "\<not> early (Run_bond c)" "\<not> early Run_listen"
  "\<not> early Run_header" "\<not> early (Run_payload n sz)" "\<not> early (Run_data sz)" "\<not> early Run_done"
  by (simp_all add: early_def)

lemma wake_bond_cases: "wake_bond pc = pc \<or> (\<exists>c. pc = Run_bond c) \<and> wake_bond pc = Run_bond True"
  by (cases pc) simp_all

lemma wake_bond_not_asleep [simp]: "wake_bond pc \<noteq> Run_bond False"
  by (cases pc) simp_all

lemma get_identifier_frame:
  "rs_mode y = rs_mode x \<Longrightarrow> rs_from_mac y = rs_from_mac x \<Longrightarrow> rs_from_port y = rs_from_port x \<Longrightarrow>
   rs_to_mac y = rs_to_mac x \<Longrightarrow> rs_to_port y = rs_to_port x \<Longrightarrow> get_identifier F y = get_identifier F x"
  by (simp add: get_identifier_def split: session_mode.split)

lemma relay_close_frame [simp]:
  "rs_mode (relay_close x) = rs_mode x" "rs_from_mac (relay_close x) = rs_from_mac x"
  "rs_from_port (relay_close x) = rs_from_port x" "rs_to_mac (relay_close x) = rs_to_mac x"
  "rs_to_port (relay_close x) = rs_to_port x" "rs_identifier (relay_close x) = rs_identifier x"
  "rs_registered (relay_close x) = rs_registered x" "rs_superseded (relay_close x) = rs_superseded x"
  "rs_finished (relay_close x) = rs_finished x" "rs_established (relay_close x) = rs_established x"
  "rs_write_queue (relay_close x) = rs_write_queue x" "rs_queued_bytes (relay_close x) = rs_queued_bytes x"
  "rs_closed (relay_close x)" "rs_run (relay_close x) = (if rs_closed x then rs_run x else wake_bond (rs_run x))"
  by (simp_all add: relay_close_def)

lemma rs_wf_close: "rs_wf F x \<Longrightarrow> rs_wf F (relay_close x)"
  by (auto simp: rs_wf_def ro.awake_close cong: get_identifier_frame)

lemma mild_close: "mild F relay_close"
  using wake_bond_cases by (auto simp: mild_def rs_wf_close port_key_def directory_port_kind_def)

lemma queue_send_frame [simp]:
  "rs_mode (queue_send b x) = rs_mode x" "rs_from_mac (queue_send b x) = rs_from_mac x"
  "rs_from_port (queue_send b x) = rs_from_port x" "rs_to_mac (queue_send b x) = rs_to_mac x"
  "rs_to_port (queue_send b x) = rs_to_port x" "rs_identifier (queue_send b x) = rs_identifier x"
  "rs_registered (queue_send b x) = rs_registered x" "rs_superseded (queue_send b x) = rs_superseded x"
  "rs_finished (queue_send b x) = rs_finished x" "rs_established (queue_send b x) = rs_established x"
  by (simp_all add: queue_send_def Let_def)

lemma queue_send_fields:
  "rs_queued_bytes (queue_send b x) = (if rs_closed x then rs_queued_bytes x else rs_queued_bytes x + length b)"
  "rs_write_queue (queue_send b x) = (if rs_closed x \<or> b = [] then rs_write_queue x else rs_write_queue x @ [b])"
  "rs_closed (queue_send b x) \<longleftrightarrow> rs_closed x \<or> b \<noteq> [] \<and> rs_queued_bytes x + length b \<ge> data_queue_size_limit_byte"
  "rs_run (queue_send b x) = (if rs_closed x \<or> b = [] \<or> rs_queued_bytes x + length b < data_queue_size_limit_byte
     then rs_run x else wake_bond (rs_run x))"
  by (auto simp: queue_send_def Let_def relay_close_def)

lemma rs_wf_queue_send: "rs_wf F x \<Longrightarrow> rs_wf F (queue_send b x)"
  by (auto simp: rs_wf_def ro.awake_send queue_send_fields not_le get_identifier_def split: session_mode.splits)

lemma mild_queue_send: "mild F (queue_send b)"
  using wake_bond_cases
  by (auto simp: mild_def rs_wf_queue_send port_key_def directory_port_kind_def queue_send_fields)

lemma rs_wf_bond: "rs_wf F x \<Longrightarrow> rs_wf F (bond x)"
  by (auto simp: rs_wf_def bond_def ro.awake_inv_def get_identifier_def split: session_mode.splits)

lemma mild_bond: "mild F bond"
  using wake_bond_cases by (auto simp: mild_def rs_wf_bond)
    (auto simp: bond_def port_key_def directory_port_kind_def)

lemma mild_cancel_wait: "mild F cancel_wait"
  by (auto simp: mild_def cancel_wait_def rs_wf_def ro.awake_inv_def port_key_def directory_port_kind_def
      get_identifier_def split: run_pc.splits session_mode.splits)

lemma relay_writer_frame [simp]:
  "rs_mode (relay_writer_loop x) = rs_mode x" "rs_from_mac (relay_writer_loop x) = rs_from_mac x"
  "rs_from_port (relay_writer_loop x) = rs_from_port x" "rs_to_mac (relay_writer_loop x) = rs_to_mac x"
  "rs_to_port (relay_writer_loop x) = rs_to_port x" "rs_identifier (relay_writer_loop x) = rs_identifier x"
  "rs_registered (relay_writer_loop x) = rs_registered x" "rs_superseded (relay_writer_loop x) = rs_superseded x"
  "rs_finished (relay_writer_loop x) = rs_finished x" "rs_run (relay_writer_loop x) = rs_run x"
  "rs_closed (relay_writer_loop x) = rs_closed x"
  by (auto simp: relay_writer_loop_def split: list.splits)

text \<open>The byte count never wraps below zero: a block's size was added when it was queued.\<close>

lemma rs_wf_writer_loop: "rs_wf F x \<Longrightarrow> rs_wf F (relay_writer_loop x)"
proof -
  assume wf: "rs_wf F x"
  have "rs_queued_bytes (relay_writer_loop x) = sum_list (map length (rs_write_queue (relay_writer_loop x)))"
    "rs_queued_bytes (relay_writer_loop x) \<le> rs_queued_bytes x"
    using wf by (auto simp: rs_wf_def relay_writer_loop_def split: list.splits)
  then show ?thesis
    using wf by (auto simp: rs_wf_def ro.awake_loop get_identifier_def split: session_mode.splits)
qed

lemma mild_writer_loop: "mild F relay_writer_loop"
  by (auto simp: mild_def rs_wf_writer_loop port_key_def directory_port_kind_def)

lemma mild_writer_written: "mild F (relay_writer_written ec)"
proof -
  have "rs_wf F (relay_writer_finish x)" if "rs_wf F x" for x
    using that by (auto simp: rs_wf_def ro.awake_finish)
      (auto simp: relay_writer_finish_def get_identifier_def split: session_mode.splits)
  then have "mild F (\<lambda>x. relay_writer_finish (relay_close x))"
    using mild_close[of F] unfolding mild_def
    by (simp add: relay_writer_finish_def port_key_def directory_port_kind_def)
  moreover have "relay_writer_written ec = (if ec then \<lambda>x. relay_writer_finish (relay_close x) else relay_writer_loop)"
    by (simp add: relay_writer_written_def fun_eq_iff)
  ultimately show ?thesis using mild_writer_loop[of F] by simp
qed

end
