(* ===== verification/Relay_Steps.thy ===== *)
theory Relay_Steps
  imports Relay_Inv
begin

text \<open>
  Registration and the end of a session keep the relay's invariant, and with them every step of the
  session coroutine.
\<close>

section \<open>A session before it is registered\<close>

lemma relay_inv_busy: "relay_inv F {} r \<Longrightarrow> relay_inv F {s} r"
  by (auto simp: relay_inv_def wait_ok_def)

text \<open>\<open>s\<close> runs its code: it is not finished; \<open>b\<close> says whether it is registered.\<close>

definition running :: "fmt_api \<Rightarrow> rid \<Rightarrow> bool \<Rightarrow> relay \<Rightarrow> bool" where
  "running F s b r \<longleftrightarrow> relay_inv F {s} r \<and> s < rl_next r \<and> \<not> rs_finished (rl_sess r s)
     \<and> rs_registered (rl_sess r s) = b"

lemma runningD:
  assumes "running F s b r"
  shows "relay_inv F {s} r" "s < rl_next r" "\<not> rs_finished (rl_sess r s)" "rs_registered (rl_sess r s) = b"
    "s \<in> active r" "rs_wf F (rl_sess r s)"
  using assms relay_invD(1)[of F "{s}" r s] by (auto simp: running_def active_def)

lemma running_mild:
  "running F s b r \<Longrightarrow> mild F f \<Longrightarrow> calm (f (rl_sess r t)) \<Longrightarrow> running F s b (on_relay t f r)"
  using relay_inv_mild[of F "{s}" r f t] mildD(3,5)[of F f "rl_sess r t"]
  by (cases "s = t") (simp_all add: running_def)

text \<open>Setting the members that describe an unregistered session.\<close>

lemma running_fresh:
  assumes r: "running F s False r" and wf: "rs_wf F (f (rl_sess r s))" and calm: "calm (f (rl_sess r s))"
    and f: "rs_registered (f (rl_sess r s)) = False" "rs_finished (f (rl_sess r s)) = False"
  shows "running F s False (on_relay s f r)"
proof -
  note d = runningD[OF r]
  have act: "active (on_relay s f r) = active r" using d f by (auto simp: active_def)
  have cur: "current (on_relay s f r) = current r" using d f by (auto simp: current_def act fun_eq_iff)
  have nocur: "\<not> current r s" using d by (simp add: current_def)
  have "names_ok (on_relay s f r)"
    using relay_invD(3)[OF d(1)] nocur unfolding names_ok_def cur by auto
  moreover have "active_ok (on_relay s f r)" using relay_invD(4)[OF d(1)] by (simp add: active_ok_def act)
  moreover have "dir_ok (on_relay s f r)"
    using relay_invD(5)[OF d(1)] d(4) unfolding dir_ok_def act by fastforce
  moreover have "wait_ok F {s} (on_relay s f r)" using relay_invD(6)[OF d(1)] by (simp add: wait_ok_def)
  ultimately have "relay_inv F {s} (on_relay s f r)"
    using d(1) wf calm by (simp add: relay_inv_def)
  then show ?thesis using d f by (simp add: running_def)
qed

section \<open>The registry's add\<close>

lemma fold_on_relay:
  "rl_names (fold (\<lambda>t. on_relay t f) ws r) = rl_names r" "rl_waiters (fold (\<lambda>t. on_relay t f) ws r) = rl_waiters r"
  "rl_next (fold (\<lambda>t. on_relay t f) ws r) = rl_next r" "rl_active (fold (\<lambda>t. on_relay t f) ws r) = rl_active r"
  "rl_dir (fold (\<lambda>t. on_relay t f) ws r) = rl_dir r" "rl_now (fold (\<lambda>t. on_relay t f) ws r) = rl_now r"
  by (induction ws arbitrary: r) simp_all

lemma on_relay_maps:
  "on_relay s f (r\<lparr>rl_names := a\<rparr>) = (on_relay s f r)\<lparr>rl_names := a\<rparr>"
  "on_relay s f (r\<lparr>rl_waiters := b\<rparr>) = (on_relay s f r)\<lparr>rl_waiters := b\<rparr>"
  by (simp_all add: on_relay_def)

lemma fold_on_relay_names:
  "fold (\<lambda>t. on_relay t f) ws (r\<lparr>rl_names := n\<rparr>) = (fold (\<lambda>t. on_relay t f) ws r)\<lparr>rl_names := n\<rparr>"
  by (induction ws arbitrary: r) (simp_all add: on_relay_maps)

lemma relay_eqI:
  "(\<And>t. rl_sess r t = rl_sess r' t) \<Longrightarrow> rl_next r = rl_next r' \<Longrightarrow> rl_names r = rl_names r' \<Longrightarrow>
   rl_waiters r = rl_waiters r' \<Longrightarrow> rl_active r = rl_active r' \<Longrightarrow> rl_dir r = rl_dir r' \<Longrightarrow>
   rl_now r = rl_now r' \<Longrightarrow> r = (r' :: relay)"
  by (auto intro!: relay.equality ext)

lemma cancel_supersede: "cancel_wait (supersede x) = supersede (cancel_wait x)"
  by (auto simp: cancel_wait_def supersede_def relay_close_def split: run_pc.splits)

lemma fold_cancel_supersede:
  "fold (\<lambda>t. on_relay t cancel_wait) ws (on_relay u supersede r)
   = on_relay u supersede (fold (\<lambda>t. on_relay t cancel_wait) ws r)"
proof (induction ws arbitrary: r)
  case (Cons w ws)
  have "on_relay w cancel_wait (on_relay u supersede r) = on_relay u supersede (on_relay w cancel_wait r)"
    by (rule relay_eqI) (auto simp: cancel_supersede)
  then show ?case using Cons by simp
qed simp

lemma calm_cancel_wait: "calm x \<Longrightarrow> calm (cancel_wait x)"
  by (simp add: calm_def cancel_wait_def split: run_pc.splits)

lemma running_fold_cancel: "running F s b r \<Longrightarrow> running F s b (fold (\<lambda>t. on_relay t cancel_wait) ws r)"
  by (induction ws arbitrary: r)
    (simp_all add: running_mild mild_cancel_wait calm_cancel_wait relay_invD(7)[OF runningD(1)])

lemma cancel_wait_frame [simp]:
  "rs_identifier (cancel_wait x) = rs_identifier x" "rs_mode (cancel_wait x) = rs_mode x"
  "rs_from_mac (cancel_wait x) = rs_from_mac x" "rs_from_port (cancel_wait x) = rs_from_port x"
  "rs_to_mac (cancel_wait x) = rs_to_mac x" "rs_to_port (cancel_wait x) = rs_to_port x"
  "rs_closed (cancel_wait x) = rs_closed x" "rs_run (cancel_wait x) \<noteq> Run_await i False"
  "rs_established (cancel_wait x) = rs_established x"
  "rs_registered (cancel_wait x) = rs_registered x" "rs_superseded (cancel_wait x) = rs_superseded x"
  "rs_finished (cancel_wait x) = rs_finished x" "rs_write_queue (cancel_wait x) = rs_write_queue x"
  by (simp_all add: cancel_wait_def split: run_pc.splits)

lemma cancel_wait_identifier [simp]: "get_identifier F (cancel_wait x) = get_identifier F x"
  by (rule get_identifier_frame) simp_all

lemma cancel_wait_idem [simp]: "cancel_wait (cancel_wait x) = cancel_wait x"
  by (simp add: cancel_wait_def split: run_pc.splits)

lemma fold_cancel_sess:
  "rl_sess (fold (\<lambda>t. on_relay t cancel_wait) ws r) t
   = (if t \<in> set ws then cancel_wait (rl_sess r t) else rl_sess r t)"
  by (induction ws arbitrary: r) auto

text \<open>
  Registering: given that no session waits for the name, the map takes the session under it, the session
  that had it is superseded.
\<close>

definition take_name :: "bytes \<Rightarrow> rid \<Rightarrow> (bytes, rid list) umap \<Rightarrow> relay \<Rightarrow> relay" where
  "take_name n s ws r = (on_relay s (\<lambda>x. x\<lparr>rs_registered := True\<rparr>)
     (case map_of (rl_names r) n of None \<Rightarrow> r | Some t \<Rightarrow> on_relay t supersede r))
     \<lparr>rl_names := AList.update n s (rl_names r), rl_waiters := ws\<rparr>"

lemma supersede_frame [simp]:
  "rs_mode (supersede x) = rs_mode x" "rs_from_mac (supersede x) = rs_from_mac x"
  "rs_from_port (supersede x) = rs_from_port x" "rs_to_mac (supersede x) = rs_to_mac x"
  "rs_to_port (supersede x) = rs_to_port x" "rs_identifier (supersede x) = rs_identifier x"
  "rs_registered (supersede x) = rs_registered x" "rs_superseded (supersede x)" "rs_closed (supersede x)"
  "rs_finished (supersede x) = rs_finished x" "rs_established (supersede x) = rs_established x"
  "port_key (supersede x) = port_key x" "get_identifier F (supersede x) = get_identifier F x"
  "rs_run (supersede x) = (if rs_closed x then rs_run x else wake_bond (rs_run x))"
  by (auto simp: supersede_def port_key_def directory_port_kind_def intro!: get_identifier_frame)

lemma rs_wf_supersede: "rs_wf F x \<Longrightarrow> rs_registered x \<Longrightarrow> rs_wf F (supersede x)"
proof -
  assume wf: "rs_wf F x" and r: "rs_registered x"
  have "rs_wf F (relay_close x)" using rs_wf_close[OF wf] .
  moreover have "supersede x = (relay_close x)\<lparr>rs_superseded := True\<rparr>"
    by (simp add: supersede_def relay_close_def)
  ultimately show ?thesis using r by (auto simp: rs_wf_def ro.awake_inv_def get_identifier_def split: session_mode.splits)
qed

lemma running_take_name:
  assumes r: "running F s False r" and id: "rs_identifier (rl_sess r s) = n" "get_identifier F (rl_sess r s) = n"
    and wait: "\<And>t i. t \<noteq> s \<Longrightarrow> rs_run (rl_sess r t) = Run_await i False \<Longrightarrow> listen_name F i \<noteq> n"
    and ws: "um_wf ws" "\<And>m. m \<noteq> n \<Longrightarrow> map_of ws m = map_of (rl_waiters r) m"
  shows "running F s True (take_name n s ws r)"
proof -
  note d = runningD[OF r] and names = relay_invD(3)[OF runningD(1)[OF r]]
  have noc: "\<not> rs_superseded (rl_sess r s)" using d(4,6) by (simp add: rs_wf_def)
  define old where "old = map_of (rl_names r) n"
  have olds: "old = Some t \<longleftrightarrow> current r t \<and> rs_identifier (rl_sess r t) = n" for t
    using names unfolding names_ok_def old_def by blast
  have nots: "old \<noteq> Some s" using d(4) olds[of s] by (simp add: current_def)
  let ?v = "take_name n s ws r"
  have ses: "rl_sess ?v t = (if t = s then (rl_sess r s)\<lparr>rs_registered := True\<rparr>
      else if old = Some t then supersede (rl_sess r t) else rl_sess r t)" for t
    using nots by (auto simp: take_name_def old_def split: option.splits)
  have rest: "rl_next ?v = rl_next r" "rl_names ?v = AList.update n s (rl_names r)" "rl_waiters ?v = ws"
    "rl_active ?v = rl_active r" "rl_dir ?v = rl_dir r"
    by (auto simp: take_name_def split: option.splits)
  have wf: "rs_wf F (rl_sess ?v t)" for t
  proof -
    have "rs_wf F (rl_sess r t)" using relay_invD(1)[OF d(1)] .
    moreover have "old = Some t \<Longrightarrow> rs_registered (rl_sess r t)" using olds[of t] by (simp add: current_def)
    moreover have "rs_wf F ((rl_sess r s)\<lparr>rs_registered := True\<rparr>)"
      using d(6) id noc by (auto simp: rs_wf_def ro.awake_inv_def get_identifier_def split: session_mode.splits)
    ultimately show ?thesis by (simp add: ses rs_wf_supersede)
  qed
  have fin: "rs_finished (rl_sess ?v t) = rs_finished (rl_sess r t)" for t by (simp add: ses)
  have act: "active ?v = active r" by (simp add: active_def rest fin)
  have cur: "current ?v t \<longleftrightarrow> t = s \<or> current r t \<and> old \<noteq> Some t" for t
    using d(5) noc by (auto simp: current_def act ses)
  have idn: "rs_identifier (rl_sess ?v t) = rs_identifier (rl_sess r t)" for t by (simp add: ses)
  have "names_ok ?v"
    unfolding names_ok_def rest update_conv' idn cur
  proof (intro conjI allI)
    show "um_wf (AList.update n s (rl_names r))" using names by (simp add: names_ok_def um_wf_update)
    fix m t
    have "map_of (rl_names r) m = Some t \<longleftrightarrow> current r t \<and> rs_identifier (rl_sess r t) = m"
      using names by (simp add: names_ok_def)
    moreover have "current r t \<Longrightarrow> t \<noteq> s" using d(4) by (auto simp: current_def)
    ultimately show "((map_of (rl_names r))(n \<mapsto> s)) m = Some t
        \<longleftrightarrow> (t = s \<or> current r t \<and> old \<noteq> Some t) \<and> rs_identifier (rl_sess r t) = m"
      using olds[of t] id by (cases "m = n") auto
  qed
  moreover have "active_ok ?v" using relay_invD(4)[OF d(1)] by (simp add: active_ok_def act rest)
  moreover have "dir_ok ?v"
  proof -
    have "rs_registered (rl_sess ?v t) \<and> port_key (rl_sess ?v t) = port_key (rl_sess r t)"
      if "rs_registered (rl_sess r t)" for t
      using that by (simp add: ses port_key_def directory_port_kind_def)
    then show ?thesis using relay_invD(5)[OF d(1)] unfolding dir_ok_def act rest by metis
  qed
  moreover have "wait_ok F {s} ?v"
    unfolding wait_ok_def rest update_conv'
  proof (intro conjI allI impI)
    show "um_wf ws" by (rule ws(1))
    fix t i assume t: "t \<notin> {s}" and "rs_run (rl_sess ?v t) = Run_await i False"
    moreover have "wake_bond pc = Run_await i False \<Longrightarrow> pc = Run_await i False" for pc by (cases pc) simp_all
    ultimately have run: "rs_run (rl_sess r t) = Run_await i False" by (auto simp: ses split: if_splits)
    then have ne: "listen_name F i \<noteq> n" using wait t by simp
    show "((map_of (rl_names r))(n \<mapsto> s)) (listen_name F i) = None"
      "\<exists>l. map_of ws (listen_name F i) = Some l \<and> t \<in> set l"
      using relay_invD(6)[OF d(1)] t run ne ws(2)[OF ne] unfolding wait_ok_def by auto
  qed
  moreover have "run_wf (rl_sess ?v t)" if "t \<notin> {s}" for t
  proof -
    have "early (wake_bond pc) = early pc" "wake_bond pc = Run_done \<longleftrightarrow> pc = Run_done" for pc
      by (cases pc; simp)+
    then show ?thesis using relay_invD(2)[OF d(1) that] that by (auto simp: ses run_wf_def)
  qed
  moreover have "calm (rl_sess ?v t)" for t
    using relay_invD(7)[OF d(1), of t] olds[of t] by (auto simp: ses calm_def current_def)
  ultimately have "relay_inv F {s} ?v" using wf by (simp add: relay_inv_def)
  then show ?thesis using d by (simp add: running_def ses rest)
qed

lemma reg_add_eq:
  "on_relay s (\<lambda>x. x\<lparr>rs_registered := True\<rparr>) (reg_add n s r)
   = take_name n s (case map_of (rl_waiters r) n of None \<Rightarrow> rl_waiters r | Some _ \<Rightarrow> um_erase n (rl_waiters r))
       (fold (\<lambda>t. on_relay t cancel_wait) (case map_of (rl_waiters r) n of None \<Rightarrow> [] | Some l \<Rightarrow> l) r)"
proof -
  define l where "l = (case map_of (rl_waiters r) n of None \<Rightarrow> [] | Some l \<Rightarrow> l)"
  define v where "v = (case map_of (rl_names r) n of None \<Rightarrow> r | Some t \<Rightarrow> on_relay t supersede r)"
  have fold: "fold (\<lambda>t. on_relay t cancel_wait) l v = (case map_of (rl_names r) n of
      None \<Rightarrow> fold (\<lambda>t. on_relay t cancel_wait) l r
    | Some t \<Rightarrow> on_relay t supersede (fold (\<lambda>t. on_relay t cancel_wait) l r))"
    by (simp add: v_def fold_cancel_supersede split: option.split)
  have maps: "rl_names v = rl_names r" "rl_waiters v = rl_waiters r" by (simp_all add: v_def split: option.split)
  have add: "reg_add n s r = (fold (\<lambda>t. on_relay t cancel_wait) l v)\<lparr>rl_names := AList.update n s (rl_names r),
      rl_waiters := (case map_of (rl_waiters r) n of None \<Rightarrow> rl_waiters r | Some _ \<Rightarrow> um_erase n (rl_waiters r))\<rparr>"
  proof (cases "map_of (rl_waiters r) n")
    case None
    then have "reg_add n s r = v\<lparr>rl_names := AList.update n s (rl_names r)\<rparr>"
      by (simp add: reg_add_def reg_find_def v_def[symmetric] Let_def maps)
    then show ?thesis using None maps by (simp add: l_def)
  next
    case (Some ws)
    then show ?thesis
      by (simp add: reg_add_def reg_find_def v_def[symmetric] Let_def maps l_def fold_on_relay_names)
  qed
  show ?thesis
    unfolding add take_name_def fold l_def[symmetric] by (simp add: on_relay_maps fold_on_relay)
qed

lemma running_reg_add:
  assumes r: "running F s False r" and id: "rs_identifier (rl_sess r s) = n" "get_identifier F (rl_sess r s) = n"
  shows "running F s True (on_relay s (\<lambda>x. x\<lparr>rs_registered := True\<rparr>) (reg_add n s r))"
proof -
  note d = runningD[OF r] and w = relay_invD(6)[OF runningD(1)[OF r]]
  define l where "l = (case map_of (rl_waiters r) n of None \<Rightarrow> [] | Some l \<Rightarrow> l)"
  let ?c = "fold (\<lambda>t. on_relay t cancel_wait) l r"
  have "running F s False ?c" using running_fold_cancel[OF r] .
  moreover have "rs_identifier (rl_sess ?c s) = n" "get_identifier F (rl_sess ?c s) = n"
    using id by (simp_all add: fold_cancel_sess)
  moreover have "listen_name F i \<noteq> n" if "t \<noteq> s" "rs_run (rl_sess ?c t) = Run_await i False" for t i
  proof
    assume "listen_name F i = n"
    moreover have "t \<notin> set l" "rs_run (rl_sess r t) = Run_await i False"
      using that(2) by (auto simp: fold_cancel_sess split: if_splits)
    ultimately show False using w that(1) unfolding wait_ok_def l_def by force
  qed
  moreover have "um_wf (case map_of (rl_waiters r) n of None \<Rightarrow> rl_waiters r | Some _ \<Rightarrow> um_erase n (rl_waiters r))"
    using w by (simp add: wait_ok_def split: option.splits)
  ultimately show ?thesis
    unfolding reg_add_eq l_def[symmetric]
    by (intro running_take_name) (auto simp: fold_on_relay map_of_um_erase split: option.splits)
qed

section \<open>Registration\<close>

lemma running_dir:
  assumes r: "running F s True r" and key: "port_key (rl_sess r s) = (m, k, p)"
  shows "running F s True (r\<lparr>rl_dir := snd (dir_add m k p (rl_dir r))\<rparr>)"
proof -
  note d = runningD[OF r]
  let ?v = "r\<lparr>rl_dir := snd (dir_add m k p (rl_dir r))\<rparr>"
  have act: "active ?v = active r" "current ?v = current r"
    by (auto simp: active_def current_def fun_eq_iff)
  have "dir_ok ?v"
    using relay_invD(5)[OF d(1)] d(4,5) key unfolding dir_ok_def act
    by (auto simp: pd.add_ok pd.add_has)
  moreover have "names_ok ?v" using relay_invD(3)[OF d(1)] by (simp add: names_ok_def act)
  moreover have "active_ok ?v" using relay_invD(4)[OF d(1)] by (simp add: active_ok_def act)
  moreover have "wait_ok F {s} ?v" using relay_invD(6)[OF d(1)] by (simp add: wait_ok_def)
  ultimately show ?thesis using r by (simp add: running_def relay_inv_def)
qed

lemma reg_add_frame [simp]: "rl_dir (reg_add n s r) = rl_dir r" "rl_next (reg_add n s r) = rl_next r"
  "rl_active (reg_add n s r) = rl_active r" "rl_now (reg_add n s r) = rl_now r"
  by (auto simp: reg_add_def Let_def fold_on_relay split: option.splits)

lemma register_identifier_wf: "rs_wf F x \<Longrightarrow> rs_wf F (x\<lparr>rs_identifier := get_identifier F x\<rparr>)"
  by (auto simp: rs_wf_def ro.awake_inv_def get_identifier_def split: session_mode.splits)

lemma reg_add_self:
  assumes "running F s False r"
  shows "port_key (rl_sess (reg_add n s r) s) = port_key (rl_sess r s)"
proof -
  have "port_key (cancel_wait x) = port_key x" for x by (simp add: port_key_def directory_port_kind_def)
  moreover have "port_key (supersede x) = port_key x" for x by simp
  ultimately show ?thesis
    by (auto simp: reg_add_def Let_def fold_cancel_sess split: option.splits)
qed

lemma register_self_running:
  assumes r: "running F s False r" and reg: "register_self F s r = (ok, v)"
  shows "running F s True v" "ok \<longleftrightarrow> port_key (rl_sess r s) \<notin> dir_has (rl_dir r)"
proof -
  let ?id = "\<lambda>x. x\<lparr>rs_identifier := get_identifier F x\<rparr>"
  let ?r1 = "on_relay s ?id r"
  let ?n = "get_identifier F (rl_sess r s)"
  let ?r2 = "on_relay s (\<lambda>x. x\<lparr>rs_registered := True\<rparr>) (reg_add ?n s ?r1)"
  note d = runningD[OF r]
  have r1: "running F s False ?r1"
    using d relay_invD(7)[OF d(1)] by (intro running_fresh[OF r] register_identifier_wf) (auto simp: calm_def)
  have "get_identifier F (rl_sess ?r1 s) = ?n" by (simp, rule get_identifier_frame) simp_all
  then have r2: "running F s True ?r2" by (intro running_reg_add[OF r1]) simp_all
  have key: "port_key (rl_sess ?r2 s) = port_key (rl_sess r s)"
    using reg_add_self[OF r1, of ?n] by (simp add: port_key_def directory_port_kind_def)
  obtain m k p where mkp: "port_key (rl_sess ?r2 s) = (m, k, p)" by (cases "port_key (rl_sess ?r2 s)")
  have split: "dir_add m k p (rl_dir r) = (ok, rl_dir v)" "v = ?r2\<lparr>rl_dir := snd (dir_add m k p (rl_dir r))\<rparr>"
    using reg mkp by (auto simp: register_self_def Let_def port_key_def split: prod.splits)
  show "running F s True v" unfolding split(2) using running_dir[OF r2 mkp] by simp
  have "dir_wf (rl_dir r)" using relay_invD(5)[OF d(1)] by (simp add: dir_ok_def)
  then show "ok \<longleftrightarrow> port_key (rl_sess r s) \<notin> dir_has (rl_dir r)"
    using pd.add_result[of "rl_dir r" m k p] split(1) mkp key by simp
qed

section \<open>The next await\<close>

lemma rs_wf_run: "rs_wf F x \<Longrightarrow> (pc = Run_bond False \<Longrightarrow> \<not> rs_closed x) \<Longrightarrow> rs_wf F (x\<lparr>rs_run := pc\<rparr>)"
  by (auto simp: rs_wf_def ro.awake_inv_def get_identifier_def split: session_mode.splits)

text \<open>The session reaches its next await, other than that of \<^verbatim>\<open>await_session\<close>.\<close>

lemma relay_inv_await:
  assumes r: "running F s b r" and pc: "pc \<noteq> Run_done" "early pc \<longrightarrow> \<not> b" "pc = Run_bond False \<longrightarrow> \<not> rs_closed (rl_sess r s)"
    "\<And>i. pc \<noteq> Run_await i False"
  shows "relay_inv F {} (on_relay s (\<lambda>x. x\<lparr>rs_run := pc\<rparr>) r)"
proof -
  note d = runningD[OF r]
  let ?v = "on_relay s (\<lambda>x. x\<lparr>rs_run := pc\<rparr>) r"
  have act: "active ?v = active r" "current ?v = current r" by (auto simp: active_def current_def fun_eq_iff)
  have same: "rs_identifier (rl_sess ?v t) = rs_identifier (rl_sess r t)"
    "port_key (rl_sess ?v t) = port_key (rl_sess r t)" "rs_registered (rl_sess ?v t) = rs_registered (rl_sess r t)" for t
    by (simp_all add: port_key_def directory_port_kind_def)
  have "names_ok ?v" using relay_invD(3)[OF d(1)] unfolding names_ok_def act same by simp
  moreover have "active_ok ?v" using relay_invD(4)[OF d(1)] by (simp add: active_ok_def act)
  moreover have "dir_ok ?v" using relay_invD(5)[OF d(1)] unfolding dir_ok_def act same by simp
  moreover have "wait_ok F {} ?v"
    using relay_invD(6)[OF d(1)] pc(4) by (auto simp: wait_ok_def split: if_splits)
  moreover have "run_wf (rl_sess ?v t)" for t
    using relay_invD(2)[OF d(1), of t] d pc by (cases "t = s") (auto simp: run_wf_def)
  moreover have "rs_wf F (rl_sess ?v t)" for t
    using relay_invD(1)[OF d(1), of t] rs_wf_run[OF d(6)] pc(3) by auto
  moreover have "calm (rl_sess ?v t)" for t using relay_invD(7)[OF d(1)] by (simp add: calm_def)
  ultimately show ?thesis by (simp add: relay_inv_def)
qed

text \<open>Waiting for a listen session that is not there.\<close>

lemma relay_inv_wait:
  assumes r: "running F s False r" and none: "reg_find (listen_name F i) r = None"
  shows "relay_inv F {} (on_relay s (\<lambda>x. x\<lparr>rs_run := Run_await i False\<rparr>) (add_waiter (listen_name F i) s r))"
proof -
  note d = runningD[OF r]
  let ?v = "on_relay s (\<lambda>x. x\<lparr>rs_run := Run_await i False\<rparr>) (add_waiter (listen_name F i) s r)"
  have fields: "rl_next ?v = rl_next r" "rl_names ?v = rl_names r" "rl_active ?v = rl_active r" "rl_dir ?v = rl_dir r"
    "rl_sess ?v t = (if t = s then (rl_sess r s)\<lparr>rs_run := Run_await i False\<rparr> else rl_sess r t)" for t
    by (simp_all add: add_waiter_def)
  have act: "active ?v = active r" "current ?v = current r"
    by (auto simp: active_def current_def fun_eq_iff add_waiter_def)
  have same: "rs_identifier (rl_sess ?v t) = rs_identifier (rl_sess r t)"
    "port_key (rl_sess ?v t) = port_key (rl_sess r t)" "rs_registered (rl_sess ?v t) = rs_registered (rl_sess r t)" for t
    by (simp_all add: port_key_def directory_port_kind_def add_waiter_def)
  have "names_ok ?v" using relay_invD(3)[OF d(1)] unfolding names_ok_def act same fields by simp
  moreover have "active_ok ?v" using relay_invD(4)[OF d(1)] unfolding active_ok_def act fields .
  moreover have "dir_ok ?v" using relay_invD(5)[OF d(1)] unfolding dir_ok_def act same fields(4) by simp
  moreover have "wait_ok F {} ?v"
    using relay_invD(6)[OF d(1)] none unfolding wait_ok_def fields reg_find_def
    by (fastforce simp: add_waiter_def update_conv' um_wf_update split: if_splits option.splits)
  moreover have "run_wf (rl_sess ?v t)" for t
    using relay_invD(2)[OF d(1), of t] d unfolding fields by (cases "t = s") (auto simp: run_wf_def)
  moreover have "rs_wf F (rl_sess ?v t)" for t
    using relay_invD(1)[OF d(1), of t] rs_wf_run[OF d(6), of "Run_await i False"] unfolding fields by auto
  moreover have "calm (rl_sess ?v t)" for t 
    using relay_invD(7)[OF d(1)] unfolding fields by (simp add: calm_def)
  ultimately show ?thesis by (simp add: relay_inv_def)
qed

section \<open>The end of a session\<close>

text \<open>The state without the session that ended: out of the map, the directory and the count.\<close>

definition ended :: "rid \<Rightarrow> relay \<Rightarrow> relay" where
  "ended s r = (let x = rl_sess r s in
     (on_relay s (\<lambda>x. (relay_close (x\<lparr>rs_finished := True\<rparr>))\<lparr>rs_run := Run_done\<rparr>) r)
     \<lparr>rl_dir := if rs_registered x then dir_remove (rs_from_mac x) (directory_port_kind x) (rs_from_port x) (rl_dir r)
        else rl_dir r,
      rl_names := if rs_registered x \<and> \<not> rs_superseded x \<and> reg_find (rs_identifier x) r = Some s
        then um_erase (rs_identifier x) (rl_names r) else rl_names r,
      rl_active := rl_active r - 1\<rparr>)"

lemma ended_fields:
  "rl_next (ended s r) = rl_next r" "rl_waiters (ended s r) = rl_waiters r" "rl_active (ended s r) = rl_active r - 1"
  "rl_sess (ended s r) t = (if t = s then (relay_close ((rl_sess r s)\<lparr>rs_finished := True\<rparr>))\<lparr>rs_run := Run_done\<rparr>
     else rl_sess r t)"
  by (simp_all add: ended_def Let_def)

lemma ended_inv:
  assumes r: "running F s b r"
  shows "relay_inv F {} (ended s r)" "map_of (rl_names (ended s r)) n \<noteq> Some s"
    "map_of (rl_names (ended s r)) m = (if map_of (rl_names r) m = Some s then None else map_of (rl_names r) m)"
proof -
  note d = runningD[OF r] and names = relay_invD(3)[OF runningD(1)[OF r]]
  let ?v = "ended s r" and ?x = "rl_sess r s"
  have act: "active ?v = active r - {s}" using d by (auto simp: active_def ended_fields)
  have fin: "finite (active r)" by (rule finite_subset[of _ "{..<rl_next r}"]) (auto simp: active_def)
  have cur: "current ?v t \<longleftrightarrow> current r t \<and> t \<noteq> s" for t by (auto simp: current_def act ended_fields)
  have isn: "map_of (rl_names r) n = Some t \<longleftrightarrow> current r t \<and> rs_identifier (rl_sess r t) = n" for n t
    using names unfolding names_ok_def by blast
  have mapn: "map_of (rl_names ?v) n = (if map_of (rl_names r) n = Some s then None else map_of (rl_names r) n)" for n
    using isn[of n s] isn[of "rs_identifier ?x" s]
    by (auto simp: ended_def Let_def reg_find_def map_of_um_erase current_def)
  show "map_of (rl_names ?v) n \<noteq> Some s" by (simp add: mapn)
  show "map_of (rl_names ?v) m = (if map_of (rl_names r) m = Some s then None else map_of (rl_names r) m)" by (rule mapn)
  have "um_wf (rl_names ?v)" using names by (simp add: ended_def Let_def names_ok_def)
  moreover have "map_of (rl_names ?v) n = Some t \<longleftrightarrow> current ?v t \<and> rs_identifier (rl_sess ?v t) = n" for n t
    using isn[of n t] isn[of n s] by (auto simp: mapn cur ended_fields)
  ultimately have "names_ok ?v" by (simp add: names_ok_def)
  moreover have "active_ok ?v"
    using relay_invD(4)[OF d(1)] d(5) fin by (auto simp: active_ok_def act ended_fields)
  moreover have "dir_ok ?v"
  proof -
    have ok: "dir_wf (rl_dir r)" using relay_invD(5)[OF d(1)] by (simp add: dir_ok_def)
    have has: "dir_has (rl_dir ?v) = dir_has (rl_dir r) - (if b then {port_key ?x} else {})" "dir_wf (rl_dir ?v)"
      using d(4) ok by (auto simp: ended_def Let_def pd.remove_has pd.remove_ok port_key_def)
    have "\<exists>t\<in>active ?v. rs_registered (rl_sess ?v t) \<and> port_key (rl_sess ?v t) = e" if "e \<in> dir_has (rl_dir ?v)" for e
    proof -
      obtain t where "t \<in> active r" "rs_registered (rl_sess r t)" "port_key (rl_sess r t) = e"
        using relay_invD(5)[OF d(1)] \<open>e \<in> dir_has (rl_dir ?v)\<close> has unfolding dir_ok_def by blast
      moreover from this have "t \<noteq> s" using d(4) \<open>e \<in> dir_has (rl_dir ?v)\<close> has by (auto split: if_splits)
      ultimately show ?thesis by (intro bexI[of _ t]) (simp_all add: ended_fields act)
    qed
    then show ?thesis using has by (simp add: dir_ok_def)
  qed
  moreover have "wait_ok F {} ?v"
    using relay_invD(6)[OF d(1)] by (auto simp: wait_ok_def ended_fields mapn split: if_splits)
  moreover have "run_wf (rl_sess ?v t)" for t
    using relay_invD(2)[OF d(1), of t] by (cases "t = s") (auto simp: run_wf_def ended_fields)
  moreover have "rs_wf F (rl_sess ?v t)" for t
  proof -
    have "rs_wf F (relay_close ?x)" by (rule rs_wf_close[OF d(6)])
    moreover have "(relay_close (?x\<lparr>rs_finished := True\<rparr>))\<lparr>rs_run := Run_done\<rparr>
        = (relay_close ?x)\<lparr>rs_finished := True, rs_run := Run_done\<rparr>"
      by (simp add: relay_close_def)
    moreover have "rs_wf F (y\<lparr>rs_finished := True, rs_run := Run_done\<rparr>)" if "rs_wf F y" "rs_closed y" for y
      using that by (auto simp: rs_wf_def ro.awake_inv_def get_identifier_def split: session_mode.splits)
    ultimately show ?thesis using relay_invD(1)[OF d(1), of t] by (simp add: ended_fields)
  qed
  moreover have "calm (rl_sess ?v t)" for t
    using relay_invD(7)[OF d(1), of t] by (simp add: ended_fields calm_def)
  ultimately show "relay_inv F {} ?v" by (simp add: relay_inv_def)
qed

text \<open>\<^verbatim>\<open>finish\<close> is that, and closing the peer.\<close>

lemma run_end_eq:
  assumes r: "running F s b r"
  shows "run_end F s r = (let x = rl_sess r s; peer = get_peer_identifier F x in
    if rs_registered x \<and> \<not> rs_superseded x \<and> peer \<noteq> [] then
      (case reg_find peer (ended s r) of None \<Rightarrow> ended s r | Some p \<Rightarrow> on_relay p relay_close (ended s r))
    else ended s r)"
proof -
  note d = runningD[OF r]
  have pos: "0 < rl_active r"
    using relay_invD(4)[OF d(1)] d(5) finite_subset[of "active r" "{..<rl_next r}"]
    by (auto simp: active_ok_def card_gt_0_iff active_def)
  let ?x = "rl_sess r s"
  define peer where "peer = get_peer_identifier F ?x"
  have other: "reg_find peer (ended s r) \<noteq> Some s" using ended_inv(2)[OF r] by (simp add: reg_find_def)
  let ?r1 = "on_relay s (\<lambda>x. relay_close (x\<lparr>rs_finished := True\<rparr>)) r"
  define r2 where "r2 = (if rs_registered ?x
     then ?r1\<lparr>rl_dir := dir_remove (rs_from_mac ?x) (directory_port_kind ?x) (rs_from_port ?x) (rl_dir ?r1)\<rparr> else ?r1)"
  define r3 where "r3 = (if rs_registered ?x \<and> \<not> rs_superseded ?x then reg_remove (rs_identifier ?x) s r2 else r2)"
  have e: "ended s r = on_relay s (\<lambda>x. x\<lparr>rs_run := Run_done\<rparr>) (r3\<lparr>rl_active := rl_active r - 1\<rparr>)"
    by (rule relay_eqI) (auto simp: ended_def Let_def r3_def r2_def reg_remove_def reg_find_def on_relay_def)
  have names: "reg_find n (ended s r) = reg_find n r3" for n by (simp add: e reg_find_def)
  have act: "rl_active r3 = rl_active r" by (simp add: r3_def r2_def reg_remove_def)
  have fin: "run_end F s r = on_relay s (\<lambda>x. x\<lparr>rs_run := Run_done\<rparr>) (dec_active
      (if rs_registered ?x \<and> \<not> rs_superseded ?x \<and> peer \<noteq> [] then
        (case reg_find peer r3 of None \<Rightarrow> r3 | Some p \<Rightarrow> on_relay p relay_close r3) else r3))"
    unfolding run_end_def finish_def Let_def if_not_P[OF d(3)] r2_def[symmetric] r3_def[symmetric] peer_def[symmetric]
    by (auto simp: r3_def r2_def split: option.split)
  show ?thesis
  proof (cases "rs_registered ?x \<and> \<not> rs_superseded ?x \<and> peer \<noteq> []")
    case False
    have "run_end F s r = on_relay s (\<lambda>x. x\<lparr>rs_run := Run_done\<rparr>) (dec_active r3)"
      unfolding fin if_not_P[OF False] ..
    then show ?thesis using False act pos by (auto simp: peer_def[symmetric] Let_def dec_active_def e)
  next
    case True
    show ?thesis
    proof (cases "reg_find peer r3")
      case None
      then have "run_end F s r = ended s r" using True act pos by (simp add: fin dec_active_def e)
      then show ?thesis using None True by (simp add: peer_def[symmetric] Let_def names)
    next
      case (Some p)
      then have "p \<noteq> s" using other names by auto
      then have "on_relay s (\<lambda>x. x\<lparr>rs_run := Run_done\<rparr>) (dec_active (on_relay p relay_close r3))
          = on_relay p relay_close (ended s r)"
        unfolding e using act pos by (intro relay_eqI) (auto simp: dec_active_def)
      then have "run_end F s r = on_relay p relay_close (ended s r)" using True Some by (simp add: fin)
      then show ?thesis using True Some by (simp add: peer_def[symmetric] Let_def names)
    qed
  qed
qed

text \<open>A session found under a name is registered, and may be closed or sent to.\<close>

lemma found_current: "relay_inv F B r \<Longrightarrow> reg_find n r = Some t \<Longrightarrow> current r t \<and> rs_identifier (rl_sess r t) = n"
  using relay_invD(3)[of F B r] by (simp add: names_ok_def reg_find_def)

lemma calm_registered: "rs_registered x \<Longrightarrow> calm x"
  by (simp add: calm_def)

lemma found_mild:
  assumes "relay_inv F B r" "reg_find n r = Some t" "mild F f"
  shows "relay_inv F B (on_relay t f r)"
  using relay_inv_mild[OF assms(1,3), of t] found_current[OF assms(1,2)] mildD(3)[OF assms(3)]
  by (simp add: calm_registered current_def)

lemma run_end_inv: "running F s b r \<Longrightarrow> relay_inv F {} (run_end F s r)"
  using ended_inv(1) mild_close found_mild
  by (fastforce simp: run_end_eq Let_def split: option.split)

end
