(* ===== verification/Relay_Server.thy ===== *)
theory Relay_Server
  imports Relay_Steps
begin

text \<open>
  The relay as a transition system: the acceptor, the coroutines of every session, the clock.  Every step
  keeps the invariant, so every reachable state has it.
\<close>

section \<open>Every step of a session ends in an await or in the end of the session\<close>

lemma forward_head_inv:
  assumes "running F s b r"
  shows "relay_inv F {} (forward_head F s r)"
proof -
  have "on_relay s (\<lambda>x. x\<lparr>rs_run := if rs_mode x = PTP_LISTEN then Run_listen else Run_header\<rparr>) r
      = on_relay s (\<lambda>x. x\<lparr>rs_run := if rs_mode (rl_sess r s) = PTP_LISTEN then Run_listen else Run_header\<rparr>) r"
    by (simp add: on_relay_def)
  then show ?thesis
    using run_end_inv[OF assms] relay_inv_await[OF assms, of "if rs_mode (rl_sess r s) = PTP_LISTEN then Run_listen else Run_header"]
    by (simp add: forward_head_def Let_def split: if_splits)
qed

lemma establish_self_inv:
  assumes r: "running F s False r"
  shows "relay_inv F {} (establish_self F s r)"
proof -
  obtain ok v where reg: "register_self F s r = (ok, v)" by (cases "register_self F s r")
  then show ?thesis
    using register_self_running(1)[OF r reg] forward_head_inv run_end_inv
    by (cases ok) (auto simp: establish_self_def)
qed

lemma register_self_sess:
  assumes reg: "register_self F s r = (ok, v)" and s: "running F s False r"
  shows "rs_closed (rl_sess v s) = rs_closed (rl_sess r s)" "rs_established (rl_sess v s) = rs_established (rl_sess r s)"
    "rs_run (rl_sess v s) = rs_run (rl_sess (reg_add (get_identifier F (rl_sess r s)) s
       (on_relay s (\<lambda>x. x\<lparr>rs_identifier := get_identifier F x\<rparr>) r)) s)"
proof -
  let ?id = "\<lambda>x. x\<lparr>rs_identifier := get_identifier F x\<rparr>"
  let ?r1 = "on_relay s ?id r" and ?n = "get_identifier F (rl_sess r s)"
  have v: "rl_sess v s = (rl_sess (reg_add ?n s ?r1) s)\<lparr>rs_registered := True\<rparr>"
    using reg by (auto simp: register_self_def Let_def split: prod.splits)
  have "reg_find ?n ?r1 \<noteq> Some s"
    using found_current[OF runningD(1)[OF s], of ?n s] runningD(4)[OF s] by (auto simp: reg_find_def current_def)
  then have "rl_sess (reg_add ?n s ?r1) s = (case map_of (rl_waiters r) ?n of None \<Rightarrow> rl_sess ?r1 s
      | Some ws \<Rightarrow> if s \<in> set ws then cancel_wait (rl_sess ?r1 s) else rl_sess ?r1 s)"
    by (auto simp: reg_add_def Let_def fold_cancel_sess split: option.split)
  then show "rs_closed (rl_sess v s) = rs_closed (rl_sess r s)"
    "rs_established (rl_sess v s) = rs_established (rl_sess r s)"
    by (auto simp: v split: option.split)
  show "rs_run (rl_sess v s) = rs_run (rl_sess (reg_add ?n s ?r1) s)" by (simp add: v)
qed

lemma register_self_keeps_registered:
  assumes "register_self F s r = (ok, v)" "t \<noteq> s"
  shows "rs_registered (rl_sess v t) = rs_registered (rl_sess r t)"
proof -
  have "rs_registered (rl_sess (reg_add n s r) t) = rs_registered (rl_sess r t)" for n r
    by (simp add: reg_add_def Let_def fold_cancel_sess split: option.split)
  moreover have "rl_sess v = rl_sess (on_relay s (\<lambda>x. x\<lparr>rs_registered := True\<rparr>) (reg_add (get_identifier F (rl_sess r s)) s
      (on_relay s (\<lambda>x. x\<lparr>rs_identifier := get_identifier F x\<rparr>) r)))"
    using assms(1) by (auto simp: register_self_def Let_def split: prod.splits)
  ultimately show ?thesis using assms(2) by simp
qed

lemma mild_expiry: "mild F (\<lambda>x. x\<lparr>rs_expiry := t\<rparr>)"
proof -
  have "rs_wf F (x\<lparr>rs_expiry := t\<rparr>) = rs_wf F x" for x
    by (simp add: rs_wf_def ro.awake_inv_def get_identifier_def split: session_mode.split)
  then show ?thesis by (simp add: mild_def port_key_def directory_port_kind_def)
qed

lemma expires_after_simps [simp]:
  "rl_next (expires_after s ms r) = rl_next r" "rl_names (expires_after s ms r) = rl_names r"
  "rl_waiters (expires_after s ms r) = rl_waiters r" "rl_active (expires_after s ms r) = rl_active r"
  "rl_dir (expires_after s ms r) = rl_dir r" "rl_now (expires_after s ms r) = rl_now r"
  "rl_sess (expires_after s ms r) = (rl_sess r)(s := (rl_sess r s)\<lparr>rs_expiry := rl_now r + ms\<rparr>)"
  by (simp_all add: expires_after_def on_relay_def)

lemma reg_find_expires [simp]: "reg_find n (expires_after s ms r) = reg_find n r"
  by (simp add: reg_find_def)

lemma running_expires: "running F s b r \<Longrightarrow> running F s b (expires_after s ms r)"
  unfolding expires_after_def
  using relay_invD(7)[OF runningD(1), of F s b r s] by (intro running_mild mild_expiry) (simp_all add: calm_def)

text \<open>What the session found before it registered itself is not the session.\<close>

lemma connect_to_inv:
  assumes r: "running F s False r" and l: "reg_find n r = Some l"
  shows "relay_inv F {} (connect_to F s l r)"
proof -
  let ?r = "on_relay s (\<lambda>x. x\<lparr>rs_established := False\<rparr>) r"
  note d = runningD[OF r]
  have "rs_wf F ((rl_sess r s)\<lparr>rs_established := False\<rparr>)"
    using d(6) by (auto simp: rs_wf_def ro.awake_inv_def get_identifier_def split: session_mode.splits)
  then have r1: "running F s False ?r"
    using d relay_invD(7)[OF d(1), of s] by (intro running_fresh[OF r]) (auto simp: calm_def)
  have ls: "l \<noteq> s" "rs_registered (rl_sess r l)" using found_current[OF d(1) l] d(4) by (auto simp: current_def)
  obtain ok v where reg: "register_self F s ?r = (ok, v)" by (cases "register_self F s ?r")
  note v = register_self_running(1)[OF r1 reg]
  have reg_l: "rs_registered (rl_sess v l)"
    using register_self_keeps_registered[OF reg ls(1)] ls by simp
  have "\<not> rs_closed (rl_sess v s)"
    using register_self_sess(1)[OF reg r1] relay_invD(7)[OF d(1), of s] d by (simp add: calm_def)
  moreover have "running F s True (on_relay l (queue_send b) v)" for b
    using reg_l by (intro running_mild[OF v mild_queue_send] calm_registered) simp
  ultimately have "relay_inv F {} (on_relay s (\<lambda>x. x\<lparr>rs_run := Run_bond False\<rparr>)
      (expires_after s connect_time_limit_ms (on_relay l (queue_send b) v)))" for b
    using ls(1) running_expires by (intro relay_inv_await[where b = True]) simp_all
  then show ?thesis using run_end_inv[OF v] by (cases ok) (simp_all add: connect_to_def reg Let_def)
qed

lemma establish_connect_inv:
  assumes r: "running F s False r"
  shows "relay_inv F {} (establish_connect F i s r)"
  using run_end_inv[OF r] connect_to_inv[OF r] relay_inv_wait[OF running_expires[OF r], of i]
  by (auto simp: establish_connect_def await_session_def Let_def listen_name_def split: option.split)

lemma running_send: "running F s b r \<Longrightarrow> rs_registered (rl_sess r t) \<Longrightarrow> running F s b (on_relay t (queue_send x) r)"
  by (intro running_mild mild_queue_send calm_registered) simp_all

lemma establish_accept_inv:
  assumes r: "running F s False r"
  shows "relay_inv F {} (establish_accept F i s r)"
proof (cases "reg_find (get_connect_session_name F (pi_dst_addr i) (pi_dport i) (pi_src_addr i) (pi_sport i)) r")
  case None
  then show ?thesis using run_end_inv[OF r] by (simp add: establish_accept_def Let_def)
next
  case (Some c)
  let ?r = "on_relay s (\<lambda>x. x\<lparr>rs_established := True\<rparr>) r"
  note d = runningD[OF r]
  have "rs_wf F ((rl_sess r s)\<lparr>rs_established := True\<rparr>)"
    using d(6) by (auto simp: rs_wf_def ro.awake_inv_def get_identifier_def split: session_mode.splits)
  then have r1: "running F s False ?r"
    using d relay_invD(7)[OF d(1), of s] by (intro running_fresh[OF r]) (auto simp: calm_def)
  have cs: "c \<noteq> s" "rs_registered (rl_sess r c)" using found_current[OF d(1) Some] d(4) by (auto simp: current_def)
  obtain ok v where reg: "register_self F s ?r = (ok, v)" by (cases "register_self F s ?r")
  note v = register_self_running(1)[OF r1 reg]
  have rc: "rs_registered (rl_sess v c)" using register_self_keeps_registered[OF reg cs(1)] cs by simp
  have "running F s True (on_relay c bond (on_relay s (queue_send b') (on_relay c (queue_send b) v)))" for b b'
    using running_send[OF running_send[OF v rc, of b], of s b'] rc runningD(4)[OF v] cs
    by (intro running_mild[OF _ mild_bond] calm_registered) (simp_all add: bond_def)
  note h = forward_head_inv[OF this]
  show ?thesis
    using run_end_inv[OF r] run_end_inv[OF v] h Some
    by (cases ok) (auto simp: establish_accept_def Let_def reg)
qed

text \<open>The session runs: its code was resumed.\<close>

lemma runningI:
  assumes "relay_inv F {} r" "s < rl_next r" "rs_run (rl_sess r s) \<noteq> Run_done"
  shows "running F s (rs_registered (rl_sess r s)) r"
  using assms relay_inv_busy[OF assms(1)] relay_invD(2)[OF assms(1), of s] by (simp add: running_def run_wf_def)

lemma running_early:
  assumes "relay_inv F {} r" "s < rl_next r" "early (rs_run (rl_sess r s))"
  shows "running F s False r"
  using runningI[OF assms(1,2)] relay_invD(2)[OF assms(1), of s] assms(3) by (auto simp: run_wf_def early_def)

lemma set_endpoints_wf:
  assumes "rs_wf F x" "\<not> rs_registered x" "length m = 8" "\<forall>m' \<in> set_option om. length m' = 8"
  shows "rs_wf F (set_endpoints m p om p' (x\<lparr>rs_mode := md\<rparr>))"
  using assms by (auto simp: rs_wf_def set_endpoints_def Let_def ro.awake_inv_def split: option.splits)

lemma set_endpoints_frame [simp]:
  "rs_registered (set_endpoints m p om p' x) = rs_registered x" "rs_finished (set_endpoints m p om p' x) = rs_finished x"
  "rs_closed (set_endpoints m p om p' x) = rs_closed x" "rs_write_queue (set_endpoints m p om p' x) = rs_write_queue x"
  "rs_writer (set_endpoints m p om p' x) = rs_writer x"
  by (simp_all add: set_endpoints_def Let_def split: option.split)

lemma running_endpoints:
  assumes r: "running F s False r" and m: "length m = 8" "\<forall>m' \<in> set_option om. length m' = 8"
  shows "running F s False (on_relay s (\<lambda>x. set_endpoints m p om p' (x\<lparr>rs_mode := md\<rparr>)) r)"
proof -
  note d = runningD[OF r]
  show ?thesis
    using d(3,4) relay_invD(7)[OF d(1), of s] set_endpoints_wf[OF d(6) _ m]
    by (intro running_fresh[OF r]) (simp_all add: calm_def)
qed

lemma init_of_bytes_lengths:
  "length b = 24 \<Longrightarrow> length (pi_src_addr (init_of_bytes b)) = 8 \<and> length (pi_dst_addr (init_of_bytes b)) = 8"
  by (simp add: init_of_bytes_def)

lemma run_init_inv:
  assumes r: "running F s False r" and b: "\<forall>x \<in> set_option b. length x = 24"
  shows "relay_inv F {} (run_init F b s r)"
proof (cases b)
  case (Some x)
  then have m: "length (pi_src_addr (init_of_bytes x)) = 8" "length (pi_dst_addr (init_of_bytes x)) = 8"
    using b init_of_bytes_lengths[of x] by simp_all
  note e = running_endpoints[OF r m(1)]
  show ?thesis
    using Some run_end_inv[OF r] establish_self_inv[OF e] establish_connect_inv[OF e] establish_accept_inv[OF e] m
    by (auto simp: run_init_def Let_def)
qed (use run_end_inv[OF r] in \<open>simp add: run_init_def\<close>)

section \<open>The waiters of a name\<close>

lemma remove_waiter_frame [simp]:
  "rl_sess (remove_waiter n s r) = rl_sess r" "rl_next (remove_waiter n s r) = rl_next r"
  "rl_names (remove_waiter n s r) = rl_names r" "rl_active (remove_waiter n s r) = rl_active r"
  "rl_dir (remove_waiter n s r) = rl_dir r" "rl_now (remove_waiter n s r) = rl_now r"
  by (auto simp: remove_waiter_def Let_def split: option.split)

lemma remove_waiter_map:
  assumes "um_wf (rl_waiters r)"
  shows "um_wf (rl_waiters (remove_waiter n s r))"
    "t \<noteq> s \<Longrightarrow> \<exists>ws. map_of (rl_waiters r) m = Some ws \<and> t \<in> set ws \<Longrightarrow>
     \<exists>ws. map_of (rl_waiters (remove_waiter n s r)) m = Some ws \<and> t \<in> set ws"
proof -
  show "um_wf (rl_waiters (remove_waiter n s r))"
    using assms by (auto simp: remove_waiter_def Let_def um_wf_update split: option.split)
  assume t: "t \<noteq> s" and "\<exists>ws. map_of (rl_waiters r) m = Some ws \<and> t \<in> set ws"
  then obtain ws where ws: "map_of (rl_waiters r) m = Some ws" "t \<in> set ws" by blast
  then have "filter (\<lambda>t. t \<noteq> s) ws \<noteq> []" using t by (auto simp: filter_empty_conv)
  then show "\<exists>ws. map_of (rl_waiters (remove_waiter n s r)) m = Some ws \<and> t \<in> set ws"
    using ws t assms
    by (cases "m = n") (auto simp: remove_waiter_def Let_def update_conv' map_of_um_erase split: option.split)
qed

lemma running_remove_waiter:
  assumes r: "running F s b r"
  shows "running F s b (remove_waiter n s r)"
proof -
  let ?v = "remove_waiter n s r"
  note d = runningD[OF r]
  have act: "active ?v = active r" "current ?v = current r" by (auto simp: active_def current_def fun_eq_iff)
  note w = relay_invD(6)[OF d(1), unfolded wait_ok_def]
  have "wait_ok F {s} ?v"
    unfolding wait_ok_def remove_waiter_frame using w remove_waiter_map[where r = r and n = n and s = s] by fastforce
  moreover have "names_ok ?v" "active_ok ?v" "dir_ok ?v"
    using relay_invD(3-5)[OF d(1)] by (simp_all add: names_ok_def active_ok_def dir_ok_def act)
  ultimately show ?thesis using r by (simp add: running_def relay_inv_def)
qed

lemma run_await_inv:
  assumes r: "running F s False r"
  shows "relay_inv F {} (run_await F i s r)"
proof -
  note r' = running_remove_waiter[OF r]
  show ?thesis
    using run_end_inv[OF r'] connect_to_inv[OF r'] by (auto simp: run_await_def await_session_resume_def Let_def split: option.split)
qed

section \<open>Forwarding\<close>

lemma running_found:
  assumes "running F s b r" "reg_find n r = Some t"
  shows "running F s b (on_relay t (queue_send x) r)"
  using found_current[OF runningD(1)[OF assms(1)] assms(2)] running_send[OF assms(1)] by (simp add: current_def)

lemma deliver_inv:
  assumes "running F s b r"
  shows "relay_inv F {} (deliver_pdp F t sz p s r)" "relay_inv F {} (deliver_ptp F sz p s r)"
  using forward_head_inv[OF assms] forward_head_inv[OF running_found[OF assms]]
  by (simp_all add: deliver_pdp_def deliver_ptp_def Let_def split: option.split)

lemma run_header_inv:
  assumes r: "running F s b r"
  shows "relay_inv F {} (run_header F h s r)"
proof -
  have "relay_inv F {} (on_relay s (\<lambda>x. x\<lparr>rs_run := Run_payload t sz\<rparr>) r)"
    "relay_inv F {} (on_relay s (\<lambda>x. x\<lparr>rs_run := Run_data sz\<rparr>) r)" for t sz
    by (rule relay_inv_await[OF r]; simp)+
  then show ?thesis
    using run_end_inv[OF r] deliver_inv[OF r] by (simp add: run_header_def Let_def split: option.split)
qed

lemma run_payload_inv:
  assumes r: "running F s b r" and i: "relay_inv F {} r"
  shows "relay_inv F {} (run_payload F p s r)"
  using run_end_inv[OF r] deliver_inv[OF r] i
  by (simp add: run_payload_def split: option.split run_pc.split)

section \<open>The server\<close>

text \<open>
  The relay with its acceptor: whether it is open, and whether its coroutine is in its loop.
\<close>

record relay_server =
  rv_relay :: relay
  rv_open :: bool
  rv_loop :: bool

definition relay_server_init :: relay_server where
  "relay_server_init = \<lparr>rv_relay = relay_init, rv_open = True, rv_loop = True\<rparr>"

text \<open>How \<^verbatim>\<open>async_accept\<close> completes: aborted, another error, or a socket with this
  peer.\<close>

datatype relay_accepted = Racc_aborted | Racc_error | Racc_socket peer

definition run_relay_acceptor :: "fmt_api \<Rightarrow> relay_accepted \<Rightarrow> relay_server \<Rightarrow> relay_server" where
  "run_relay_acceptor F a v = (case a of
     Racc_aborted \<Rightarrow> v\<lparr>rv_loop := False\<rparr>
   | Racc_error \<Rightarrow> v\<lparr>rv_loop := rv_open v\<rparr>
   | Racc_socket peer \<Rightarrow> v\<lparr>rv_relay := relay_accept (describe_peer F peer) (rv_relay v), rv_loop := rv_open v\<rparr>)"

definition relay_stop :: "relay_server \<Rightarrow> relay_server" where
  "relay_stop v = v\<lparr>rv_open := False\<rparr>"

datatype relay_action =
    Relay_tick
  | Relay_accept relay_accepted
  | Relay_stop
  | Run_begin rid
  | Run_init_timeout rid
  | Run_got_init rid "bytes option"
  | Run_waited rid
  | Run_bonded rid
  | Run_heard rid bool
  | Run_got_header rid "bytes option"
  | Run_got_payload rid "bytes option"
  | Relay_writer_resume rid
  | Relay_writer_wrote rid bool

definition header_size :: "session_mode \<Rightarrow> nat" where
  "header_size m = (if m = PDP then 14 else 4)"

text \<open>
  What the program counters and the environment allow.  \<^verbatim>\<open>async_read\<close> delivers what was
  asked for, or an error.  A wait on a timer ends when it was cancelled, or when its timer has run out.
\<close>

definition relay_enabled :: "relay_action \<Rightarrow> relay_server \<Rightarrow> bool" where
  "relay_enabled a v = (let r = rv_relay v in (case a of
     Relay_tick \<Rightarrow> True
   | Relay_accept x \<Rightarrow> rv_loop v \<and> (x = Racc_aborted \<longrightarrow> \<not> rv_open v)
   | Relay_stop \<Rightarrow> rv_open v
   | Run_begin s \<Rightarrow> s < rl_next r \<and> rs_run (rl_sess r s) = Run_start
   | Run_init_timeout s \<Rightarrow> s < rl_next r \<and> rs_run (rl_sess r s) = Run_init \<and> rl_now r \<ge> rs_expiry (rl_sess r s)
   | Run_got_init s b \<Rightarrow> s < rl_next r \<and> rs_run (rl_sess r s) = Run_init \<and> (\<forall>x\<in>set_option b. length x = 24)
   | Run_waited s \<Rightarrow> s < rl_next r \<and> (case rs_run (rl_sess r s) of
         Run_await _ c \<Rightarrow> c \<or> rl_now r \<ge> rs_expiry (rl_sess r s) | _ \<Rightarrow> False)
   | Run_bonded s \<Rightarrow> s < rl_next r \<and> (case rs_run (rl_sess r s) of
         Run_bond c \<Rightarrow> c \<or> rl_now r \<ge> rs_expiry (rl_sess r s) | _ \<Rightarrow> False)
   | Run_heard s ec \<Rightarrow> s < rl_next r \<and> rs_run (rl_sess r s) = Run_listen
   | Run_got_header s b \<Rightarrow> s < rl_next r \<and> rs_run (rl_sess r s) = Run_header
       \<and> (\<forall>x\<in>set_option b. length x = header_size (rs_mode (rl_sess r s)))
   | Run_got_payload s b \<Rightarrow> s < rl_next r \<and> (case rs_run (rl_sess r s) of
         Run_payload _ sz \<Rightarrow> \<forall>x\<in>set_option b. length x = unat sz
       | Run_data sz \<Rightarrow> \<forall>x\<in>set_option b. length x = unat sz
       | _ \<Rightarrow> False)
   | Relay_writer_resume s \<Rightarrow> s < rl_next r \<and> (rs_writer (rl_sess r s) = Wr_start \<or> rs_writer (rl_sess r s) = Wr_wait True)
   | Relay_writer_wrote s ec \<Rightarrow> s < rl_next r \<and> (case rs_writer (rl_sess r s) of Wr_write _ \<Rightarrow> True | _ \<Rightarrow> False)))"

definition run_waited :: "fmt_api \<Rightarrow> rid \<Rightarrow> relay \<Rightarrow> relay" where
  "run_waited F s r = (case rs_run (rl_sess r s) of Run_await i _ \<Rightarrow> run_await F i s r | _ \<Rightarrow> r)"

definition relay_step :: "fmt_api \<Rightarrow> relay_action \<Rightarrow> relay \<Rightarrow> relay" where
  "relay_step F a r = (case a of
     Relay_tick \<Rightarrow> r\<lparr>rl_now := Suc (rl_now r)\<rparr>
   | Run_begin s \<Rightarrow> read_init s r
   | Run_init_timeout s \<Rightarrow> run_init F None s r
   | Run_got_init s b \<Rightarrow> run_init F b s r
   | Run_waited s \<Rightarrow> run_waited F s r
   | Run_bonded s \<Rightarrow> run_bond F s r
   | Run_heard s ec \<Rightarrow> run_listen F ec s r
   | Run_got_header s b \<Rightarrow> run_header F b s r
   | Run_got_payload s b \<Rightarrow> run_payload F b s r
   | Relay_writer_resume s \<Rightarrow> on_relay s relay_writer_loop r
   | Relay_writer_wrote s ec \<Rightarrow> on_relay s (relay_writer_written ec) r
   | _ \<Rightarrow> r)"

definition relay_perform :: "fmt_api \<Rightarrow> relay_action \<Rightarrow> relay_server \<Rightarrow> relay_server" where
  "relay_perform F a v = (case a of
     Relay_accept x \<Rightarrow> run_relay_acceptor F x v
   | Relay_stop \<Rightarrow> relay_stop v
   | _ \<Rightarrow> v\<lparr>rv_relay := relay_step F a (rv_relay v)\<rparr>)"

inductive relay_reachable :: "fmt_api \<Rightarrow> relay_server \<Rightarrow> bool" for F :: fmt_api where
  start: "relay_reachable F relay_server_init"
| step: "relay_reachable F v \<Longrightarrow> relay_enabled a v \<Longrightarrow> relay_reachable F (relay_perform F a v)"

section \<open>Every step keeps the invariant\<close>

lemma relay_inv_tick: "relay_inv F {} r \<Longrightarrow> relay_inv F {} (r\<lparr>rl_now := t\<rparr>)"
  by (simp add: relay_inv_def names_ok_def active_ok_def dir_ok_def wait_ok_def current_def active_def)

lemma new_relay_session_wf:
  "rs_wf F (new_relay_session p t)" "run_wf (new_relay_session p t)" "calm (new_relay_session p t)"
  by (simp_all add: new_relay_session_def rs_wf_def run_wf_def calm_def ro.awake_inv_def)

lemma relay_accept_inv:
  assumes i: "relay_inv F {} r"
  shows "relay_inv F {} (relay_accept p r)"
proof (cases "rl_active r \<ge> max_num_sessions")
  case False
  let ?x = "new_relay_session p (rl_now r)" and ?n = "rl_next r" and ?v = "relay_accept p r"
  have v: "rl_sess ?v = (rl_sess r)(?n := ?x)" "rl_next ?v = Suc ?n" "rl_names ?v = rl_names r"
    "rl_waiters ?v = rl_waiters r" "rl_active ?v = Suc (rl_active r)" "rl_dir ?v = rl_dir r"
    using False by (simp_all add: relay_accept_def inc_active_def)
  have x: "\<not> rs_registered ?x" "\<not> rs_finished ?x" "rs_run ?x = Run_start" by (simp_all add: new_relay_session_def)
  have act: "active ?v = insert ?n (active r)" "?n \<notin> active r" using x by (auto simp: active_def v)
  have cur: "current ?v t \<longleftrightarrow> current r t" for t using act x by (auto simp: current_def v)
  have fin: "finite (active r)" by (rule finite_subset[of _ "{..<rl_next r}"]) (auto simp: active_def)
  have ncur: "\<not> current r ?n" using act by (simp add: current_def)
  have "names_ok ?v" using relay_invD(3)[OF i] ncur unfolding names_ok_def cur by (auto simp: v)
  moreover have "active_ok ?v" using relay_invD(4)[OF i] False act fin by (simp add: active_ok_def v)
  moreover have "dir_ok ?v"
    using relay_invD(5)[OF i] act unfolding dir_ok_def v(6) by (fastforce simp: v)
  moreover have "wait_ok F {} ?v" using relay_invD(6)[OF i] x by (simp add: wait_ok_def v)
  moreover have "rs_wf F (rl_sess ?v t)" "run_wf (rl_sess ?v t)" "calm (rl_sess ?v t)" for t
    using relay_invD(1,2,7)[OF i, of t] new_relay_session_wf by (simp_all add: v)
  ultimately show ?thesis by (simp add: relay_inv_def)
qed (use i in \<open>simp add: relay_accept_def\<close>)

lemma writer_resume_inv:
  assumes "relay_inv F {} r"
  shows "relay_inv F {} (on_relay s relay_writer_loop r)"
  using relay_invD(7)[OF assms, of s]
  by (intro relay_inv_mild[OF assms mild_writer_loop]) (auto simp: calm_def relay_writer_loop_def split: list.split)

lemma writer_wrote_inv:
  assumes i: "relay_inv F {} r" and w: "rs_writer (rl_sess r s) = Wr_write b"
  shows "relay_inv F {} (on_relay s (relay_writer_written ec) r)"
proof -
  have "rs_registered (rl_sess r s) \<or> rs_finished (rl_sess r s)"
    using relay_invD(7)[OF i, of s] w by (auto simp: calm_def)
  then have "calm (relay_writer_written ec (rl_sess r s))"
    using mildD(3,5)[OF mild_writer_written[of F ec]] by (auto simp: calm_def)
  then show ?thesis by (rule relay_inv_mild[OF i mild_writer_written])
qed

lemma run_waited_inv:
  assumes i: "relay_inv F {} r" and s: "s < rl_next r"
  shows "relay_inv F {} (run_waited F s r)"
  using i running_early[OF i s] run_await_inv
  by (auto simp: run_waited_def split: run_pc.split)

lemma run_begin_inv:
  assumes i: "relay_inv F {} r" and s: "s < rl_next r" "rs_run (rl_sess r s) = Run_start"
  shows "relay_inv F {} (read_init s r)"
proof -
  have "running F s False r" using running_early[OF i s(1)] s(2) by simp
  then show ?thesis unfolding read_init_def using s by (intro relay_inv_await[OF running_expires]) auto
qed

lemma relay_step_inv:
  assumes i: "relay_inv F {} (rv_relay v)" and e: "relay_enabled a v"
  shows "relay_inv F {} (relay_step F a (rv_relay v))"
proof -
  let ?r = "rv_relay v"
  have run: "running F s (rs_registered (rl_sess ?r s)) ?r" if "s < rl_next ?r" "rs_run (rl_sess ?r s) \<noteq> Run_done" for s
    using runningI[OF i] that .
  show ?thesis
  proof (cases a)
    case Relay_tick
    then show ?thesis using relay_inv_tick[OF i] by (simp add: relay_step_def)
  next
    case (Run_begin s)
    then show ?thesis using e run_begin_inv[OF i] by (simp add: relay_step_def relay_enabled_def Let_def)
  next
    case (Run_init_timeout s)
    then show ?thesis using e run_init_inv[of F s ?r None] running_early[OF i, of s]
      by (simp add: relay_step_def relay_enabled_def Let_def)
  next
    case (Run_got_init s b)
    then show ?thesis using e run_init_inv[of F s ?r b] running_early[OF i, of s]
      by (simp add: relay_step_def relay_enabled_def Let_def)
  next
    case (Run_waited s)
    then show ?thesis using e run_waited_inv[OF i, of s] by (simp add: relay_step_def relay_enabled_def Let_def)
  next
    case (Run_bonded s)
    then show ?thesis using e run[of s] run_end_inv forward_head_inv
      by (auto simp: relay_step_def relay_enabled_def Let_def run_bond_def split: run_pc.splits)
  next
    case (Run_heard s ec)
    then show ?thesis using e run[of s] run_end_inv forward_head_inv
      by (auto simp: relay_step_def relay_enabled_def Let_def run_listen_def)
  next
    case (Run_got_header s b)
    then show ?thesis using e run[of s] run_header_inv by (auto simp: relay_step_def relay_enabled_def Let_def)
  next
    case (Run_got_payload s b)
    then show ?thesis using e run[of s] run_payload_inv[OF _ i]
      by (auto simp: relay_step_def relay_enabled_def Let_def split: run_pc.splits)
  next
    case (Relay_writer_resume s)
    then show ?thesis using writer_resume_inv[OF i] by (simp add: relay_step_def)
  next
    case (Relay_writer_wrote s ec)
    then show ?thesis using e writer_wrote_inv[OF i]
      by (auto simp: relay_step_def relay_enabled_def Let_def split: writer_pc.splits)
  qed (use i in \<open>simp_all add: relay_step_def\<close>)
qed

lemma relay_reachable_inv: "relay_reachable F v \<Longrightarrow> relay_inv F {} (rv_relay v)"
proof (induction rule: relay_reachable.induct)
  case start
  then show ?case by (simp add: relay_server_init_def relay_inv_init)
next
  case (step v a)
  then show ?case
    using relay_step_inv[OF step.IH step.hyps(2)] relay_accept_inv[OF step.IH]
    by (cases a) (auto simp: relay_perform_def run_relay_acceptor_def relay_stop_def split: relay_accepted.split)
qed

end
