(* ===== verification/Relay_Contract.thy ===== *)
theory Relay_Contract
  imports Relay_Server
begin

text \<open>
  What the relay's operations do, on the states its invariant allows: registering under a name, the
  refusal of a port that is open already, the end of a session, and forwarding.
\<close>

section \<open>Registering\<close>

lemma reg_add_names: "map_of (rl_names (reg_add n s r)) = (map_of (rl_names r))(n \<mapsto> s)"
  by (auto simp: reg_add_def Let_def fold_on_relay update_conv' split: option.split)

lemma register_self_fields:
  assumes "register_self F s r = (ok, v)"
  shows "map_of (rl_names v) = (map_of (rl_names r))(get_identifier F (rl_sess r s) \<mapsto> s)"
    "rl_sess v = rl_sess (on_relay s (\<lambda>x. x\<lparr>rs_registered := True\<rparr>) (reg_add (get_identifier F (rl_sess r s)) s
      (on_relay s (\<lambda>x. x\<lparr>rs_identifier := get_identifier F x\<rparr>) r)))"
    "rl_next v = rl_next r"
  using assms by (auto simp: register_self_def Let_def reg_add_names split: prod.splits)

text \<open>The members that say who a session is, through any registration.\<close>

lemma cancel_port_key [simp]: "port_key (cancel_wait x) = port_key x" "rs_write_queue (cancel_wait x) = rs_write_queue x"
  by (simp_all add: port_key_def directory_port_kind_def)

lemma supersede_queue [simp]: "rs_write_queue (supersede x) = rs_write_queue x"
  by (simp add: supersede_def)

lemma reg_add_sess [simp]:
  "rs_mode (rl_sess (reg_add n s r) t) = rs_mode (rl_sess r t)"
  "rs_from_mac (rl_sess (reg_add n s r) t) = rs_from_mac (rl_sess r t)"
  "rs_from_port (rl_sess (reg_add n s r) t) = rs_from_port (rl_sess r t)"
  "rs_to_mac (rl_sess (reg_add n s r) t) = rs_to_mac (rl_sess r t)"
  "rs_to_port (rl_sess (reg_add n s r) t) = rs_to_port (rl_sess r t)"
  "rs_registered (rl_sess (reg_add n s r) t) = rs_registered (rl_sess r t)"
  "rs_identifier (rl_sess (reg_add n s r) t) = rs_identifier (rl_sess r t)"
  "rs_finished (rl_sess (reg_add n s r) t) = rs_finished (rl_sess r t)"
  "rs_write_queue (rl_sess (reg_add n s r) t) = rs_write_queue (rl_sess r t)"
  by (simp_all add: reg_add_def Let_def fold_cancel_sess split: option.split)

lemma register_self_sess_frame:
  assumes "register_self F s r = (ok, v)"
  shows "rs_mode (rl_sess v t) = rs_mode (rl_sess r t)" "port_key (rl_sess v t) = port_key (rl_sess r t)"
    "get_peer_identifier F (rl_sess v t) = get_peer_identifier F (rl_sess r t)"
    "rs_finished (rl_sess v t) = rs_finished (rl_sess r t)"
    "rs_write_queue (rl_sess v t) = rs_write_queue (rl_sess r t)"
  using register_self_fields(2)[OF assms]
  by (auto simp: port_key_def directory_port_kind_def get_peer_identifier_def split: session_mode.split)

text \<open>The session that had the name is closed.\<close>

lemma reg_add_closes:
  assumes "reg_find n r = Some t"
  shows "rs_closed (rl_sess (reg_add n s r) t)"
  using assms by (simp add: reg_add_def Let_def fold_cancel_sess split: option.split)

lemma register_self_closes:
  assumes "register_self F s r = (ok, v)" "reg_find (get_identifier F (rl_sess r s)) r = Some t" "t \<noteq> s"
  shows "rs_closed (rl_sess v t)"
proof -
  have "reg_find (get_identifier F (rl_sess r s)) (on_relay s (\<lambda>x. x\<lparr>rs_identifier := get_identifier F x\<rparr>) r) = Some t"
    using assms(2) by (simp add: reg_find_def)
  from reg_add_closes[OF this] show ?thesis
    using register_self_fields(2)[OF assms(1)] assms(3) by simp
qed

section \<open>The end of a session\<close>

lemma relay_close_run_done: "rs_run (relay_close (x\<lparr>rs_finished := b\<rparr>)) = (if rs_closed x then rs_run x else wake_bond (rs_run x))"
  by (simp add: relay_close_def)

lemma ended_frame:
  "rs_write_queue (rl_sess (ended s r) t) = rs_write_queue (rl_sess r t)"
  "t \<noteq> s \<Longrightarrow> rl_sess (ended s r) t = rl_sess r t"
  "rs_finished (rl_sess (ended s r) s)" "rs_closed (rl_sess (ended s r) s)"
  by (simp_all add: ended_fields)

lemma run_end_ended:
  assumes "running F s b r"
  obtains "run_end F s r = ended s r" | p where "run_end F s r = on_relay p relay_close (ended s r)"
  using run_end_eq[OF assms] by (auto simp: Let_def split: if_splits option.splits)

lemma run_end_frame:
  assumes r: "running F s b r"
  shows "rs_write_queue (rl_sess (run_end F s r) t) = rs_write_queue (rl_sess r t)"
    "rs_finished (rl_sess (run_end F s r) s)" "rs_closed (rl_sess r t) \<Longrightarrow> rs_closed (rl_sess (run_end F s r) t)"
    "rl_dir (run_end F s r) = rl_dir (ended s r)" "rl_names (run_end F s r) = rl_names (ended s r)"
    "rl_active (run_end F s r) = rl_active r - 1" "rs_closed (rl_sess (run_end F s r) s)"
  using run_end_ended[OF r] by (cases; auto simp: ended_frame ended_fields)+

lemma run_end_dir:
  assumes r: "running F s True r"
  shows "dir_has (rl_dir (run_end F s r)) = dir_has (rl_dir r) - {port_key (rl_sess r s)}"
proof -
  have "dir_wf (rl_dir r)" using relay_invD(5)[OF runningD(1)[OF r]] by (simp add: dir_ok_def)
  then show ?thesis
    using runningD(4)[OF r] unfolding run_end_frame(4)[OF r]
    by (simp add: ended_def Let_def pd.remove_has port_key_def)
qed

lemma run_end_dir_any:
  assumes "running F s b r"
  shows "dir_has (rl_dir (run_end F s r)) = dir_has (rl_dir r) - (if b then {port_key (rl_sess r s)} else {})"
proof (cases b)
  case True
  then show ?thesis using run_end_dir assms by simp
next
  case False
  then show ?thesis using run_end_frame(4)[OF assms] runningD(4)[OF assms] by (simp add: ended_def Let_def)
qed

lemma run_end_names:
  assumes "running F s b r"
  shows "reg_find n (run_end F s r) = (if reg_find n r = Some s then None else reg_find n r)"
  using ended_inv(3)[OF assms, of n] by (simp add: reg_find_def run_end_frame(5)[OF assms])

text \<open>The peer of a session that leaves the map goes with it.\<close>

lemma run_end_closes_peer:
  assumes r: "running F s True r" and s: "\<not> rs_superseded (rl_sess r s)"
    and p: "reg_find (get_peer_identifier F (rl_sess r s)) r = Some p" "get_peer_identifier F (rl_sess r s) \<noteq> []"
  shows "rs_closed (rl_sess (run_end F s r) p)"
proof (cases "p = s")
  case True
  then show ?thesis using run_end_frame(7)[OF r] by simp
next
  case False
  then have "reg_find (get_peer_identifier F (rl_sess r s)) (ended s r) = Some p"
    using ended_inv(3)[OF r, of "get_peer_identifier F (rl_sess r s)"] p(1) by (simp add: reg_find_def)
  then show ?thesis
    using run_end_eq[OF r] runningD(4)[OF r] s p(2) by (simp add: Let_def)
qed

section \<open>A port that is open already\<close>

text \<open>
  \<^verbatim>\<open>register_self\<close> puts the session into the map before it asks the directory; when the
  directory refuses, \<^verbatim>\<open>finish\<close> removes the entry it refused for.
\<close>

lemma refused_registration:
  assumes r: "running F s False r" and taken: "port_key (rl_sess r s) \<in> dir_has (rl_dir r)"
    and reg: "register_self F s r = (ok, v)"
  shows "\<not> ok" "port_key (rl_sess r s) \<notin> dir_has (rl_dir (run_end F s v))"
    "reg_find (get_identifier F (rl_sess r s)) (run_end F s v) = None"
    "reg_find (get_identifier F (rl_sess r s)) r = Some t \<Longrightarrow> rs_closed (rl_sess (run_end F s v) t)"
    "rs_finished (rl_sess (run_end F s v) s)"
proof -
  note v = register_self_running[OF r reg]
  show "\<not> ok" using v(2) taken by simp
  show "port_key (rl_sess r s) \<notin> dir_has (rl_dir (run_end F s v))"
    using run_end_dir[OF v(1)] register_self_sess_frame(2)[OF reg, of s] by simp
  show "reg_find (get_identifier F (rl_sess r s)) (run_end F s v) = None"
    using run_end_names[OF v(1)] by (simp add: reg_find_def register_self_fields(1)[OF reg])
  show "rs_finished (rl_sess (run_end F s v) s)" by (rule run_end_frame(2)[OF v(1)])
  assume t: "reg_find (get_identifier F (rl_sess r s)) r = Some t"
  then have "t \<noteq> s" using found_current[OF runningD(1)[OF r] t] runningD(4)[OF r] by (auto simp: current_def)
  then show "rs_closed (rl_sess (run_end F s v) t)"
    using run_end_frame(3)[OF v(1)] register_self_closes[OF reg t] by blast
qed

lemma set_endpoints_fields [simp]:
  "rs_from_mac (set_endpoints m p om p' x) = take 6 m" "rs_from_port (set_endpoints m p om p' x) = p"
  "rs_to_port (set_endpoints m p om p' x) = p'" "rs_mode (set_endpoints m p om p' x) = rs_mode x"
  "rs_to_mac (set_endpoints m p (Some m') p' x) = take 6 m'"
  by (simp_all add: set_endpoints_def Let_def split: option.split)

text \<open>A PDP or listen init block for an open port.\<close>

lemma establish_self_refused:
  assumes r: "running F s False r" and taken: "port_key (rl_sess r s) \<in> dir_has (rl_dir r)"
  shows "rs_finished (rl_sess (establish_self F s r) s)"
    "port_key (rl_sess r s) \<notin> dir_has (rl_dir (establish_self F s r))"
    "reg_find (get_identifier F (rl_sess r s)) (establish_self F s r) = None"
    "reg_find (get_identifier F (rl_sess r s)) r = Some t \<Longrightarrow> rs_closed (rl_sess (establish_self F s r) t)"
proof -
  obtain ok v where reg: "register_self F s r = (ok, v)" by (cases "register_self F s r")
  note f = refused_registration[OF r taken reg]
  have "establish_self F s r = run_end F s v" using f(1) reg by (simp add: establish_self_def)
  then show "rs_finished (rl_sess (establish_self F s r) s)"
    "port_key (rl_sess r s) \<notin> dir_has (rl_dir (establish_self F s r))"
    "reg_find (get_identifier F (rl_sess r s)) (establish_self F s r) = None"
    "reg_find (get_identifier F (rl_sess r s)) r = Some t \<Longrightarrow> rs_closed (rl_sess (establish_self F s r) t)"
    using f(2,3,4,5) by simp_all
qed

text \<open>An accept init block of a client whose listen session has the port open.\<close>

lemma running_established:
  assumes r: "running F s False r"
  shows "running F s False (on_relay s (\<lambda>x. x\<lparr>rs_established := b\<rparr>) r)"
proof -
  note d = runningD[OF r]
  have "rs_wf F ((rl_sess r s)\<lparr>rs_established := b\<rparr>)"
    using d(6) by (auto simp: rs_wf_def ro.awake_inv_def get_identifier_def split: session_mode.splits)
  then show ?thesis
    using d relay_invD(7)[OF d(1), of s] by (intro running_fresh[OF r]) (auto simp: calm_def)
qed

lemma establish_accept_refused:
  assumes r: "running F s False r" and mode: "rs_mode (rl_sess r s) = PTP_ACCEPT"
    and ends: "rs_from_mac (rl_sess r s) = take 6 (pi_src_addr i)" "rs_from_port (rl_sess r s) = pi_sport i"
      "rs_to_mac (rl_sess r s) = take 6 (pi_dst_addr i)" "rs_to_port (rl_sess r s) = pi_dport i"
    and c: "reg_find (get_connect_session_name F (pi_dst_addr i) (pi_dport i) (pi_src_addr i) (pi_sport i)) r = Some c"
      "\<not> rs_established (rl_sess r c)"
    and six: "length (pi_src_addr i) = 8" "length (pi_dst_addr i) = 8"
    and taken: "(take 6 (pi_src_addr i), Ptp, pi_sport i) \<in> dir_has (rl_dir r)"
  shows "rs_finished (rl_sess (establish_accept F i s r) s)" "rs_closed (rl_sess (establish_accept F i s r) c)"
    "(take 6 (pi_src_addr i), Ptp, pi_sport i) \<notin> dir_has (rl_dir (establish_accept F i s r))"
proof -
  let ?r = "on_relay s (\<lambda>x. x\<lparr>rs_established := True\<rparr>) r"
  note r1 = running_established[OF r, of True]
  have mac: "mac_text F (take 6 m) = mac_text F m" if "length m = 8" for m
    using that by (simp add: mac_text_def)
  have key: "port_key (rl_sess ?r s) = (take 6 (pi_src_addr i), Ptp, pi_sport i)"
    using mode ends by (simp add: port_key_def directory_port_kind_def)
  obtain ok v where reg: "register_self F s ?r = (ok, v)" by (cases "register_self F s ?r")
  have taken': "port_key (rl_sess ?r s) \<in> dir_has (rl_dir ?r)" unfolding key on_relay_simps(5) by (rule taken)
  note f = refused_registration[OF r1 taken' reg] and v = register_self_running(1)[OF r1 reg]
  have eq: "establish_accept F i s r = run_end F s v" using f(1) c reg by (simp add: establish_accept_def Let_def)
  show "rs_finished (rl_sess (establish_accept F i s r) s)" using f(5) eq by simp
  show "(take 6 (pi_src_addr i), Ptp, pi_sport i) \<notin> dir_has (rl_dir (establish_accept F i s r))"
    using f(2) key eq by simp
  have peer: "get_peer_identifier F (rl_sess v s)
      = get_connect_session_name F (pi_dst_addr i) (pi_dport i) (pi_src_addr i) (pi_sport i)"
    using mode ends six unfolding register_self_sess_frame(3)[OF reg]
    by (simp add: get_peer_identifier_def get_connect_session_name_def mac)
  have id: "get_identifier F (rl_sess ?r s) = get_accept_session_name F (pi_src_addr i) (pi_sport i) (pi_dst_addr i) (pi_dport i)"
    using mode ends six by (simp add: get_identifier_def get_accept_session_name_def mac)
  have find: "reg_find (get_peer_identifier F (rl_sess v s)) v = Some c"
    using c(1) unfolding reg_find_def peer register_self_fields(1)[OF reg] id by simp
  have sup: "\<not> rs_superseded (rl_sess v s)"
  proof -
    have "reg_find (get_identifier F (rl_sess ?r s)) v = Some s"
      by (simp add: reg_find_def register_self_fields(1)[OF reg])
    then show ?thesis using found_current[OF runningD(1)[OF v]] by (auto simp: current_def)
  qed
  have "get_peer_identifier F (rl_sess v s) \<noteq> []" unfolding peer by (simp add: get_connect_session_name_def ascii_def)
  from run_end_closes_peer[OF v sup find this] show "rs_closed (rl_sess (establish_accept F i s r) c)" unfolding eq .
qed

section \<open>A port that is not open\<close>

text \<open>The waits of the sessions that want the name are cancelled.\<close>

lemma register_self_wakes:
  assumes r: "running F s False r" and reg: "register_self F s r = (ok, v)" and t: "t \<noteq> s"
    and w: "rs_run (rl_sess r t) = Run_await i False" "listen_name F i = get_identifier F (rl_sess r s)"
  shows "rs_run (rl_sess v t) = Run_await i True"
proof -
  obtain ws where ws: "map_of (rl_waiters r) (listen_name F i) = Some ws" "t \<in> set ws"
    using relay_invD(6)[OF runningD(1)[OF r]] w(1) t by (auto simp: wait_ok_def)
  have old: "reg_find (get_identifier F (rl_sess r s)) r \<noteq> Some t"
  proof
    assume "reg_find (get_identifier F (rl_sess r s)) r = Some t"
    then have "rs_registered (rl_sess r t)" using found_current[OF runningD(1)[OF r]] by (simp add: current_def)
    then show False using relay_invD(2)[OF runningD(1)[OF r], of t] t w(1) by (simp add: run_wf_def)
  qed
  show ?thesis
    using register_self_fields(2)[OF reg] ws w t old
    by (auto simp: reg_add_def Let_def fold_cancel_sess reg_find_def cancel_wait_def split: option.splits)
qed

text \<open>Sessions other than the registered one and the one that had its name.\<close>

lemma reg_add_other:
  assumes "reg_find n r \<noteq> Some t"
  shows "rl_sess (reg_add n s r) t = rl_sess r t \<or> rl_sess (reg_add n s r) t = cancel_wait (rl_sess r t)"
  using assms by (auto simp: reg_add_def Let_def fold_cancel_sess split: option.split)

lemma register_self_other:
  assumes "register_self F s r = (ok, v)" "reg_find (get_identifier F (rl_sess r s)) r \<noteq> Some t" "t \<noteq> s"
  shows "rl_sess v t = rl_sess r t \<or> rl_sess v t = cancel_wait (rl_sess r t)"
proof -
  let ?r1 = "on_relay s (\<lambda>x. x\<lparr>rs_identifier := get_identifier F x\<rparr>) r"
  have "reg_find (get_identifier F (rl_sess r s)) ?r1 \<noteq> Some t" using assms(2) by (simp add: reg_find_def)
  from reg_add_other[OF this, of s] show ?thesis
    using register_self_fields(2)[OF assms(1)] assms(3) by auto
qed

lemma register_self_dir:
  assumes r: "running F s False r" and reg: "register_self F s r = (ok, v)"
  shows "dir_has (rl_dir v) = insert (port_key (rl_sess r s)) (dir_has (rl_dir r))"
proof -
  let ?r1 = "on_relay s (\<lambda>x. x\<lparr>rs_identifier := get_identifier F x\<rparr>) r"
  let ?x = "rl_sess (on_relay s (\<lambda>x. x\<lparr>rs_registered := True\<rparr>) (reg_add (get_identifier F (rl_sess r s)) s ?r1)) s"
  have wf: "dir_wf (rl_dir r)" using relay_invD(5)[OF runningD(1)[OF r]] by (simp add: dir_ok_def)
  have "rl_dir v = snd (dir_add (rs_from_mac ?x) (directory_port_kind ?x) (rs_from_port ?x) (rl_dir r))"
    using reg by (auto simp: register_self_def Let_def split: prod.splits)
  moreover have "port_key ?x = port_key (rl_sess r s)" by (simp add: port_key_def directory_port_kind_def)
  ultimately show ?thesis using pd.add_has[OF wf] by (simp add: port_key_def)
qed

text \<open>A session that was not closed goes on to its loop.\<close>

lemma forward_head_open:
  assumes "\<not> rs_closed (rl_sess r s)"
  shows "forward_head F s r = on_relay s (\<lambda>x. x\<lparr>rs_run := if rs_mode x = PTP_LISTEN then Run_listen else Run_header\<rparr>) r"
  using assms by (simp add: forward_head_def Let_def)

lemma establish_self_registers:
  assumes r: "running F s False r" and new: "port_key (rl_sess r s) \<notin> dir_has (rl_dir r)"
  shows "map_of (rl_names (establish_self F s r)) = (map_of (rl_names r))(get_identifier F (rl_sess r s) \<mapsto> s)"
    "dir_has (rl_dir (establish_self F s r)) = insert (port_key (rl_sess r s)) (dir_has (rl_dir r))"
    "rs_run (rl_sess (establish_self F s r) s) = (if rs_mode (rl_sess r s) = PTP_LISTEN then Run_listen else Run_header)"
    "t \<noteq> s \<Longrightarrow> rs_run (rl_sess r t) = Run_await i False \<Longrightarrow> listen_name F i = get_identifier F (rl_sess r s) \<Longrightarrow>
      rs_run (rl_sess (establish_self F s r) t) = Run_await i True"
proof -
  obtain ok v where reg: "register_self F s r = (ok, v)" by (cases "register_self F s r")
  have ok using register_self_running(2)[OF r reg] new by simp
  moreover have "\<not> rs_closed (rl_sess v s)"
    using register_self_sess(1)[OF reg r] relay_invD(7)[OF runningD(1)[OF r], of s] runningD(3,4)[OF r]
    by (simp add: calm_def)
  ultimately have eq: "establish_self F s r
      = on_relay s (\<lambda>x. x\<lparr>rs_run := if rs_mode x = PTP_LISTEN then Run_listen else Run_header\<rparr>) v"
    using reg forward_head_open[of v s F] by (simp add: establish_self_def)
  show "map_of (rl_names (establish_self F s r)) = (map_of (rl_names r))(get_identifier F (rl_sess r s) \<mapsto> s)"
    by (simp add: eq register_self_fields(1)[OF reg])
  show "dir_has (rl_dir (establish_self F s r)) = insert (port_key (rl_sess r s)) (dir_has (rl_dir r))"
    by (simp add: eq register_self_dir[OF r reg])
  show "rs_run (rl_sess (establish_self F s r) s) = (if rs_mode (rl_sess r s) = PTP_LISTEN then Run_listen else Run_header)"
    by (simp add: eq register_self_sess_frame(1)[OF reg])
  show "rs_run (rl_sess (establish_self F s r) t) = Run_await i True"
    if "t \<noteq> s" "rs_run (rl_sess r t) = Run_await i False" "listen_name F i = get_identifier F (rl_sess r s)"
    using register_self_wakes[OF r reg that] that(1) by (simp add: eq)
qed

section \<open>Bonding\<close>

lemma ptp_connect_size: "length (ptp_connect_bytes (to_str m) p) \<le> 10" "ptp_connect_bytes (to_str m) p \<noteq> []"
  by (simp_all add: ptp_connect_bytes_def to_str_def le16_def)

lemma bond_fields [simp]:
  "rs_established (bond x)" "rs_run (bond x) = wake_bond (rs_run x)" "rs_write_queue (bond x) = rs_write_queue x"
  "rs_closed (bond x) = rs_closed x" "rs_mode (bond x) = rs_mode x"
  by (simp_all add: bond_def)

lemma queue_send_run_bond: "rs_run x = Run_bond b \<Longrightarrow> wake_bond (rs_run (queue_send y x)) = Run_bond True"
  by (simp add: queue_send_fields)

lemma establish_accept_bonds:
  assumes r: "running F s False r" and mode: "rs_mode (rl_sess r s) = PTP_ACCEPT"
    and c: "reg_find (get_connect_session_name F (pi_dst_addr i) (pi_dport i) (pi_src_addr i) (pi_sport i)) r = Some c"
      "\<not> rs_established (rl_sess r c)"
    and new: "port_key (rl_sess r s) \<notin> dir_has (rl_dir r)"
  shows "reg_find (get_identifier F (rl_sess r s)) (establish_accept F i s r) = Some s"
    "rs_established (rl_sess (establish_accept F i s r) s)" "rs_established (rl_sess (establish_accept F i s r) c)"
    "rs_run (rl_sess (establish_accept F i s r) s) = Run_header"
    "rs_run (rl_sess r c) = Run_bond b \<Longrightarrow> rs_run (rl_sess (establish_accept F i s r) c) = Run_bond True"
    "rs_write_queue (rl_sess (establish_accept F i s r) s)
      = [ptp_connect_bytes (to_str (rs_from_mac (rl_sess r c))) (rs_from_port (rl_sess r c))]"
    "\<not> rs_closed (rl_sess r c) \<Longrightarrow> rs_write_queue (rl_sess (establish_accept F i s r) c)
      = rs_write_queue (rl_sess r c) @ [ptp_connect_bytes (to_str (rs_from_mac (rl_sess r s))) (rs_from_port (rl_sess r s))]"
proof -
  let ?r = "on_relay s (\<lambda>x. x\<lparr>rs_established := True\<rparr>) r"
  note r1 = running_established[OF r, of True] and calm = relay_invD(7)[OF runningD(1)[OF r], of s]
  obtain ok v where reg: "register_self F s ?r = (ok, v)" by (cases "register_self F s ?r")
  note v = register_self_running[OF r1 reg]
  have id: "get_identifier F (rl_sess ?r s) = get_identifier F (rl_sess r s)" by (simp, rule get_identifier_frame) simp_all
  have ok: ok using v(2) new by (simp add: port_key_def directory_port_kind_def)
  have cur: "current r c" "rs_identifier (rl_sess r c)
      = get_connect_session_name F (pi_dst_addr i) (pi_dport i) (pi_src_addr i) (pi_sport i)"
    using found_current[OF runningD(1)[OF r] c(1)] by simp_all
  have cs: "c \<noteq> s" using cur runningD(4)[OF r] by (auto simp: current_def)
  have "reg_find (get_identifier F (rl_sess ?r s)) ?r \<noteq> Some c"
  proof
    assume "reg_find (get_identifier F (rl_sess ?r s)) ?r = Some c"
    then have "rs_identifier (rl_sess ?r c) = get_identifier F (rl_sess r s)"
      using found_current[OF runningD(1)[OF r1]] id by metis
    then show False using cs cur(2) mode by (simp add: get_identifier_def)
  qed
  from register_self_other[OF reg this cs] cs have vc: "rl_sess v c = rl_sess r c \<or> rl_sess v c = cancel_wait (rl_sess r c)"
    by simp
  define c' where "c' = rl_sess v c"
  have cf: "rs_from_mac c' = rs_from_mac (rl_sess r c)" "rs_from_port c' = rs_from_port (rl_sess r c)"
    "rs_closed c' = rs_closed (rl_sess r c)" "rs_write_queue c' = rs_write_queue (rl_sess r c)"
    "rs_run (rl_sess r c) = Run_bond b \<Longrightarrow> rs_run c' = Run_bond b" for b
    using vc by (auto simp: c'_def) (simp add: cancel_wait_def)
  define x where "x = rl_sess v s"
  have xf: "rs_closed x = False" "rs_established x" "rs_mode x = PTP_ACCEPT" "rs_write_queue x = []"
    "rs_from_mac x = rs_from_mac (rl_sess r s)" "rs_from_port x = rs_from_port (rl_sess r s)"
    using register_self_sess(1,2)[OF reg r1] register_self_sess_frame(1,2,5)[OF reg, of s] calm runningD(3,4)[OF r] mode
    by (auto simp: x_def calm_def port_key_def)
  have "rs_wf F x" using relay_invD(1)[OF runningD(1)[OF v(1)], of s] by (simp add: x_def)
  then have bytes: "rs_queued_bytes x = 0" using xf(4) by (simp add: rs_wf_def)
  let ?to_c = "ptp_connect_bytes (to_str (rs_from_mac x)) (rs_from_port x)"
  let ?to_s = "ptp_connect_bytes (to_str (rs_from_mac c')) (rs_from_port c')"
  let ?v1 = "on_relay c bond (on_relay s (queue_send ?to_s) (on_relay c (queue_send ?to_c) v))"
  have es: "rl_sess ?v1 s = queue_send ?to_s x" "rl_sess ?v1 c = bond (queue_send ?to_c c')"
    using cs by (simp_all add: x_def c'_def)
  have op: "rs_closed (queue_send ?to_s x) = False" "rs_write_queue (queue_send ?to_s x) = [?to_s]"
    using ptp_connect_size[of "rs_from_mac c'" "rs_from_port c'"] xf bytes by (simp_all add: queue_send_fields)
  have eq: "establish_accept F i s r = on_relay s (\<lambda>x. x\<lparr>rs_run := if rs_mode x = PTP_LISTEN then Run_listen else Run_header\<rparr>) ?v1"
  proof -
    have "establish_accept F i s r = forward_head F s ?v1"
      using c ok reg cs by (simp add: establish_accept_def Let_def x_def c'_def)
    moreover have "\<not> rs_closed (rl_sess ?v1 s)" unfolding es op by simp
    ultimately show ?thesis using forward_head_open by simp
  qed
  have fin: "rl_sess (establish_accept F i s r) s = (queue_send ?to_s x)\<lparr>rs_run := Run_header\<rparr>"
    "rl_sess (establish_accept F i s r) c = bond (queue_send ?to_c c')"
    using es xf(3) cs unfolding eq on_relay_simps(7)[of s _ ?v1] by (simp_all del: on_relay_simps(7))
  show "reg_find (get_identifier F (rl_sess r s)) (establish_accept F i s r) = Some s"
    unfolding eq reg_find_def on_relay_simps(2) register_self_fields(1)[OF reg] id by simp
  show "rs_established (rl_sess (establish_accept F i s r) s)" "rs_established (rl_sess (establish_accept F i s r) c)"
    "rs_run (rl_sess (establish_accept F i s r) s) = Run_header"
    "rs_write_queue (rl_sess (establish_accept F i s r) s)
      = [ptp_connect_bytes (to_str (rs_from_mac (rl_sess r c))) (rs_from_port (rl_sess r c))]"
    unfolding fin using xf(2) op(2) cf(1,2) by simp_all
  show "rs_run (rl_sess (establish_accept F i s r) c) = Run_bond True" if "rs_run (rl_sess r c) = Run_bond b"
    unfolding fin using queue_send_run_bond[OF cf(5)[OF that]] by simp
  show "rs_write_queue (rl_sess (establish_accept F i s r) c)
      = rs_write_queue (rl_sess r c) @ [ptp_connect_bytes (to_str (rs_from_mac (rl_sess r s))) (rs_from_port (rl_sess r s))]"
    if "\<not> rs_closed (rl_sess r c)"
    unfolding fin using ptp_connect_size(2) cf(3,4) xf(5,6) that by (simp add: queue_send_fields)
qed

section \<open>Forwarding\<close>

lemma forward_head_queue:
  assumes r: "running F s b r"
  shows "rs_write_queue (rl_sess (forward_head F s r) t) = rs_write_queue (rl_sess r t)"
  using run_end_frame(1)[OF r] by (simp add: forward_head_def Let_def)

lemma block_queued:
  assumes "running F s b r" "x \<noteq> []"
  shows "rs_write_queue (rl_sess (forward_head F s (case reg_find n r of None \<Rightarrow> r | Some d \<Rightarrow> on_relay d (queue_send x) r)) t)
    = rs_write_queue (rl_sess r t) @ (if reg_find n r = Some t \<and> \<not> rs_closed (rl_sess r t) then [x] else [])"
proof (cases "reg_find n r")
  case None
  then show ?thesis using forward_head_queue[OF assms(1)] by simp
next
  case (Some d)
  then show ?thesis
    using forward_head_queue[OF running_found[OF assms(1) Some], of x t] assms(2) by (simp add: queue_send_fields)
qed

lemma deliver_pdp_queue:
  assumes "running F s b r"
  shows "rs_write_queue (rl_sess (deliver_pdp F n sz p s r) t) = rs_write_queue (rl_sess r t)
    @ (if reg_find n r = Some t \<and> \<not> rs_closed (rl_sess r t) then
         [pdp_bytes \<lparr>pp_addr = to_str (rs_from_mac (rl_sess r s)), pp_port = rs_from_port (rl_sess r s), pp_size = sz\<rparr> @ p]
       else [])"
  unfolding deliver_pdp_def Let_def by (rule block_queued[OF assms]) (simp add: pdp_bytes_def to_str_def)

lemma deliver_ptp_queue:
  assumes "running F s b r"
  shows "rs_write_queue (rl_sess (deliver_ptp F sz p s r) t) = rs_write_queue (rl_sess r t)
    @ (if reg_find (get_peer_identifier F (rl_sess r s)) r = Some t \<and> \<not> rs_closed (rl_sess r t) then [le32 sz @ p] else [])"
  unfolding deliver_ptp_def by (rule block_queued[OF assms]) (simp add: le32_def)

end
