(* ===== verification/Relay_Frame.thy ===== *)
theory Relay_Frame
  imports Relay_Contract
begin

text \<open>
  What the step of one relay session does to the others: they are closed, superseded, bonded, woken or
  sent a block, and nothing else.  And the timers: none lies more than five seconds ahead.
\<close>

section \<open>What the step of a session does to the others\<close>

text \<open>The session whose coroutine an action resumes.\<close>

definition relay_session_of :: "relay_action \<Rightarrow> rid option" where
  "relay_session_of a = (case a of
     Run_begin s \<Rightarrow> Some s | Run_init_timeout s \<Rightarrow> Some s | Run_got_init s _ \<Rightarrow> Some s | Run_waited s \<Rightarrow> Some s
   | Run_bonded s \<Rightarrow> Some s | Run_heard s _ \<Rightarrow> Some s | Run_got_header s _ \<Rightarrow> Some s | Run_got_payload s _ \<Rightarrow> Some s
   | Relay_writer_resume s \<Rightarrow> Some s | Relay_writer_wrote s _ \<Rightarrow> Some s | _ \<Rightarrow> None)"

lemma expiry_frame [simp]:
  "rs_expiry (relay_close x) = rs_expiry x" "rs_expiry (queue_send b x) = rs_expiry x" "rs_expiry (bond x) = rs_expiry x"
  "rs_expiry (supersede x) = rs_expiry x" "rs_expiry (cancel_wait x) = rs_expiry x"
  "rs_expiry (relay_writer_loop x) = rs_expiry x" "rs_expiry (relay_writer_written ec x) = rs_expiry x"
  "rs_expiry (set_endpoints m p om p' x) = rs_expiry x"
  by (simp_all add: relay_close_def queue_send_def bond_def supersede_def cancel_wait_def relay_writer_loop_def
      relay_writer_written_def relay_writer_finish_def set_endpoints_def Let_def
      split: run_pc.split list.split option.split)

text \<open>
  A step of session \<open>t\<close> changes other sessions only by the five operations that sessions and
  registry call on them.  So a fact about the sessions that these operations keep, and that the session's
  own code keeps, is kept by every step; the timers are the only use the code makes of the time.
\<close>

locale step_keeps =
  fixes ok :: "relay \<Rightarrow> bool" and t :: rid
  assumes same: "ok r \<Longrightarrow> rl_sess v = rl_sess r \<Longrightarrow> rl_now v = rl_now r \<Longrightarrow> ok v"
    and own: "(\<And>x. rs_expiry (f x) = rs_expiry x) \<Longrightarrow> ok r \<Longrightarrow> ok (on_relay t f r)"
    and timer: "ms \<le> 5000 \<Longrightarrow> ok r \<Longrightarrow> ok (expires_after t ms r)"
    and others: "ok r \<Longrightarrow> ok (on_relay u relay_close r)" "ok r \<Longrightarrow> ok (on_relay u (queue_send b) r)"
      "ok r \<Longrightarrow> ok (on_relay u bond r)" "ok r \<Longrightarrow> ok (on_relay u supersede r)" "ok r \<Longrightarrow> ok (on_relay u cancel_wait r)"
begin

lemma keeps_fold: "ok r \<Longrightarrow> ok (fold (\<lambda>u. on_relay u cancel_wait) ws r)"
  by (induction ws arbitrary: r) (simp_all add: others)

lemma keeps_reg_add: "ok r \<Longrightarrow> ok (reg_add n s r)"
proof -
  assume r: "ok r"
  let ?r1 = "case reg_find n r of None \<Rightarrow> r | Some u \<Rightarrow> on_relay u supersede r"
  let ?r2 = "?r1\<lparr>rl_names := AList.update n s (rl_names ?r1)\<rparr>"
  have "ok ?r1" using r by (auto simp: others split: option.split)
  then have r2: "ok ?r2" by (rule same) simp_all
  have "ok ((fold (\<lambda>u. on_relay u cancel_wait) ws ?r2)\<lparr>rl_waiters := w\<rparr>)" for ws w
    by (rule same[OF keeps_fold[OF r2]]) simp_all
  then show ?thesis using r2 by (simp add: reg_add_def Let_def split: option.split)
qed

lemma keeps_register:
  assumes r: "ok r" and reg: "register_self F t r = (b, v)"
  shows "ok v"
proof -
  let ?r1 = "on_relay t (\<lambda>x. x\<lparr>rs_identifier := get_identifier F x\<rparr>) r"
  define r2 where "r2 = on_relay t (\<lambda>x. x\<lparr>rs_registered := True\<rparr>) (reg_add (rs_identifier (rl_sess ?r1 t)) t ?r1)"
  have "ok ?r1" by (rule own[OF _ r]) simp
  from keeps_reg_add[OF this] have r2: "ok r2" unfolding r2_def by (rule own[rotated]) simp
  have "v = r2\<lparr>rl_dir := rl_dir v\<rparr>" using reg by (auto simp: register_self_def Let_def r2_def split: prod.splits)
  then show ?thesis using same[OF r2, of v]
    by (metis relay.select_convs(1) relay.surjective relay.update_convs(6) relay.select_convs(7))
qed

lemma keeps_run_end: "ok r \<Longrightarrow> ok (run_end F t r)"
proof -
  assume r: "ok r"
  let ?r1 = "on_relay t (\<lambda>x. relay_close (x\<lparr>rs_finished := True\<rparr>)) r"
  have r1: "ok ?r1" using r by (rule own[rotated]) simp
  define r2 where "r2 = (if rs_registered (rl_sess r t) then ?r1\<lparr>rl_dir := dir_remove (rs_from_mac (rl_sess r t))
    (directory_port_kind (rl_sess r t)) (rs_from_port (rl_sess r t)) (rl_dir ?r1)\<rparr> else ?r1)"
  have r2: "ok r2" by (rule same[OF r1]) (simp_all add: r2_def)
  have r3: "ok (reg_remove n s r2)" for n s by (rule same[OF r2]) (simp_all add: reg_remove_def)
  have dec: "ok u \<Longrightarrow> ok (dec_active u)" for u by (erule same) (simp_all add: dec_active_def)
  have "ok (finish F t r)"
    unfolding finish_def Let_def r2_def[symmetric] using r r2 r3 by (auto intro!: dec others split: option.split)
  then show ?thesis unfolding run_end_def by (rule own[rotated]) simp
qed

lemma keeps_forward: "ok r \<Longrightarrow> ok (forward_head F t r)"
  by (simp add: forward_head_def Let_def keeps_run_end own)

lemma keeps_connect: "ok r \<Longrightarrow> ok (connect_to F t l r)"
proof -
  assume r: "ok r"
  obtain b v where reg: "register_self F t (on_relay t (\<lambda>x. x\<lparr>rs_established := False\<rparr>) r) = (b, v)" by (metis surj_pair)
  have v: "ok v" by (rule keeps_register[OF _ reg]) (simp add: r own)
  then show ?thesis by (cases b) (simp_all add: connect_to_def reg Let_def keeps_run_end own timer others)
qed

lemma keeps_establish:
  assumes r: "ok r"
  shows "ok (establish_self F t r)" "ok (establish_connect F i t r)" "ok (establish_accept F i t r)"
proof -
  obtain b v where reg: "register_self F t r = (b, v)" by (metis surj_pair)
  note v = keeps_register[OF r reg]
  show "ok (establish_self F t r)"
    using v by (cases b) (simp_all add: establish_self_def reg keeps_run_end keeps_forward)
  have rem: "remaining_init_time n x \<le> 5000" for n x by (simp add: remaining_init_time_def Let_def)
  have "ok (add_waiter n t (expires_after t (remaining_init_time (rl_now r) (rl_sess r t)) r))" for n
    using timer[OF rem r] by (rule same) (simp_all add: add_waiter_def)
  then show "ok (establish_connect F i t r)"
    using r by (simp add: establish_connect_def await_session_def Let_def keeps_run_end keeps_connect own split: option.split)
  obtain b' v' where reg': "register_self F t (on_relay t (\<lambda>x. x\<lparr>rs_established := True\<rparr>) r) = (b', v')" by (metis surj_pair)
  have v': "ok v'" by (rule keeps_register[OF _ reg']) (simp add: r own)
  then show "ok (establish_accept F i t r)"
    using r by (cases b') (simp_all add: establish_accept_def reg' Let_def keeps_run_end own others keeps_forward split: option.split)
qed

lemma keeps_init: "ok r \<Longrightarrow> ok (run_init F b t r)"
  by (simp add: run_init_def Let_def keeps_run_end keeps_establish own split: option.split)

lemma keeps_await: "ok r \<Longrightarrow> ok (run_waited F t r)"
proof -
  assume r: "ok r"
  have "ok (remove_waiter n t r)" for n by (rule same[OF r]) simp_all
  then show ?thesis using r
    by (auto simp: run_waited_def run_await_def await_session_resume_def Let_def keeps_run_end keeps_connect
        split: run_pc.split option.split)
qed

lemma keeps_deliver: "ok r \<Longrightarrow> ok (deliver_pdp F n sz p t r)" "ok r \<Longrightarrow> ok (deliver_ptp F sz p t r)"
  by (simp_all add: deliver_pdp_def deliver_ptp_def Let_def keeps_forward others split: option.split)

lemma keeps_step:
  assumes a: "relay_session_of a = Some t" and r: "ok r"
  shows "ok (relay_step F a r)"
proof (cases a)
  case (Run_got_header s b)
  then show ?thesis using a r
    by (simp add: relay_session_of_def relay_step_def run_header_def Let_def keeps_run_end keeps_deliver own split: option.split)
next
  case (Run_got_payload s b)
  then show ?thesis using a r
    by (simp add: relay_session_of_def relay_step_def run_payload_def keeps_run_end keeps_deliver split: option.split run_pc.split)
qed (use a r in \<open>simp_all add: relay_session_of_def relay_step_def read_init_def run_bond_def run_listen_def
    keeps_init keeps_await keeps_run_end keeps_forward own timer\<close>)

end

section \<open>Timers\<close>

definition expiry_ok :: "relay \<Rightarrow> bool" where
  "expiry_ok r \<longleftrightarrow> (\<forall>t. rs_expiry (rl_sess r t) \<le> rl_now r + 5000)"

interpretation et: step_keeps expiry_ok t for t
  by unfold_locales (simp_all add: expiry_ok_def on_relay_def expires_after_def)

lemma relay_reachable_expiry: "relay_reachable F v \<Longrightarrow> expiry_ok (rv_relay v)"
proof (induction rule: relay_reachable.induct)
  case start
  show ?case by (simp add: expiry_ok_def relay_server_init_def relay_init_def new_relay_session_def)
next
  case (step v a)
  note ok = step.IH[unfolded expiry_ok_def, rule_format]
  show ?case
  proof (cases "relay_session_of a")
    case (Some t)
    then have "rv_relay (relay_perform F a v) = relay_step F a (rv_relay v)"
      by (cases a) (simp_all add: relay_perform_def relay_session_of_def)
    then show ?thesis using et.keeps_step[OF Some step.IH] by simp
  next
    case None
    have later: "rs_expiry (rl_sess (rv_relay v) t) \<le> Suc (rl_now (rv_relay v)) + 5000" for t using ok[of t] by linarith
    have "expiry_ok (relay_accept p (rv_relay v))" for p
      using ok by (auto simp: expiry_ok_def relay_accept_def inc_active_def new_relay_session_def)
    then show ?thesis using None later step.IH
      by (cases a) (auto simp: relay_perform_def run_relay_acceptor_def relay_stop_def relay_step_def relay_session_of_def
          expiry_ok_def split: relay_accepted.split)
  qed
qed

section \<open>Bystanders\<close>

text \<open>What the others' steps make of a session.\<close>

inductive touched :: "relay_session \<Rightarrow> relay_session \<Rightarrow> bool" for x :: relay_session where
  untouched: "touched x x"
| closed_by: "touched x y \<Longrightarrow> touched x (relay_close y)"
| sent_by: "touched x y \<Longrightarrow> touched x (queue_send b y)"
| bonded_by: "touched x y \<Longrightarrow> touched x (bond y)"
| superseded_by: "touched x y \<Longrightarrow> touched x (supersede y)"
| woken_by: "touched x y \<Longrightarrow> touched x (cancel_wait y)"

interpretation bt: step_keeps "\<lambda>r. t \<noteq> s \<longrightarrow> touched x (rl_sess r s)" t for s x t
  by unfold_locales (auto intro: touched.intros simp: expires_after_def)

text \<open>The await a program counter stands for, whether its timer was cancelled or not.\<close>

fun awaited :: "run_pc \<Rightarrow> run_pc" where
  "awaited (Run_await i _) = Run_await i False"
| "awaited (Run_bond _) = Run_bond False"
| "awaited pc = pc"

lemma awaited_wake [simp]: "awaited (wake_bond pc) = awaited pc"
  by (cases pc) simp_all

lemma awaited_ops:
  "awaited (rs_run (relay_close x)) = awaited (rs_run x)" "awaited (rs_run (queue_send b x)) = awaited (rs_run x)"
  "awaited (rs_run (bond x)) = awaited (rs_run x)" "awaited (rs_run (supersede x)) = awaited (rs_run x)"
  "awaited (rs_run (cancel_wait x)) = awaited (rs_run x)"
  by (simp_all add: relay_close_def queue_send_def bond_def supersede_def cancel_wait_def Let_def split: run_pc.split)

lemma writer_ops:
  "rs_writer (relay_close x) = Wr_done \<longleftrightarrow> rs_writer x = Wr_done" "rs_writer (queue_send b x) = Wr_done \<longleftrightarrow> rs_writer x = Wr_done"
  "rs_writer (bond x) = rs_writer x" "rs_writer (supersede x) = Wr_done \<longleftrightarrow> rs_writer x = Wr_done"
  "rs_writer (cancel_wait x) = rs_writer x"
proof -
  have [simp]: "wake pc = Wr_done \<longleftrightarrow> pc = Wr_done" for pc by (cases pc) simp_all
  show "rs_writer (relay_close x) = Wr_done \<longleftrightarrow> rs_writer x = Wr_done" "rs_writer (queue_send b x) = Wr_done \<longleftrightarrow> rs_writer x = Wr_done"
    "rs_writer (bond x) = rs_writer x" "rs_writer (supersede x) = Wr_done \<longleftrightarrow> rs_writer x = Wr_done"
    "rs_writer (cancel_wait x) = rs_writer x"
    by (simp_all add: relay_close_def queue_send_def bond_def supersede_def cancel_wait_def Let_def split: run_pc.split)
qed

lemma supersede_ops [simp]:
  "rs_mode (supersede x) = rs_mode x" "rs_from_mac (supersede x) = rs_from_mac x" "rs_from_port (supersede x) = rs_from_port x"
  "rs_to_mac (supersede x) = rs_to_mac x" "rs_to_port (supersede x) = rs_to_port x" "rs_identifier (supersede x) = rs_identifier x"
  "rs_registered (supersede x) = rs_registered x" "rs_finished (supersede x) = rs_finished x" "rs_closed (supersede x)"
  "rs_superseded (supersede x)" "rs_established (supersede x) = rs_established x"
  by (simp_all add: supersede_def)

lemma bond_ops [simp]:
  "rs_from_mac (bond x) = rs_from_mac x" "rs_from_port (bond x) = rs_from_port x"
  "rs_to_mac (bond x) = rs_to_mac x" "rs_to_port (bond x) = rs_to_port x" "rs_identifier (bond x) = rs_identifier x"
  "rs_registered (bond x) = rs_registered x" "rs_finished (bond x) = rs_finished x" "rs_superseded (bond x) = rs_superseded x"
  by (simp_all add: bond_def)

lemma touched_endpoints:
  "touched x y \<Longrightarrow> rs_mode y = rs_mode x \<and> rs_from_mac y = rs_from_mac x \<and> rs_from_port y = rs_from_port x
    \<and> rs_to_mac y = rs_to_mac x \<and> rs_to_port y = rs_to_port x \<and> rs_identifier y = rs_identifier x
    \<and> rs_registered y = rs_registered x \<and> rs_finished y = rs_finished x"
  by (induction rule: touched.induct) simp_all

lemma touched_flags:
  "touched x y \<Longrightarrow> (rs_closed x \<longrightarrow> rs_closed y) \<and> (rs_superseded x \<longrightarrow> rs_superseded y) \<and> (rs_established x \<longrightarrow> rs_established y)"
  by (induction rule: touched.induct) (simp_all add: queue_send_fields)

lemma touched_pc: "touched x y \<Longrightarrow> awaited (rs_run y) = awaited (rs_run x) \<and> (rs_writer y = Wr_done \<longleftrightarrow> rs_writer x = Wr_done)"
  by (induction rule: touched.induct) (simp_all add: awaited_ops writer_ops)

lemma touched_queue: "touched x y \<Longrightarrow> \<exists>bs. rs_write_queue y = rs_write_queue x @ bs \<and> (rs_closed x \<longrightarrow> bs = [])"
proof (induction rule: touched.induct)
  case (sent_by y b)
  then obtain bs where bs: "rs_write_queue y = rs_write_queue x @ bs" "rs_closed x \<longrightarrow> bs = []" by blast
  have "rs_closed x \<longrightarrow> rs_closed y" using touched_flags[OF sent_by.hyps] by simp
  then show ?case
    using bs by (intro exI[of _ "bs @ (if rs_closed y \<or> b = [] then [] else [b])"])
      (auto simp: queue_send_def relay_close_def Let_def)
qed (auto simp: relay_close_def bond_def supersede_def cancel_wait_def split: run_pc.split)

lemma bystander:
  assumes "s < rl_next (rv_relay v)" "relay_session_of a \<noteq> Some s"
  shows "touched (rl_sess (rv_relay v) s) (rl_sess (rv_relay (relay_perform F a v)) s)"
proof (cases "relay_session_of a")
  case (Some t)
  then have "rv_relay (relay_perform F a v) = relay_step F a (rv_relay v)"
    by (cases a) (simp_all add: relay_perform_def relay_session_of_def)
  then show ?thesis
    using bt.keeps_step[OF Some, of s "rl_sess (rv_relay v) s" "rv_relay v" F] assms(2) Some by (simp add: touched.untouched)
next
  case None
  have "rl_sess (rv_relay (relay_perform F a v)) s = rl_sess (rv_relay v) s"
    using None assms(1) by (cases a) (auto simp: relay_perform_def run_relay_acceptor_def relay_stop_def relay_step_def
        relay_accept_def inc_active_def relay_session_of_def split: relay_accepted.split)
  then show ?thesis by (simp add: touched.untouched)
qed

end
