(* ===== verification/Relay_Life.thy ===== *)
theory Relay_Life
  imports Relay_Frame
begin

text \<open>
  The life of a relay session: the coroutines of a closed session end, after at most three of its steps,
  none of them asleep, and a session that nobody answers while it is being established ends when its
  timer has run out.
\<close>

section \<open>The end of a closed session\<close>

text \<open>How many steps the coroutines of a closed session have left at most.\<close>

definition steps_left :: "relay_session \<Rightarrow> nat" where
  "steps_left x = (case rs_run x of Run_done \<Rightarrow> 0 | Run_header \<Rightarrow> 2 | _ \<Rightarrow> 1) + (if rs_writer x = Wr_done then 0 else 1)"

lemma awaited_steps: "awaited pc = awaited pc' \<Longrightarrow>
    (case pc of Run_done \<Rightarrow> 0 | Run_header \<Rightarrow> 2 | _ \<Rightarrow> 1) = (case pc' of Run_done \<Rightarrow> 0 | Run_header \<Rightarrow> 2 | _ \<Rightarrow> (1::nat))"
  by (cases pc; cases pc') simp_all

lemma touched_steps_left: "touched x y \<Longrightarrow> steps_left y = steps_left x"
  unfolding steps_left_def using touched_pc[of x y] awaited_steps[of "rs_run y" "rs_run x"] by simp

lemma relay_close_closed: "rs_closed x \<Longrightarrow> relay_close x = x"
  by (simp add: relay_close_def)

lemma queue_send_closed: "rs_closed x \<Longrightarrow> queue_send b x = x"
  by (simp add: queue_send_def)

lemma run_end_closed:
  assumes r: "running F s b r" and c: "rs_closed (rl_sess r s)"
  shows "rs_run (rl_sess (run_end F s r) s) = Run_done" "rs_writer (rl_sess (run_end F s r) s) = rs_writer (rl_sess r s)"
    "rs_closed (rl_sess (run_end F s r) s)"
proof -
  have e: "rl_sess (ended s r) s = (rl_sess r s)\<lparr>rs_finished := True, rs_run := Run_done\<rparr>"
    using c by (simp add: ended_fields relay_close_closed)
  have "rl_sess (run_end F s r) s = (rl_sess r s)\<lparr>rs_finished := True, rs_run := Run_done\<rparr>"
    using run_end_ended[OF r] by cases (use c e in \<open>auto simp: relay_close_closed\<close>)
  then show "rs_run (rl_sess (run_end F s r) s) = Run_done" "rs_writer (rl_sess (run_end F s r) s) = rs_writer (rl_sess r s)"
    "rs_closed (rl_sess (run_end F s r) s)" using c by simp_all
qed

lemma forward_head_closed: "rs_closed (rl_sess r s) \<Longrightarrow> forward_head F s r = run_end F s r"
  by (simp add: forward_head_def Let_def)

text \<open>Delivering a last block, a closed session ends.\<close>

lemma deliver_closed:
  assumes r: "running F s b r" and c: "rs_closed (rl_sess r s)"
    and v: "v = deliver_pdp F n sz p s r \<or> v = deliver_ptp F sz p s r"
  shows "rs_run (rl_sess v s) = Run_done" "rs_writer (rl_sess v s) = rs_writer (rl_sess r s)" "rs_closed (rl_sess v s)"
proof -
  have send: "running F s b (on_relay d (queue_send m) r)" if "reg_find k r = Some d" for k d m
    using running_send[OF r] found_current[OF runningD(1)[OF r] that] by (simp add: current_def)
  have same: "rl_sess (on_relay d (queue_send m) r) s = rl_sess r s" for d m
    using c by (cases "s = d") (simp_all add: queue_send_closed)
  have "\<exists>u. v = run_end F s u \<and> running F s b u \<and> rl_sess u s = rl_sess r s"
    using v r c send same by (auto simp: deliver_pdp_def deliver_ptp_def Let_def forward_head_closed split: option.split)
  then obtain u where u: "v = run_end F s u" "running F s b u" "rl_sess u s = rl_sess r s" by blast
  show "rs_run (rl_sess v s) = Run_done" "rs_writer (rl_sess v s) = rs_writer (rl_sess r s)" "rs_closed (rl_sess v s)"
    using run_end_closed[OF u(2)] u c by simp_all
qed

text \<open>A closed session that has not finished is registered, so it is past its wait for a listen session.\<close>

lemma closed_late:
  assumes "relay_inv F {} r" "rs_closed (rl_sess r s)"
  shows "\<not> early (rs_run (rl_sess r s))" "rs_run (rl_sess r s) \<noteq> Run_bond False"
proof -
  note d = relay_invD(1,2,7)[OF assms(1), of s]
  show "\<not> early (rs_run (rl_sess r s))"
    using d assms(2) by (cases "rs_run (rl_sess r s) = Run_done") (auto simp: calm_def run_wf_def)
  show "rs_run (rl_sess r s) \<noteq> Run_bond False" using d(1) assms(2) by (auto simp: rs_wf_def)
qed

lemma closed_relay_step:
  assumes inv: "relay_inv F {} (rv_relay v)" and c: "rs_closed (rl_sess (rv_relay v) s)"
    and a: "relay_session_of a = Some s" "relay_enabled a v"
  shows "rs_closed (rl_sess (rv_relay (relay_perform F a v)) s)
    \<and> steps_left (rl_sess (rv_relay (relay_perform F a v)) s) < steps_left (rl_sess (rv_relay v) s)"
proof -
  let ?r = "rv_relay v" and ?x = "rl_sess (rv_relay v) s"
  note late = closed_late[OF inv c]
  note en = relay_enabled_def Let_def relay_session_of_def
  have run: "running F s (rs_registered ?x) ?r" if "s < rl_next ?r" "rs_run ?x \<noteq> Run_done"
    using runningI[OF inv that] .
  have fin: "rs_closed (rl_sess u s) \<and> steps_left (rl_sess u s) < steps_left ?x"
    if "rs_run (rl_sess u s) = Run_done" "rs_writer (rl_sess u s) = rs_writer ?x" "rs_closed (rl_sess u s)" "rs_run ?x \<noteq> Run_done" for u
    using that by (cases "rs_run ?x") (simp_all add: steps_left_def)
  have ended: "rs_closed (rl_sess (run_end F s ?r) s) \<and> steps_left (rl_sess (run_end F s ?r) s) < steps_left ?x"
    if "s < rl_next ?r" "rs_run ?x \<noteq> Run_done"
    using fin[OF run_end_closed[OF run[OF that] c] that(2)] .
  have pf: "rv_relay (relay_perform F a v) = relay_step F a ?r"
    using a by (cases a) (simp_all add: relay_perform_def relay_session_of_def)
  show ?thesis
  proof (cases a)
    case (Run_begin t)
    then show ?thesis using a late by (simp add: en)
  next
    case (Run_init_timeout t)
    then show ?thesis using a late by (simp add: en)
  next
    case (Run_got_init t b)
    then show ?thesis using a late by (simp add: en)
  next
    case (Run_waited t)
    then show ?thesis using a late by (auto simp: en split: run_pc.splits)
  next
    case (Run_bonded t)
    then have st: "t = s" "s < rl_next ?r" "rs_run ?x \<noteq> Run_done" using a by (auto simp: en split: run_pc.splits)
    then show ?thesis
      unfolding pf using Run_bonded ended c by (simp add: relay_step_def run_bond_def forward_head_closed)
  next
    case (Run_heard t ec)
    then have st: "t = s" "s < rl_next ?r" "rs_run ?x \<noteq> Run_done" using a by (auto simp: en)
    then show ?thesis
      unfolding pf using Run_heard ended c by (simp add: relay_step_def run_listen_def forward_head_closed)
  next
    case (Run_got_header t b)
    then have st: "t = s" "s < rl_next ?r" "rs_run ?x = Run_header" using a by (auto simp: en)
    have wait: "rs_closed (rl_sess (on_relay s (\<lambda>x. x\<lparr>rs_run := pc\<rparr>) ?r) s)
        \<and> steps_left (rl_sess (on_relay s (\<lambda>x. x\<lparr>rs_run := pc\<rparr>) ?r) s) < steps_left ?x"
      if "pc = Run_payload n sz \<or> pc = Run_data sz" for pc n sz
      using that st c by (auto simp: steps_left_def)
    have del: "rs_closed (rl_sess (deliver_pdp F n sz p s ?r) s) \<and> steps_left (rl_sess (deliver_pdp F n sz p s ?r) s) < steps_left ?x"
      "rs_closed (rl_sess (deliver_ptp F sz p s ?r) s) \<and> steps_left (rl_sess (deliver_ptp F sz p s ?r) s) < steps_left ?x" for n sz p
      using fin[OF deliver_closed[OF run[OF st(2)] c disjI1[OF refl]]] fin[OF deliver_closed[OF run[OF st(2)] c disjI2[OF refl]]] st(3)
      by simp_all
    show ?thesis
      unfolding pf using Run_got_header st ended wait del
      by (cases b) (auto simp: relay_step_def run_header_def Let_def)
  next
    case (Run_got_payload t b)
    then have st: "t = s" "s < rl_next ?r" "rs_run ?x \<noteq> Run_done" using a by (auto simp: en split: run_pc.splits)
    have del: "rs_closed (rl_sess (deliver_pdp F n sz p s ?r) s) \<and> steps_left (rl_sess (deliver_pdp F n sz p s ?r) s) < steps_left ?x"
      "rs_closed (rl_sess (deliver_ptp F sz p s ?r) s) \<and> steps_left (rl_sess (deliver_ptp F sz p s ?r) s) < steps_left ?x" for n sz p
      using fin[OF deliver_closed[OF run[OF st(2,3)] c disjI1[OF refl]] st(3)]
        fin[OF deliver_closed[OF run[OF st(2,3)] c disjI2[OF refl]] st(3)] by simp_all
    show ?thesis
      unfolding pf using Run_got_payload st ended del a
      by (cases b) (auto simp: relay_step_def run_payload_def en split: run_pc.splits)
  next
    case (Relay_writer_resume t)
    then show ?thesis
      unfolding pf using a c by (auto simp: en relay_step_def relay_writer_loop_def steps_left_def)
  next
    case (Relay_writer_wrote t ec)
    then show ?thesis
      unfolding pf using a c by (auto simp: en relay_step_def relay_writer_written_def relay_writer_finish_def
          relay_writer_loop_def relay_close_closed steps_left_def split: writer_pc.splits)
  qed (use a in \<open>simp_all add: relay_session_of_def\<close>)
qed

lemma closed_relay_enabled:
  assumes inv: "relay_inv F {} (rv_relay v)" and s: "s < rl_next (rv_relay v)" and c: "rs_closed (rl_sess (rv_relay v) s)"
    and l: "steps_left (rl_sess (rv_relay v) s) > 0"
  shows "\<exists>a. relay_session_of a = Some s \<and> relay_enabled a v"
proof -
  let ?x = "rl_sess (rv_relay v) s"
  note late = closed_late[OF inv c]
  have w: "rs_writer ?x \<noteq> Wr_wait False"
    using relay_invD(1)[OF inv, of s] c by (auto simp: rs_wf_def ro.awake_inv_def)
  note en = relay_enabled_def Let_def relay_session_of_def
  show ?thesis
  proof (cases "rs_writer ?x = Wr_done")
    case False
    show ?thesis
    proof (cases "rs_writer ?x")
      case (Wr_write b)
      then show ?thesis using s by (intro exI[of _ "Relay_writer_wrote s True"]) (simp add: en)
    next
      case (Wr_wait b)
      then show ?thesis using s w by (intro exI[of _ "Relay_writer_resume s"]) (simp add: en)
    qed (use s False in \<open>auto simp: en intro!: exI[of _ "Relay_writer_resume s"]\<close>)
  next
    case True
    show ?thesis
    proof (cases "rs_run ?x")
      case (Run_bond b)
      then show ?thesis using s late by (intro exI[of _ "Run_bonded s"]) (simp add: en)
    next
      case Run_listen
      then show ?thesis using s by (intro exI[of _ "Run_heard s True"]) (simp add: en)
    next
      case Run_header
      then show ?thesis using s by (intro exI[of _ "Run_got_header s None"]) (simp add: en)
    next
      case (Run_payload n sz)
      then show ?thesis using s by (intro exI[of _ "Run_got_payload s None"]) (simp add: en)
    next
      case (Run_data sz)
      then show ?thesis using s by (intro exI[of _ "Run_got_payload s None"]) (simp add: en)
    qed (use True l late in \<open>simp_all add: steps_left_def\<close>)
  qed
qed

section \<open>A session nobody answers\<close>

text \<open>A sequence of actions of the relay, each of which must be enabled.\<close>

fun relay_execute :: "fmt_api \<Rightarrow> relay_action list \<Rightarrow> relay_server \<Rightarrow> relay_server option" where
  "relay_execute F [] v = Some v"
| "relay_execute F (a # as) v = (if relay_enabled a v then relay_execute F as (relay_perform F a v) else None)"

lemma relay_execute_append: "relay_execute F (as @ bs) v = do { u \<leftarrow> relay_execute F as v; relay_execute F bs u }"
  by (induction as arbitrary: v) simp_all

lemma relay_execute_reachable: "relay_execute F as v = Some u \<Longrightarrow> relay_reachable F v \<Longrightarrow> relay_reachable F u"
  by (induction as arbitrary: v) (auto split: if_splits intro: relay_reachable.step)

definition later :: "nat \<Rightarrow> relay_server \<Rightarrow> relay_server" where
  "later d v = v\<lparr>rv_relay := (rv_relay v)\<lparr>rl_now := rl_now (rv_relay v) + d\<rparr>\<rparr>"

lemma relay_execute_ticks: "relay_execute F (replicate d Relay_tick) v = Some (later d v)"
  by (induction d arbitrary: v) (simp_all add: later_def relay_enabled_def relay_perform_def relay_step_def)

lemma later_fields [simp]:
  "rl_sess (rv_relay (later d v)) = rl_sess (rv_relay v)" "rl_next (rv_relay (later d v)) = rl_next (rv_relay v)"
  "rl_names (rv_relay (later d v)) = rl_names (rv_relay v)" "rl_dir (rv_relay (later d v)) = rl_dir (rv_relay v)"
  "rl_active (rv_relay (later d v)) = rl_active (rv_relay v)" "rl_now (rv_relay (later d v)) = rl_now (rv_relay v) + d"
  by (simp_all add: later_def)

text \<open>
  A session that waits for its init block, for the listen session it wants to connect to, or for the
  accept session; and the action that resumes it when its timer has run out.
\<close>

definition unanswered :: "relay_session \<Rightarrow> bool" where
  "unanswered x \<longleftrightarrow> (case rs_run x of Run_init \<Rightarrow> True | Run_await _ c \<Rightarrow> \<not> c
     | Run_bond c \<Rightarrow> \<not> c \<and> \<not> rs_established x | _ \<Rightarrow> False)"

definition timed_out :: "rid \<Rightarrow> relay_session \<Rightarrow> relay_action" where
  "timed_out s x = (case rs_run x of Run_init \<Rightarrow> Run_init_timeout s | Run_await _ _ \<Rightarrow> Run_waited s | _ \<Rightarrow> Run_bonded s)"

lemma timed_out_enabled:
  assumes "unanswered (rl_sess (rv_relay v) s)" "s < rl_next (rv_relay v)"
  shows "relay_enabled (timed_out s (rl_sess (rv_relay v) s)) v \<longleftrightarrow> rs_expiry (rl_sess (rv_relay v) s) \<le> rl_now (rv_relay v)"
  using assms by (auto simp: relay_enabled_def Let_def timed_out_def unanswered_def split: run_pc.splits)

text \<open>Its timer having run out, the session ends, after leaving the list of the listen session's waiters.\<close>

lemma timed_out_ends:
  assumes inv: "relay_inv F {} (rv_relay v)" and s: "s < rl_next (rv_relay v)"
    and x: "unanswered (rl_sess (rv_relay v) s)"
  shows "\<exists>r. rv_relay (relay_perform F (timed_out s (rl_sess (rv_relay v) s)) v) = run_end F s r
    \<and> running F s (rs_registered (rl_sess (rv_relay v) s)) r \<and> rl_sess r = rl_sess (rv_relay v)
    \<and> rl_names r = rl_names (rv_relay v) \<and> rl_dir r = rl_dir (rv_relay v) \<and> rl_active r = rl_active (rv_relay v)
    \<and> rl_now r = rl_now (rv_relay v)"
proof -
  let ?r = "rv_relay v" and ?x = "rl_sess (rv_relay v) s"
  have "rs_run ?x \<noteq> Run_done" using x by (auto simp: unanswered_def)
  note run = runningI[OF inv s this]
  note defs = timed_out_def relay_perform_def relay_step_def
  consider "rs_run ?x = Run_init" | i where "rs_run ?x = Run_await i False"
    | "rs_run ?x = Run_bond False" "\<not> rs_established ?x"
    using x by (auto simp: unanswered_def split: run_pc.splits)
  then show ?thesis
  proof cases
    case 1
    then show ?thesis using run by (intro exI[of _ ?r]) (simp add: defs run_init_def)
  next
    case 2
    then have "map_of (rl_names ?r) (listen_name F i) = None"
      using relay_invD(6)[OF inv] by (simp add: wait_ok_def)
    then show ?thesis
      using 2 running_remove_waiter[OF run, of "listen_name F i"]
      by (intro exI[of _ "remove_waiter (listen_name F i) s ?r"])
        (simp add: defs run_waited_def run_await_def await_session_resume_def Let_def reg_find_def listen_name_def)
  next
    case 3
    then show ?thesis using run by (intro exI[of _ ?r]) (simp add: defs run_bond_def)
  qed
qed

lemma active_count: "relay_inv F B r \<Longrightarrow> s < rl_next r \<Longrightarrow> \<not> rs_finished (rl_sess r s) \<Longrightarrow> 0 < rl_active r"
proof -
  assume i: "relay_inv F B r" and s: "s < rl_next r" "\<not> rs_finished (rl_sess r s)"
  have "finite (active r)" by (rule finite_subset[of _ "{..<rl_next r}"]) (auto simp: active_def)
  then show ?thesis using relay_invD(4)[OF i] s by (auto simp: active_ok_def active_def card_gt_0_iff)
qed

lemma run_end_now [simp]: "rl_now (run_end F s r) = rl_now r"
  by (simp add: run_end_def finish_def Let_def dec_active_def reg_remove_def split: option.split)

end
