(* ===== verification/Relay_Example.thy ===== *)
theory Relay_Example
  imports Relay_Server
begin

text \<open>
  A reachable state of the relay: one client opened the PDP port 7 of its MAC address, and a second
  connection, of the same client say, has been accepted and is about to send its init block.
\<close>

definition ex_init_block :: bytes where
  "ex_init_block = init_bytes \<lparr>pi_type = 0, pi_src_addr = [1, 2, 3, 4, 5, 6, 0, 0], pi_sport = 7,
     pi_dst_addr = [0, 0, 0, 0, 0, 0, 0, 0], pi_dport = 0\<rparr>"

definition ex_relay_open :: relay_server where
  "ex_relay_open = relay_perform std_fmt (Run_got_init 0 (Some ex_init_block))
     (relay_perform std_fmt (Run_begin 0) (relay_perform std_fmt (Relay_accept (Racc_socket (Peer_unix []))) relay_server_init))"

definition ex_relay :: relay_server where
  "ex_relay = relay_perform std_fmt (Run_begin 1) (relay_perform std_fmt (Relay_accept (Racc_socket (Peer_unix []))) ex_relay_open)"

definition ex_pdp_session :: relay_session where
  "ex_pdp_session = (new_relay_session [] 0)\<lparr>rs_from_mac := [1, 2, 3, 4, 5, 6], rs_from_port := 7,
     rs_identifier := get_pdp_session_name std_fmt [1, 2, 3, 4, 5, 6] 7, rs_registered := True, rs_run := Run_header, rs_expiry := 5000\<rparr>"

text \<open>The block is what its client packed.\<close>

lemma init_roundtrip:
  assumes "length (pi_src_addr i) = 8" "length (pi_dst_addr i) = 8"
  shows "init_of_bytes (init_bytes i) = i" "length (init_bytes i) = 24"
  using assms by (simp_all add: init_of_bytes_def init_bytes_def)

lemma ex_init_block:
  "init_of_bytes ex_init_block = \<lparr>pi_type = 0, pi_src_addr = [1, 2, 3, 4, 5, 6, 0, 0], pi_sport = 7,
     pi_dst_addr = [0, 0, 0, 0, 0, 0, 0, 0], pi_dport = 0\<rparr>" "length ex_init_block = 24"
  unfolding ex_init_block_def by (rule init_roundtrip; simp)+

lemma ex_relay_open_eq:
  "ex_relay_open = \<lparr>rv_relay = \<lparr>rl_sess = (\<lambda>_. new_relay_session [] 0)(0 := ex_pdp_session), rl_next = 1,
       rl_names = [(get_pdp_session_name std_fmt [1, 2, 3, 4, 5, 6] 7, 0)], rl_waiters = [], rl_active = 1,
       rl_dir = [([1, 2, 3, 4, 5, 6], \<lparr>ps_pdp = [7], ps_ptp = []\<rparr>)], rl_now = 0\<rparr>, rv_open = True, rv_loop = True\<rparr>"
proof -
  have name: "get_identifier std_fmt x = get_pdp_session_name std_fmt (rs_from_mac x) (rs_from_port x)"
    if "rs_mode x = PDP" for x
    using that by (simp add: get_identifier_def)
  show ?thesis
    unfolding ex_relay_open_def relay_perform_def run_relay_acceptor_def describe_peer_def relay_server_init_def
    by (simp add: relay_step_def read_init_def expires_after_def relay_accept_def inc_active_def relay_init_def new_relay_session_def on_relay_def
        run_init_def ex_init_block set_endpoints_def establish_self_def register_self_def name reg_add_def reg_find_def
        directory_port_kind_def dir_add_def um_emplace_def empty_port_set_def lower_bound_def insert_at_def
        forward_head_def ex_pdp_session_def fun_eq_iff)
qed

lemma ex_relay_eq:
  "ex_relay = \<lparr>rv_relay = \<lparr>rl_sess = (\<lambda>_. new_relay_session [] 0)(0 := ex_pdp_session,
         1 := (new_relay_session [] 0)\<lparr>rs_expiry := 5000, rs_run := Run_init\<rparr>), rl_next = 2,
       rl_names = [(get_pdp_session_name std_fmt [1, 2, 3, 4, 5, 6] 7, 0)], rl_waiters = [], rl_active = 2,
       rl_dir = [([1, 2, 3, 4, 5, 6], \<lparr>ps_pdp = [7], ps_ptp = []\<rparr>)], rl_now = 0\<rparr>, rv_open = True, rv_loop = True\<rparr>"
  unfolding ex_relay_def ex_relay_open_eq relay_perform_def run_relay_acceptor_def describe_peer_def
  by (simp add: relay_step_def read_init_def expires_after_def relay_accept_def inc_active_def on_relay_def)

lemma ex_relay_reachable: "relay_reachable std_fmt ex_relay_open" "relay_reachable std_fmt ex_relay"
proof -
  have init: "rs_run (new_relay_session [] t) = Run_start" for t by (simp add: new_relay_session_def)
  show o: "relay_reachable std_fmt ex_relay_open"
    unfolding ex_relay_open_def
    by (intro relay_reachable.step relay_reachable.start)
      (simp_all add: relay_enabled_def relay_server_init_def relay_perform_def run_relay_acceptor_def describe_peer_def relay_accept_def
        inc_active_def relay_init_def init relay_step_def read_init_def expires_after_def ex_init_block)
  show "relay_reachable std_fmt ex_relay"
    unfolding ex_relay_def
    by (intro relay_reachable.step o)
      (simp_all add: relay_enabled_def ex_relay_open_eq relay_perform_def run_relay_acceptor_def describe_peer_def relay_accept_def
        inc_active_def init)
qed

section \<open>A listen session, a connect session that waits for its accept, and a third connection\<close>

definition ex_block :: "u32 \<Rightarrow> bytes \<Rightarrow> u16 \<Rightarrow> bytes \<Rightarrow> u16 \<Rightarrow> bytes" where
  "ex_block ty src sport dst dport = init_bytes \<lparr>pi_type = ty, pi_src_addr = src @ [0, 0], pi_sport = sport,
     pi_dst_addr = dst @ [0, 0], pi_dport = dport\<rparr>"

lemma ex_block [simp]:
  assumes "length src = 6" "length dst = 6"
  shows "init_of_bytes (ex_block ty src sport dst dport) = \<lparr>pi_type = ty, pi_src_addr = src @ [0, 0], pi_sport = sport,
     pi_dst_addr = dst @ [0, 0], pi_dport = dport\<rparr>" "length (ex_block ty src sport dst dport) = 24"
  unfolding ex_block_def using assms by (simp_all add: init_roundtrip)

definition ex_start :: "relay_server \<Rightarrow> relay_server" where
  "ex_start v = relay_perform std_fmt (Run_begin (rl_next (rv_relay v)))
     (relay_perform std_fmt (Relay_accept (Racc_socket (Peer_unix []))) v)"

definition ex_listening :: relay_server where
  "ex_listening = relay_perform std_fmt (Run_got_init 0 (Some (ex_block 1 [1, 2, 3, 4, 5, 6] 5 [0, 0, 0, 0, 0, 0] 0)))
     (ex_start relay_server_init)"

definition ex_connecting :: relay_server where
  "ex_connecting = relay_perform std_fmt (Run_got_init 1 (Some (ex_block 2 [6, 5, 4, 3, 2, 1] 9 [1, 2, 3, 4, 5, 6] 5)))
     (ex_start ex_listening)"

definition ex_accepting :: relay_server where
  "ex_accepting = ex_start ex_connecting"

lemma ex_start_reachable:
  assumes "relay_reachable std_fmt v" "rv_loop v" "rl_active (rv_relay v) < 5000"
  shows "relay_reachable std_fmt (ex_start v)"
  unfolding ex_start_def
  using assms by (intro relay_reachable.step)
    (simp_all add: relay_enabled_def relay_perform_def run_relay_acceptor_def describe_peer_def relay_accept_def inc_active_def
      new_relay_session_def)

lemma ex_start_fields:
  assumes "rl_active (rv_relay v) < 5000" "rv_open v"
  shows "ex_start v = v\<lparr>rv_relay := (rv_relay v)\<lparr>rl_active := Suc (rl_active (rv_relay v)),
     rl_sess := (rl_sess (rv_relay v))(rl_next (rv_relay v) := (new_relay_session [] (rl_now (rv_relay v)))
       \<lparr>rs_expiry := rl_now (rv_relay v) + 5000, rs_run := Run_init\<rparr>),
     rl_next := Suc (rl_next (rv_relay v))\<rparr>, rv_loop := True\<rparr>"
  using assms by (simp add: ex_start_def relay_perform_def run_relay_acceptor_def describe_peer_def relay_accept_def inc_active_def
      relay_step_def read_init_def expires_after_def on_relay_def)

lemma name_eight [simp]:
  "get_listen_session_name F [a, b, c, d, e, f, g, h] p = get_listen_session_name F [a, b, c, d, e, f] p"
  "get_connect_session_name F [a, b, c, d, e, f, g, h] p [i, j, k, l, m, n, g', h'] q
   = get_connect_session_name F [a, b, c, d, e, f] p [i, j, k, l, m, n] q"
  by (simp_all add: session_name_defs mac_text_def)

definition ex_listen_name :: bytes where
  "ex_listen_name = get_listen_session_name std_fmt [1, 2, 3, 4, 5, 6] 5"
definition ex_connect_name :: bytes where
  "ex_connect_name = get_connect_session_name std_fmt [6, 5, 4, 3, 2, 1] 9 [1, 2, 3, 4, 5, 6] 5"

lemma ex_listening_fields:
  "rl_names (rv_relay ex_listening) = [(ex_listen_name, 0)]" "rl_waiters (rv_relay ex_listening) = []"
  "rl_dir (rv_relay ex_listening) = [([1, 2, 3, 4, 5, 6], \<lparr>ps_pdp = [], ps_ptp = [5]\<rparr>)]"
  "rl_next (rv_relay ex_listening) = 1" "rl_active (rv_relay ex_listening) = 1" "rl_now (rv_relay ex_listening) = 0"
  "rv_open ex_listening" "rv_loop ex_listening"
  by (simp_all add: ex_listening_def ex_start_fields relay_server_init_def relay_init_def relay_perform_def
      relay_step_def read_init_def expires_after_def run_init_def establish_self_def register_self_def Let_def on_relay_def set_endpoints_def
      reg_add_def reg_find_def get_identifier_def directory_port_kind_def new_relay_session_def dir_add_def
      um_emplace_def empty_port_set_def lower_bound_def insert_at_def forward_head_def ex_listen_name_def)

lemma ex_connecting_fields:
  "rl_names (rv_relay ex_connecting) = [(ex_listen_name, 0), (ex_connect_name, 1)]"
  "rl_dir (rv_relay ex_connecting) = [([1, 2, 3, 4, 5, 6], \<lparr>ps_pdp = [], ps_ptp = [5]\<rparr>),
     ([6, 5, 4, 3, 2, 1], \<lparr>ps_pdp = [], ps_ptp = [9]\<rparr>)]"
  "rl_next (rv_relay ex_connecting) = 2" "rl_active (rv_relay ex_connecting) = 2"
  "rv_open ex_connecting" "rv_loop ex_connecting" "\<not> rs_established (rl_sess (rv_relay ex_connecting) 1)"
proof -
  note defs = ex_connecting_def ex_start_fields ex_listening_fields relay_perform_def relay_step_def read_init_def expires_after_def run_init_def
    establish_connect_def await_session_def connect_to_def register_self_def Let_def on_relay_def set_endpoints_def reg_add_def reg_find_def
    get_identifier_def directory_port_kind_def new_relay_session_def dir_add_def um_emplace_def empty_port_set_def
    lower_bound_def insert_at_def ex_connect_name_def ex_listen_name_def
  show "rl_names (rv_relay ex_connecting) = [(ex_listen_name, 0), (ex_connect_name, 1)]" by (simp add: defs)
  show "rl_dir (rv_relay ex_connecting) = [([1, 2, 3, 4, 5, 6], \<lparr>ps_pdp = [], ps_ptp = [5]\<rparr>),
     ([6, 5, 4, 3, 2, 1], \<lparr>ps_pdp = [], ps_ptp = [9]\<rparr>)]" by (simp add: defs)
  show "rl_next (rv_relay ex_connecting) = 2" "rl_active (rv_relay ex_connecting) = 2"
    "rv_open ex_connecting" "rv_loop ex_connecting" by (simp_all add: defs)
  show "\<not> rs_established (rl_sess (rv_relay ex_connecting) 1)" by (simp add: defs)
qed

lemma ex_accepting_fields:
  "rl_names (rv_relay ex_accepting) = [(ex_listen_name, 0), (ex_connect_name, 1)]"
  "rl_dir (rv_relay ex_accepting) = rl_dir (rv_relay ex_connecting)"
  "rl_next (rv_relay ex_accepting) = 3" "rs_run (rl_sess (rv_relay ex_accepting) 2) = Run_init"
  "\<not> rs_established (rl_sess (rv_relay ex_accepting) 1)"
  using ex_connecting_fields by (simp_all add: ex_accepting_def ex_start_fields)

lemma ex_accepting_reachable: "relay_reachable std_fmt ex_accepting"
proof -
  have run: "rs_run (rl_sess (rv_relay (ex_start v)) (rl_next (rv_relay v))) = Run_init"
    "rl_next (rv_relay (ex_start v)) = Suc (rl_next (rv_relay v))"
    if "rl_active (rv_relay v) < 5000" "rv_open v" for v
    using that by (simp_all add: ex_start_fields)
  have 0: "relay_reachable std_fmt (ex_start relay_server_init)"
    by (rule ex_start_reachable[OF relay_reachable.start]) (simp_all add: relay_server_init_def relay_init_def)
  have 1: "relay_reachable std_fmt ex_listening"
    unfolding ex_listening_def using run[of relay_server_init]
    by (intro relay_reachable.step[OF 0]) (simp add: relay_enabled_def relay_server_init_def relay_init_def)
  have 2: "relay_reachable std_fmt ex_connecting"
    unfolding ex_connecting_def using run[of ex_listening]
    by (intro relay_reachable.step ex_start_reachable[OF 1]) (simp_all add: relay_enabled_def ex_listening_fields)
  show ?thesis
    unfolding ex_accepting_def by (rule ex_start_reachable[OF 2]) (simp_all add: ex_connecting_fields)
qed

text \<open>The same after the listening client went away.\<close>

definition ex_gone :: relay_server where
  "ex_gone = relay_perform std_fmt (Run_heard 0 True) ex_accepting"

lemma ex_listen_session:
  "rl_sess (rv_relay ex_listening) 0 = (new_relay_session [] 0)\<lparr>rs_mode := PTP_LISTEN, rs_from_mac := [1, 2, 3, 4, 5, 6],
     rs_from_port := 5, rs_identifier := ex_listen_name, rs_registered := True, rs_run := Run_listen, rs_expiry := 5000\<rparr>"
  by (simp add: ex_listening_def ex_start_fields relay_server_init_def relay_init_def relay_perform_def
      relay_step_def read_init_def expires_after_def run_init_def establish_self_def register_self_def Let_def on_relay_def set_endpoints_def
      reg_add_def reg_find_def get_identifier_def directory_port_kind_def new_relay_session_def dir_add_def
      um_emplace_def empty_port_set_def lower_bound_def insert_at_def forward_head_def ex_listen_name_def)

lemma ex_connecting_sessions:
  "rl_sess (rv_relay ex_connecting) 0 = queue_send (ptp_connect_bytes (to_str [6, 5, 4, 3, 2, 1]) 9) (rl_sess (rv_relay ex_listening) 0)"
  "rs_run (rl_sess (rv_relay ex_connecting) 1) = Run_bond False"
  "rs_from_mac (rl_sess (rv_relay ex_connecting) 1) = [6, 5, 4, 3, 2, 1]" "rs_from_port (rl_sess (rv_relay ex_connecting) 1) = 9"
  "rs_write_queue (rl_sess (rv_relay ex_connecting) 1) = []"
proof -
  note defs = ex_connecting_def ex_start_fields ex_listening_fields relay_perform_def relay_step_def read_init_def expires_after_def run_init_def
    establish_connect_def await_session_def connect_to_def register_self_def Let_def on_relay_def set_endpoints_def reg_add_def reg_find_def
    get_identifier_def directory_port_kind_def new_relay_session_def dir_add_def um_emplace_def empty_port_set_def
    lower_bound_def insert_at_def ex_connect_name_def ex_listen_name_def
  show "rl_sess (rv_relay ex_connecting) 0 = queue_send (ptp_connect_bytes (to_str [6, 5, 4, 3, 2, 1]) 9) (rl_sess (rv_relay ex_listening) 0)"
    by (simp add: defs)
  show "rs_run (rl_sess (rv_relay ex_connecting) 1) = Run_bond False" by (simp add: defs)
  show "rs_from_mac (rl_sess (rv_relay ex_connecting) 1) = [6, 5, 4, 3, 2, 1]" "rs_from_port (rl_sess (rv_relay ex_connecting) 1) = 9"
    by (simp_all add: defs)
  show "rs_write_queue (rl_sess (rv_relay ex_connecting) 1) = []" by (simp add: defs)
qed

lemma ex_connecting_timer:
  "rs_expiry (rl_sess (rv_relay ex_connecting) 1) = 5000" "rl_now (rv_relay ex_accepting) = 0"
proof -
  note defs = ex_connecting_def ex_start_fields ex_listening_fields relay_perform_def relay_step_def read_init_def expires_after_def run_init_def
    establish_connect_def await_session_def connect_to_def register_self_def Let_def on_relay_def set_endpoints_def reg_add_def reg_find_def
    get_identifier_def directory_port_kind_def new_relay_session_def dir_add_def um_emplace_def empty_port_set_def
    lower_bound_def insert_at_def ex_connect_name_def ex_listen_name_def
  show "rs_expiry (rl_sess (rv_relay ex_connecting) 1) = 5000" by (simp add: defs)
  have "rl_now (rv_relay ex_connecting) = 0" by (simp add: defs)
  then show "rl_now (rv_relay ex_accepting) = 0" by (simp add: ex_accepting_def ex_start_fields ex_connecting_fields)
qed

lemma ex_accepting_listener:
  "rs_run (rl_sess (rv_relay ex_accepting) 0) = Run_listen" "rs_registered (rl_sess (rv_relay ex_accepting) 0)"
  "\<not> rs_superseded (rl_sess (rv_relay ex_accepting) 0)" "\<not> rs_finished (rl_sess (rv_relay ex_accepting) 0)"
  "rs_identifier (rl_sess (rv_relay ex_accepting) 0) = ex_listen_name" "rs_mode (rl_sess (rv_relay ex_accepting) 0) = PTP_LISTEN"
  "rs_from_mac (rl_sess (rv_relay ex_accepting) 0) = [1, 2, 3, 4, 5, 6]" "rs_from_port (rl_sess (rv_relay ex_accepting) 0) = 5"
  "rl_sess (rv_relay ex_accepting) 1 = rl_sess (rv_relay ex_connecting) 1"
  by (simp_all add: ex_accepting_def ex_start_fields ex_connecting_fields ex_connecting_sessions ex_listen_session
      queue_send_def new_relay_session_def ptp_connect_bytes_def to_str_def le16_def Let_def)

lemma ex_gone_reachable: "relay_reachable std_fmt ex_gone"
  unfolding ex_gone_def
  by (rule relay_reachable.step[OF ex_accepting_reachable])
    (simp add: relay_enabled_def ex_accepting_listener ex_accepting_fields)

lemma ex_gone_fields:
  "rl_names (rv_relay ex_gone) = [(ex_connect_name, 1)]" "rl_next (rv_relay ex_gone) = 3"
  "rl_dir (rv_relay ex_gone) = [([6, 5, 4, 3, 2, 1], \<lparr>ps_pdp = [], ps_ptp = [9]\<rparr>)]"
  "rl_sess (rv_relay ex_gone) 1 = rl_sess (rv_relay ex_connecting) 1" "rs_run (rl_sess (rv_relay ex_gone) 2) = Run_init"
proof -
  have ne: "ex_listen_name \<noteq> ex_connect_name" "ex_connect_name \<noteq> ex_listen_name"
    by (simp_all add: ex_listen_name_def ex_connect_name_def)
  have eq: "rv_relay ex_gone = run_end std_fmt 0 (rv_relay ex_accepting)"
    by (simp add: ex_gone_def relay_perform_def relay_step_def read_init_def expires_after_def run_listen_def)
  note defs = run_end_def finish_def Let_def get_peer_identifier_def reg_remove_def reg_find_def dec_active_def um_erase_def
    dir_remove_def directory_port_kind_def ex_accepting_listener ex_accepting_fields ex_connecting_fields ne
  show "rl_names (rv_relay ex_gone) = [(ex_connect_name, 1)]" "rl_next (rv_relay ex_gone) = 3"
    "rl_dir (rv_relay ex_gone) = [([6, 5, 4, 3, 2, 1], \<lparr>ps_pdp = [], ps_ptp = [9]\<rparr>)]"
    "rl_sess (rv_relay ex_gone) 1 = rl_sess (rv_relay ex_connecting) 1" "rs_run (rl_sess (rv_relay ex_gone) 2) = Run_init"
    unfolding eq by (simp_all add: defs del: One_nat_def)
qed

end
