(* ===== verification/Relay_Properties.thy ===== *)
theory Relay_Properties
  imports Relay_Life Relay_Example
begin

text \<open>
  The properties of the relay.
\<close>

section \<open>The registry and the directory\<close>

text \<open>
  C16: In every reachable state of the relay the session map holds exactly the sessions that registered
  themselves and neither finished nor were superseded, each under the name made of its mode and
  endpoints; and the session count is the number of unfinished sessions, at most 5000.
\<close>

theorem relay_registry_exact:
  assumes "relay_reachable F v"
  shows "(reg_find n (rv_relay v) = Some s \<longleftrightarrow> (let x = rl_sess (rv_relay v) s in s < rl_next (rv_relay v)
        \<and> \<not> rs_finished x \<and> rs_registered x \<and> \<not> rs_superseded x \<and> get_identifier F x = n))
    \<and> rl_active (rv_relay v) = card {t. t < rl_next (rv_relay v) \<and> \<not> rs_finished (rl_sess (rv_relay v) t)}
    \<and> rl_active (rv_relay v) \<le> max_num_sessions"
proof -
  note d = relay_invD[OF relay_reachable_inv[OF assms]]
  have "rs_registered (rl_sess (rv_relay v) s) \<Longrightarrow>
      rs_identifier (rl_sess (rv_relay v) s) = get_identifier F (rl_sess (rv_relay v) s)"
    using d(1)[of s] by (simp add: rs_wf_def)
  then show ?thesis
    using d(3,4) by (auto simp: names_ok_def active_ok_def reg_find_def current_def active_def Let_def)
qed

theorem relay_registry_exact_witness:
  "reg_find (get_pdp_session_name std_fmt [1, 2, 3, 4, 5, 6] 7) (rv_relay ex_relay) = Some 0 \<and> rl_active (rv_relay ex_relay) = 2
    \<and> get_identifier std_fmt (rl_sess (rv_relay ex_relay) 0) = get_pdp_session_name std_fmt [1, 2, 3, 4, 5, 6] 7"
proof -
  have "reg_find (get_pdp_session_name std_fmt [1, 2, 3, 4, 5, 6] 7) (rv_relay ex_relay) = Some 0"
    by (simp add: ex_relay_eq reg_find_def)
  then show ?thesis
    using relay_registry_exact[OF ex_relay_reachable(2), of "get_pdp_session_name std_fmt [1, 2, 3, 4, 5, 6] 7" 0]
    by (simp add: Let_def) (simp add: ex_relay_eq)
qed

text \<open>
  C17: No wake-up is lost.  In every reachable state a relay writer that sleeps has an empty queue and an
  open session, a connecting session that sleeps until it is bonded is open, and a session that waits for
  a listen session is on the list that session will wake when it registers, and none is registered now.
\<close>

theorem relay_no_lost_wakeup:
  assumes "relay_reachable F v" "x = rl_sess (rv_relay v) s"
  shows "(rs_writer x = Wr_wait False \<longrightarrow> rs_write_queue x = [] \<and> \<not> rs_closed x)
    \<and> (rs_run x = Run_bond False \<longrightarrow> \<not> rs_closed x)
    \<and> (rs_run x = Run_await i False \<longrightarrow>
        reg_find (get_listen_session_name F (pi_dst_addr i) (pi_dport i)) (rv_relay v) = None
        \<and> (\<exists>ws. map_of (rl_waiters (rv_relay v)) (get_listen_session_name F (pi_dst_addr i) (pi_dport i)) = Some ws
            \<and> s \<in> set ws))"
proof -
  note d = relay_invD[OF relay_reachable_inv[OF assms(1)]]
  show ?thesis
    using d(1)[of s] d(6) assms(2)
    by (auto simp: rs_wf_def ro.awake_inv_def wait_ok_def listen_name_def reg_find_def)
qed

theorem relay_no_lost_wakeup_witness:
  "let v = relay_perform std_fmt (Relay_writer_resume 0) ex_relay; x = rl_sess (rv_relay v) 0
   in rs_writer x = Wr_wait False \<and> rs_write_queue x = [] \<and> \<not> rs_closed x"
proof -
  let ?v = "relay_perform std_fmt (Relay_writer_resume 0) ex_relay"
  have "relay_enabled (Relay_writer_resume 0) ex_relay"
    by (simp add: relay_enabled_def ex_relay_eq ex_pdp_session_def new_relay_session_def)
  from relay_reachable.step[OF ex_relay_reachable(2) this] have r: "relay_reachable std_fmt ?v" .
  have "rs_writer (rl_sess (rv_relay ?v) 0) = Wr_wait False"
    by (simp add: relay_perform_def relay_step_def ex_relay_eq ex_pdp_session_def new_relay_session_def relay_writer_loop_def)
  then show ?thesis using relay_no_lost_wakeup[OF r refl, of 0] by (simp add: Let_def)
qed

text \<open>
  C18: In every reachable state each relay session is well formed: its MAC addresses have six bytes and its
  name is the one of its mode and endpoints once it is registered; it is finished exactly when its
  coroutine is; before it registers nothing is queued for it and nobody closes it; the byte count is the
  sum of the sizes of the queued blocks (its subtraction never wraps), and an open session never has
  512000 or more bytes queued; and its timer lies at most five seconds ahead.
\<close>

theorem relay_sessions_well_formed:
  assumes "relay_reachable F v" "x = rl_sess (rv_relay v) s"
  shows "length (rs_from_mac x) = 6 \<and> length (rs_to_mac x) = 6
    \<and> (rs_registered x \<longrightarrow> rs_identifier x = get_identifier F x)
    \<and> (rs_finished x \<longleftrightarrow> rs_run x = Run_done) \<and> (rs_finished x \<longrightarrow> rs_closed x)
    \<and> (rs_run x \<in> {Run_start, Run_init} \<or> (\<exists>i c. rs_run x = Run_await i c) \<longrightarrow>
        \<not> rs_registered x \<and> \<not> rs_closed x \<and> rs_write_queue x = [])
    \<and> rs_queued_bytes x = sum_list (map length (rs_write_queue x))
    \<and> (\<not> rs_closed x \<longrightarrow> rs_queued_bytes x < data_queue_size_limit_byte)
    \<and> rs_expiry x \<le> rl_now (rv_relay v) + 5000"
proof -
  note d = relay_invD(1,2,7)[OF relay_reachable_inv[OF assms(1)], of s]
  have "rs_expiry x \<le> rl_now (rv_relay v) + 5000"
    using relay_reachable_expiry[OF assms(1)] assms(2) by (simp add: expiry_ok_def)
  moreover have "early (rs_run x) \<longleftrightarrow> rs_run x \<in> {Run_start, Run_init} \<or> (\<exists>i c. rs_run x = Run_await i c)"
    by (auto simp: early_def split: run_pc.splits)
  ultimately show ?thesis using d assms(2) by (auto simp: rs_wf_def run_wf_def calm_def)
qed

theorem relay_sessions_well_formed_witness:
  "rs_identifier (rl_sess (rv_relay ex_relay) 0) = get_identifier std_fmt (rl_sess (rv_relay ex_relay) 0)
    \<and> rs_write_queue (rl_sess (rv_relay ex_relay) 1) = []"
proof -
  have "rs_registered (rl_sess (rv_relay ex_relay) 0)" "rs_run (rl_sess (rv_relay ex_relay) 1) = Run_init"
    by (simp_all add: ex_relay_eq ex_pdp_session_def)
  then show ?thesis
    using relay_sessions_well_formed[OF ex_relay_reachable(2) refl, of 0]
      relay_sessions_well_formed[OF ex_relay_reachable(2) refl, of 1] by blast
qed

text \<open>
  C19: In every reachable state each port the directory shows belongs to a session that has not finished
  and registered itself with that MAC address, kind and port; the port lists are sorted and
  without repetition.
\<close>

theorem relay_directory_sound:
  assumes "relay_reachable F v" "dir_find m (rl_dir (rv_relay v)) = Some ps"
  shows "sorted (ports_of k ps) \<and> distinct (ports_of k ps)
    \<and> (\<forall>p\<in>set (ports_of k ps). \<exists>s<rl_next (rv_relay v). let x = rl_sess (rv_relay v) s in
        \<not> rs_finished x \<and> rs_registered x \<and> rs_from_mac x = m \<and> directory_port_kind x = k \<and> rs_from_port x = p)"
proof -
  note d = relay_invD(5)[OF relay_reachable_inv[OF assms(1)]]
  have "port_set_wf ps" using d dir_wfD(2)[of "rl_dir (rv_relay v)" m ps] assms(2) by (simp add: dir_ok_def dir_find_def)
  moreover have "(m, k, p) \<in> dir_has (rl_dir (rv_relay v))" if "p \<in> set (ports_of k ps)" for p
    using that assms(2) by (simp add: dir_has_def dir_find_def)
  ultimately show ?thesis
    using d unfolding dir_ok_def active_def port_key_def by (fastforce simp: port_set_wf_ports Let_def)
qed

theorem relay_directory_sound_witness:
  "dir_find [1, 2, 3, 4, 5, 6] (rl_dir (rv_relay ex_relay)) = Some \<lparr>ps_pdp = [7], ps_ptp = []\<rparr>
    \<and> (\<exists>s<2. rs_from_port (rl_sess (rv_relay ex_relay) s) = 7)"
proof -
  have d: "dir_find [1, 2, 3, 4, 5, 6] (rl_dir (rv_relay ex_relay)) = Some \<lparr>ps_pdp = [7], ps_ptp = []\<rparr>"
    by (simp add: ex_relay_eq dir_find_def)
  moreover have "rl_next (rv_relay ex_relay) = 2" by (simp add: ex_relay_eq)
  ultimately show ?thesis
    using relay_directory_sound[OF ex_relay_reachable(2) d, of Pdp] by (auto simp: Let_def)
qed

text \<open>The ports of one kind that \<^verbatim>\<open>find\<close> answers with, none when it finds nothing.\<close>

definition found_ports :: "bytes \<Rightarrow> port_kind \<Rightarrow> directory \<Rightarrow> u16 list" where
  "found_ports m k d = (case dir_find m d of None \<Rightarrow> [] | Some ps \<Rightarrow> ports_of k ps)"

lemma found_ports_eq:
  assumes "dir_wf d"
  shows "found_ports m k d = sorted_list_of_set {p. (m, k, p) \<in> dir_has d}"
proof (cases "map_of d m")
  case (Some s)
  then have "sorted (ports_of k s)" "distinct (ports_of k s)"
    using dir_wfD(2)[OF assms Some] by (simp_all add: port_set_wf_ports)
  moreover have "{p. (m, k, p) \<in> dir_has d} = set (ports_of k s)" using Some by (simp add: dir_has_def)
  ultimately show ?thesis
    using Some by (simp add: found_ports_def dir_find_def sorted_list_of_set.idem_if_sorted_distinct)
qed (simp add: found_ports_def dir_find_def dir_has_def)

lemma dir_find_None:
  assumes "dir_wf d"
  shows "dir_find m d = None \<longleftrightarrow> (\<forall>k p. (m, k, p) \<notin> dir_has d)"
proof (cases "map_of d m")
  case (Some s)
  then obtain k where "ports_of k s \<noteq> []" using dir_wfD(2)[OF assms Some] by (auto simp: port_set_wf_ports)
  then have "(m, k, hd (ports_of k s)) \<in> dir_has d" using Some by (simp add: dir_has_def)
  then have "\<exists>k p. (m, k, p) \<in> dir_has d" by blast
  then show ?thesis using Some by (simp add: dir_find_def)
qed (simp add: dir_find_def dir_has_def)

text \<open>
  C20: The directory implements a set of (MAC, kind, port) triples: adding reports whether the triple is
  new and adds it, removing removes it, and finding shows, before and after either, exactly the ports of a
  MAC in ascending order, or nothing when it has none.
\<close>

theorem directory_refines_set:
  assumes "dir_wf d"
  shows "(\<exists>d'. dir_add m k p d = ((m, k, p) \<notin> dir_has d, d') \<and> dir_wf d' \<and> dir_has d' = insert (m, k, p) (dir_has d)
        \<and> (\<forall>m' k'. found_ports m' k' d' = sorted_list_of_set {p'. (m', k', p') \<in> insert (m, k, p) (dir_has d)}))
    \<and> dir_wf (dir_remove m k p d) \<and> dir_has (dir_remove m k p d) = dir_has d - {(m, k, p)}
    \<and> (\<forall>m' k'. found_ports m' k' (dir_remove m k p d)
        = sorted_list_of_set {p'. (m', k', p') \<in> dir_has d - {(m, k, p)}})
    \<and> (\<forall>k'. found_ports m k' d = sorted_list_of_set {p'. (m, k', p') \<in> dir_has d})
    \<and> (dir_find m d = None \<longleftrightarrow> (\<forall>k p. (m, k, p) \<notin> dir_has d))"
proof -
  define d' where "d' = snd (dir_add m k p d)"
  have add: "dir_add m k p d = ((m, k, p) \<notin> dir_has d, d')" "dir_wf d'" "dir_has d' = insert (m, k, p) (dir_has d)"
    using pd.add_ok[OF assms, of m k p] pd.add_result[OF assms, of m k p] pd.add_has[OF assms, of m k p]
    by (simp_all add: d'_def prod_eq_iff)
  note rem = pd.remove_ok[OF assms, of m k p] pd.remove_has[OF assms, of m k p]
  have "found_ports m' k' d' = sorted_list_of_set {p'. (m', k', p') \<in> insert (m, k, p) (dir_has d)}" for m' k'
    using found_ports_eq[OF add(2), of m' k'] unfolding add(3) .
  moreover have "found_ports m' k' (dir_remove m k p d)
      = sorted_list_of_set {p'. (m', k', p') \<in> dir_has d - {(m, k, p)}}" for m' k'
    using found_ports_eq[OF rem(1), of m' k'] unfolding rem(2) .
  ultimately show ?thesis
    using add rem found_ports_eq[OF assms] dir_find_None[OF assms] by blast
qed

theorem directory_refines_set_witness:
  "\<exists>d d'. dir_add [1] Ptp 5 [] = (True, d) \<and> dir_add [1] Ptp 3 d = (True, d') \<and> found_ports [1] Ptp d' = [3, 5]
    \<and> found_ports [1] Ptp (dir_remove [1] Ptp 5 d') = [3] \<and> dir_find [2] d' = None"
proof -
  obtain d where d: "dir_add [1] Ptp 5 [] = (True, d)" "dir_wf d" "dir_has d = {([1], Ptp, 5)}"
    using directory_refines_set[OF pd.none_ok, of "[1]" Ptp 5] by (auto simp: pd.none_has)
  obtain d' where d': "dir_add [1] Ptp 3 d = (True, d')" "dir_wf d'" "dir_has d' = {([1], Ptp, 3), ([1], Ptp, 5)}"
    "found_ports [1] Ptp d' = sorted_list_of_set {p'. ([1], Ptp, p') \<in> {([1], Ptp, 3), ([1], Ptp, 5)}}"
    using directory_refines_set[OF d(2), of "[1]" Ptp 3] d(3) by auto
  have sets: "{p'. ([1], Ptp, p') \<in> {([1 :: byte], Ptp, 3), ([1], Ptp, 5)}} = {3, 5 :: u16}"
    "{p'. ([1], Ptp, p') \<in> {([1 :: byte], Ptp, 3), ([1], Ptp, 5)} - {([1], Ptp, 5)}} = {3 :: u16}" by auto
  have "found_ports [1] Ptp (dir_remove [1] Ptp 5 d') = [3]" "dir_find [2] d' = None"
    using directory_refines_set[OF d'(2), of "[1]" Ptp 5] directory_refines_set[OF d'(2), of "[2]" Ptp 5] d'(3) sets(2)
    by auto
  moreover have "found_ports [1] Ptp d' = [3, 5]" using d'(4) sets(1) by simp
  ultimately show ?thesis using d(1) d'(1) by blast
qed

text \<open>
  Sessions that are each other's peer.  Given that fmt's conversions are injective, the name a
  session looks for as its peer is that of exactly one kind of session: a connect session with the
  endpoints exchanged for an accept session and the other way round, whose peer name is in turn the
  first session's own.
\<close>

lemma relay_peers_dual:
  assumes "fmt_laws F" "get_identifier F y = get_peer_identifier F x" "get_peer_identifier F x \<noteq> []"
    "length (rs_from_mac x) = 6" "length (rs_to_mac x) = 6" "length (rs_from_mac y) = 6" "length (rs_to_mac y) = 6"
  shows "get_peer_identifier F y = get_identifier F x
    \<and> (rs_mode x = PTP_CONNECT \<and> rs_mode y = PTP_ACCEPT \<or> rs_mode x = PTP_ACCEPT \<and> rs_mode y = PTP_CONNECT)
    \<and> rs_from_mac y = rs_to_mac x \<and> rs_from_port y = rs_to_port x
    \<and> rs_to_mac y = rs_from_mac x \<and> rs_to_port y = rs_from_port x"
proof -
  note inj = fmt_laws.name_inj[OF assms(1), of "rs_from_mac y" "rs_to_mac x" "rs_to_mac y" "rs_from_mac x"]
  have modes: "rs_mode x = PTP_CONNECT \<and> rs_mode y = PTP_ACCEPT \<or> rs_mode x = PTP_ACCEPT \<and> rs_mode y = PTP_CONNECT"
    using assms(2,3) by (cases "rs_mode x"; cases "rs_mode y")
      (simp_all add: get_identifier_def get_peer_identifier_def)
  then have "rs_from_mac y = rs_to_mac x \<and> rs_from_port y = rs_to_port x
      \<and> rs_to_mac y = rs_from_mac x \<and> rs_to_port y = rs_from_port x"
    using assms(2,4-7) inj by (auto simp: get_identifier_def get_peer_identifier_def)
  then show ?thesis using modes by (auto simp: get_identifier_def get_peer_identifier_def)
qed

section \<open>Opening ports\<close>

text \<open>
  C21: Opening a PDP or listen port that the directory shows as open for this MAC address, be it by the
  same client's previous connection: the new session is ended at once, the session that had the name is
  closed with it, and the directory no longer shows the port, whoever has it.
\<close>

theorem reopened_port_refused:
  assumes "relay_reachable F v" "s < rl_next (rv_relay v)" "rs_run (rl_sess (rv_relay v) s) = Run_init" "length b = 24"
    and "pi_type (init_of_bytes b) = 0 \<and> k = Pdp \<and> n = get_pdp_session_name F m p
      \<or> pi_type (init_of_bytes b) = 1 \<and> k = Ptp \<and> n = get_listen_session_name F m p"
    and "m = take 6 (pi_src_addr (init_of_bytes b))" "p = pi_sport (init_of_bytes b)"
    and "(m, k, p) \<in> dir_has (rl_dir (rv_relay v))"
  shows "let r = run_init F (Some b) s (rv_relay v) in rs_finished (rl_sess r s)
    \<and> (m, k, p) \<notin> dir_has (rl_dir r) \<and> reg_find n r = None
    \<and> (\<forall>t. reg_find n (rv_relay v) = Some t \<longrightarrow> rs_closed (rl_sess r t))"
proof -
  let ?r = "rv_relay v" and ?i = "init_of_bytes b"
  let ?md = "if k = Pdp then PDP else PTP_LISTEN"
  let ?r1 = "on_relay s (\<lambda>x. set_endpoints (pi_src_addr ?i) (pi_sport ?i) None 0 (x\<lparr>rs_mode := ?md\<rparr>)) ?r"
  have run: "running F s False ?r"
    using running_early[OF relay_reachable_inv[OF assms(1)] assms(2)] assms(3) by simp
  have r1: "running F s False ?r1"
    using running_endpoints[OF run, of "pi_src_addr ?i" None] init_of_bytes_lengths[OF assms(4)] by simp
  have eq: "run_init F (Some b) s ?r = establish_self F s ?r1"
    using assms(5) by (auto simp: run_init_def Let_def)
  have key: "port_key (rl_sess ?r1 s) = (m, k, p)"
    using assms(5-7) by (auto simp: port_key_def directory_port_kind_def)
  have id: "get_identifier F (rl_sess ?r1 s) = n"
    using assms(5-7) by (auto simp: get_identifier_def)
  have taken: "port_key (rl_sess ?r1 s) \<in> dir_has (rl_dir ?r1)" unfolding key on_relay_simps(5) by (rule assms(8))
  note f = establish_self_refused[OF r1 taken, unfolded key id]
  have "reg_find n ?r1 = reg_find n ?r" by (simp add: reg_find_def)
  then show ?thesis unfolding eq Let_def using f by auto
qed

theorem reopened_port_refused_witness:
  "let r = run_init std_fmt (Some ex_init_block) 1 (rv_relay ex_relay)
   in rs_finished (rl_sess r 1) \<and> rs_closed (rl_sess r 0) \<and> dir_find [1, 2, 3, 4, 5, 6] (rl_dir r) = None"
proof -
  let ?r = "run_init std_fmt (Some ex_init_block) 1 (rv_relay ex_relay)"
  have n: "reg_find (get_pdp_session_name std_fmt [1, 2, 3, 4, 5, 6] 7) (rv_relay ex_relay) = Some 0"
    by (simp add: ex_relay_eq reg_find_def)
  have s: "1 < rl_next (rv_relay ex_relay)" "rs_run (rl_sess (rv_relay ex_relay) 1) = Run_init"
    by (simp_all add: ex_relay_eq)
  have has: "dir_has (rl_dir (rv_relay ex_relay)) = {([1, 2, 3, 4, 5, 6], Pdp, 7)}"
    by (auto simp: ex_relay_eq dir_has_def in_ports_of split: if_splits)
  have "let r = ?r in rs_finished (rl_sess r 1) \<and> ([1, 2, 3, 4, 5, 6], Pdp, 7) \<notin> dir_has (rl_dir r)
      \<and> reg_find (get_pdp_session_name std_fmt [1, 2, 3, 4, 5, 6] 7) r = None
      \<and> (\<forall>t. reg_find (get_pdp_session_name std_fmt [1, 2, 3, 4, 5, 6] 7) (rv_relay ex_relay) = Some t \<longrightarrow> rs_closed (rl_sess r t))"
    by (rule reopened_port_refused[OF ex_relay_reachable(2) s ex_init_block(2)])
      (simp_all add: ex_init_block has)
  moreover have "dir_find [1, 2, 3, 4, 5, 6] (rl_dir ?r) = None"
    by (simp add: ex_relay_eq run_init_def ex_init_block establish_self_def register_self_def Let_def on_relay_def
        set_endpoints_def dir_add_def um_emplace_def lower_bound_def reg_add_def reg_find_def get_identifier_def
        directory_port_kind_def run_end_def finish_def dir_find_def dir_remove_def supersede_def relay_close_def
        new_relay_session_def ex_pdp_session_def dec_active_def reg_remove_def get_peer_identifier_def um_erase_def)
  ultimately show ?thesis using n by (simp add: Let_def)
qed

text \<open>
  C22: Accepting a connection while the listen session of the port is in the directory: the accept
  session, which registers the listen session's own MAC address and PTP port, is refused and ended, the
  connect session it was to be bonded with is closed as its peer, and the directory loses the listen
  session's entry.
\<close>

theorem accept_refused_while_listening:
  assumes "relay_reachable F v" "s < rl_next (rv_relay v)" "rs_run (rl_sess (rv_relay v) s) = Run_init" "length b = 24"
    and "i = init_of_bytes b" "pi_type i = 3"
    and "reg_find (get_connect_session_name F (pi_dst_addr i) (pi_dport i) (pi_src_addr i) (pi_sport i)) (rv_relay v) = Some c"
      "\<not> rs_established (rl_sess (rv_relay v) c)"
    and "(take 6 (pi_src_addr i), Ptp, pi_sport i) \<in> dir_has (rl_dir (rv_relay v))"
  shows "let r = run_init F (Some b) s (rv_relay v) in rs_finished (rl_sess r s) \<and> rs_closed (rl_sess r c)
    \<and> (take 6 (pi_src_addr i), Ptp, pi_sport i) \<notin> dir_has (rl_dir r)"
proof -
  let ?r = "rv_relay v"
  let ?r1 = "on_relay s (\<lambda>x. set_endpoints (pi_src_addr i) (pi_sport i) (Some (pi_dst_addr i)) (pi_dport i)
    (x\<lparr>rs_mode := PTP_ACCEPT\<rparr>)) ?r"
  have run: "running F s False ?r"
    using running_early[OF relay_reachable_inv[OF assms(1)] assms(2)] assms(3) by simp
  have len: "length (pi_src_addr i) = 8" "length (pi_dst_addr i) = 8"
    using init_of_bytes_lengths[OF assms(4)] assms(5) by simp_all
  have r1: "running F s False ?r1" using running_endpoints[OF run len(1), of "Some (pi_dst_addr i)"] len by simp
  have eq: "run_init F (Some b) s ?r = establish_accept F i s ?r1"
    using assms(5,6) by (simp add: run_init_def Let_def)
  have "c \<noteq> s" using found_current[OF runningD(1)[OF run] assms(7)] runningD(4)[OF run] by (auto simp: current_def)
  then have c: "reg_find (get_connect_session_name F (pi_dst_addr i) (pi_dport i) (pi_src_addr i) (pi_sport i)) ?r1 = Some c"
    "\<not> rs_established (rl_sess ?r1 c)" using assms(7,8) by (simp_all add: reg_find_def)
  have "rs_mode (rl_sess ?r1 s) = PTP_ACCEPT" "rs_from_mac (rl_sess ?r1 s) = take 6 (pi_src_addr i)"
    "rs_from_port (rl_sess ?r1 s) = pi_sport i" "rs_to_mac (rl_sess ?r1 s) = take 6 (pi_dst_addr i)"
    "rs_to_port (rl_sess ?r1 s) = pi_dport i" by simp_all
  note f = establish_accept_refused[OF r1 this c len, unfolded on_relay_simps(5), OF assms(9)]
  show ?thesis unfolding eq Let_def using f by blast
qed

theorem accept_refused_while_listening_witness:
  "let r = run_init std_fmt (Some (ex_block 3 [1, 2, 3, 4, 5, 6] 5 [6, 5, 4, 3, 2, 1] 9)) 2 (rv_relay ex_accepting)
   in rs_finished (rl_sess r 2) \<and> rs_closed (rl_sess r 1) \<and> ([1, 2, 3, 4, 5, 6], Ptp, 5) \<notin> dir_has (rl_dir r)"
proof -
  let ?b = "ex_block 3 [1, 2, 3, 4, 5, 6] 5 [6, 5, 4, 3, 2, 1] 9"
  let ?i = "\<lparr>pi_type = 3, pi_src_addr = [1, 2, 3, 4, 5, 6, 0, 0], pi_sport = 5, pi_dst_addr = [6, 5, 4, 3, 2, 1, 0, 0], pi_dport = 9\<rparr>"
  have b: "length ?b = 24" "?i = init_of_bytes ?b" by simp_all
  have find: "reg_find (get_connect_session_name std_fmt (pi_dst_addr ?i) (pi_dport ?i) (pi_src_addr ?i) (pi_sport ?i))
      (rv_relay ex_accepting) = Some 1"
    by (simp add: reg_find_def ex_accepting_fields ex_listen_name_def ex_connect_name_def)
  have has: "(take 6 (pi_src_addr ?i), Ptp, pi_sport ?i) \<in> dir_has (rl_dir (rv_relay ex_accepting))"
    by (simp add: ex_accepting_fields ex_connecting_fields dir_has_def)
  have s: "2 < rl_next (rv_relay ex_accepting)" "pi_type ?i = 3" by (simp_all add: ex_accepting_fields)
  from accept_refused_while_listening[OF ex_accepting_reachable s(1) ex_accepting_fields(4) b s(2) find
      ex_accepting_fields(5) has]
  show ?thesis by simp
qed

text \<open>
  C23: Opening a PDP or listen port that the directory does not show: the session is the one its name
  leads to, the directory shows the port, no other name or port changes, the session reads what its
  client sends, and every session that waited for the name is woken.
\<close>

theorem opened_port_registered:
  assumes "relay_reachable F v" "s < rl_next (rv_relay v)" "rs_run (rl_sess (rv_relay v) s) = Run_init" "length b = 24"
    and "pi_type (init_of_bytes b) = 0 \<and> k = Pdp \<and> n = get_pdp_session_name F m p
      \<or> pi_type (init_of_bytes b) = 1 \<and> k = Ptp \<and> n = get_listen_session_name F m p"
    and "m = take 6 (pi_src_addr (init_of_bytes b))" "p = pi_sport (init_of_bytes b)"
    and "(m, k, p) \<notin> dir_has (rl_dir (rv_relay v))"
  shows "let r = run_init F (Some b) s (rv_relay v) in
    (\<forall>n'. reg_find n' r = (if n' = n then Some s else reg_find n' (rv_relay v)))
    \<and> dir_has (rl_dir r) = insert (m, k, p) (dir_has (rl_dir (rv_relay v)))
    \<and> rs_run (rl_sess r s) = (if k = Pdp then Run_header else Run_listen)
    \<and> (\<forall>t i. rs_run (rl_sess (rv_relay v) t) = Run_await i False
        \<and> get_listen_session_name F (pi_dst_addr i) (pi_dport i) = n \<longrightarrow> rs_run (rl_sess r t) = Run_await i True)"
proof -
  let ?r = "rv_relay v" and ?i = "init_of_bytes b"
  let ?md = "if k = Pdp then PDP else PTP_LISTEN"
  let ?r1 = "on_relay s (\<lambda>x. set_endpoints (pi_src_addr ?i) (pi_sport ?i) None 0 (x\<lparr>rs_mode := ?md\<rparr>)) ?r"
  have run: "running F s False ?r"
    using running_early[OF relay_reachable_inv[OF assms(1)] assms(2)] assms(3) by simp
  have r1: "running F s False ?r1"
    using running_endpoints[OF run, of "pi_src_addr ?i" None] init_of_bytes_lengths[OF assms(4)] by simp
  have eq: "run_init F (Some b) s ?r = establish_self F s ?r1"
    using assms(5) by (auto simp: run_init_def Let_def)
  have key: "port_key (rl_sess ?r1 s) = (m, k, p)"
    using assms(5-7) by (auto simp: port_key_def directory_port_kind_def)
  have id: "get_identifier F (rl_sess ?r1 s) = n"
    using assms(5-7) by (auto simp: get_identifier_def)
  have mode: "rs_mode (rl_sess ?r1 s) = ?md" by simp
  have new: "port_key (rl_sess ?r1 s) \<notin> dir_has (rl_dir ?r1)" unfolding key on_relay_simps(5) by (rule assms(8))
  note f = establish_self_registers[OF r1 new, unfolded key id mode on_relay_simps(2,5)]
  have "rs_run (rl_sess (establish_self F s ?r1) t) = Run_await i True"
    if "rs_run (rl_sess ?r t) = Run_await i False" "get_listen_session_name F (pi_dst_addr i) (pi_dport i) = n" for t i
  proof -
    have "t \<noteq> s" using that(1) assms(3) by auto
    then show ?thesis using f(4)[of t i] that by (simp add: listen_name_def)
  qed
  then show ?thesis unfolding eq Let_def using f(1-3) by (simp add: reg_find_def)
qed

theorem opened_port_registered_witness:
  "let r = run_init std_fmt (Some (ex_block 0 [1, 2, 3, 4, 5, 6] 8 [0, 0, 0, 0, 0, 0] 0)) 1 (rv_relay ex_relay)
   in reg_find (get_pdp_session_name std_fmt [1, 2, 3, 4, 5, 6] 8) r = Some 1
    \<and> dir_has (rl_dir r) = {([1, 2, 3, 4, 5, 6], Pdp, 7), ([1, 2, 3, 4, 5, 6], Pdp, 8)}"
proof -
  have s: "1 < rl_next (rv_relay ex_relay)" "rs_run (rl_sess (rv_relay ex_relay) 1) = Run_init"
    by (simp_all add: ex_relay_eq)
  have has: "dir_has (rl_dir (rv_relay ex_relay)) = {([1, 2, 3, 4, 5, 6], Pdp, 7)}"
    by (auto simp: ex_relay_eq dir_has_def in_ports_of split: if_splits)
  show ?thesis
    using opened_port_registered[OF ex_relay_reachable(2) s, of "ex_block 0 [1, 2, 3, 4, 5, 6] 8 [0, 0, 0, 0, 0, 0] 0" Pdp
      "get_pdp_session_name std_fmt [1, 2, 3, 4, 5, 6] 8" "[1, 2, 3, 4, 5, 6]" 8] has
    by (auto simp: Let_def)
qed

text \<open>
  C24: Accepting a connection when the port is not in the directory: the accept session is registered
  under its name and both sessions are established; the waiting connect session is woken; each is sent,
  as the next thing in its queue, the MAC address and port of the other.
\<close>

theorem accept_bonds_sessions:
  assumes "relay_reachable F v" "s < rl_next (rv_relay v)" "rs_run (rl_sess (rv_relay v) s) = Run_init" "length b = 24"
    and "i = init_of_bytes b" "pi_type i = 3"
    and "reg_find (get_connect_session_name F (pi_dst_addr i) (pi_dport i) (pi_src_addr i) (pi_sport i)) (rv_relay v) = Some c"
      "\<not> rs_established (rl_sess (rv_relay v) c)" "rs_run (rl_sess (rv_relay v) c) = Run_bond False"
    and "(take 6 (pi_src_addr i), Ptp, pi_sport i) \<notin> dir_has (rl_dir (rv_relay v))"
  shows "let r = run_init F (Some b) s (rv_relay v); x = rl_sess (rv_relay v) c in
    reg_find (get_accept_session_name F (take 6 (pi_src_addr i)) (pi_sport i) (take 6 (pi_dst_addr i)) (pi_dport i)) r = Some s
    \<and> rs_established (rl_sess r s) \<and> rs_established (rl_sess r c)
    \<and> rs_run (rl_sess r s) = Run_header \<and> rs_run (rl_sess r c) = Run_bond True
    \<and> rs_write_queue (rl_sess r s) = [ptp_connect_bytes (to_str (rs_from_mac x)) (rs_from_port x)]
    \<and> rs_write_queue (rl_sess r c)
        = rs_write_queue x @ [ptp_connect_bytes (to_str (take 6 (pi_src_addr i))) (pi_sport i)]"
proof -
  let ?r = "rv_relay v"
  let ?r1 = "on_relay s (\<lambda>x. set_endpoints (pi_src_addr i) (pi_sport i) (Some (pi_dst_addr i)) (pi_dport i)
    (x\<lparr>rs_mode := PTP_ACCEPT\<rparr>)) ?r"
  note inv = relay_reachable_inv[OF assms(1)]
  have run: "running F s False ?r" using running_early[OF inv assms(2)] assms(3) by simp
  have len: "length (pi_src_addr i) = 8" "length (pi_dst_addr i) = 8"
    using init_of_bytes_lengths[OF assms(4)] assms(5) by simp_all
  have r1: "running F s False ?r1" using running_endpoints[OF run len(1), of "Some (pi_dst_addr i)"] len by simp
  have eq: "run_init F (Some b) s ?r = establish_accept F i s ?r1" using assms(5,6) by (simp add: run_init_def Let_def)
  have cs: "c \<noteq> s" using assms(3,9) by auto
  have open_c: "\<not> rs_closed (rl_sess ?r c)" using relay_invD(1)[OF inv, of c] assms(9) by (simp add: rs_wf_def)
  have c: "reg_find (get_connect_session_name F (pi_dst_addr i) (pi_dport i) (pi_src_addr i) (pi_sport i)) ?r1 = Some c"
    "\<not> rs_established (rl_sess ?r1 c)" "rl_sess ?r1 c = rl_sess ?r c"
    using assms(7,8) cs by (simp_all add: reg_find_def)
  have new: "port_key (rl_sess ?r1 s) \<notin> dir_has (rl_dir ?r1)"
    using assms(10) by (simp add: port_key_def directory_port_kind_def)
  have mode: "rs_mode (rl_sess ?r1 s) = PTP_ACCEPT" by simp
  have id: "get_identifier F (rl_sess ?r1 s)
      = get_accept_session_name F (take 6 (pi_src_addr i)) (pi_sport i) (take 6 (pi_dst_addr i)) (pi_dport i)"
    "rs_from_mac (rl_sess ?r1 s) = take 6 (pi_src_addr i)" "rs_from_port (rl_sess ?r1 s) = pi_sport i"
    by (simp_all add: get_identifier_def)
  note f = establish_accept_bonds[OF r1 mode c(1,2) new, unfolded c(3) id]
  show ?thesis unfolding eq Let_def using f(1-4,6) f(5)[OF assms(9)] f(7)[OF open_c] by simp
qed

theorem accept_bonds_sessions_witness:
  "let r = run_init std_fmt (Some (ex_block 3 [1, 2, 3, 4, 5, 6] 5 [6, 5, 4, 3, 2, 1] 9)) 2 (rv_relay ex_gone)
   in rs_established (rl_sess r 1) \<and> rs_run (rl_sess r 1) = Run_bond True \<and> rs_run (rl_sess r 2) = Run_header
    \<and> rs_write_queue (rl_sess r 2) = [[6, 5, 4, 3, 2, 1, 0, 0, 9, 0]]
    \<and> rs_write_queue (rl_sess r 1) = [[1, 2, 3, 4, 5, 6, 0, 0, 5, 0]]"
proof -
  let ?b = "ex_block 3 [1, 2, 3, 4, 5, 6] 5 [6, 5, 4, 3, 2, 1] 9"
  let ?i = "\<lparr>pi_type = 3, pi_src_addr = [1, 2, 3, 4, 5, 6, 0, 0], pi_sport = 5, pi_dst_addr = [6, 5, 4, 3, 2, 1, 0, 0], pi_dport = 9\<rparr>"
  have b: "length ?b = 24" "?i = init_of_bytes ?b" by simp_all
  have find: "reg_find (get_connect_session_name std_fmt (pi_dst_addr ?i) (pi_dport ?i) (pi_src_addr ?i) (pi_sport ?i))
      (rv_relay ex_gone) = Some 1"
    by (simp add: reg_find_def ex_gone_fields ex_connect_name_def)
  have has: "(take 6 (pi_src_addr ?i), Ptp, pi_sport ?i) \<notin> dir_has (rl_dir (rv_relay ex_gone))"
    by (auto simp: ex_gone_fields dir_has_def split: if_splits)
  have s: "2 < rl_next (rv_relay ex_gone)" "pi_type ?i = 3" "\<not> rs_established (rl_sess (rv_relay ex_gone) 1)"
    "rs_run (rl_sess (rv_relay ex_gone) 1) = Run_bond False"
    by (simp_all add: ex_gone_fields ex_connecting_fields ex_connecting_sessions del: One_nat_def)
  have le: "le16 5 = [5, 0]" "le16 9 = [9, 0]" by (simp_all add: le16_def)
  from accept_bonds_sessions[OF ex_gone_reachable s(1) ex_gone_fields(5) b s(2) find s(3,4) has]
  show ?thesis by (simp add: ex_gone_fields(4) ex_connecting_sessions ptp_connect_bytes_def to_str_def le Let_def del: One_nat_def)
qed

section \<open>Forwarding\<close>

text \<open>
  C25: Forwarding.  The payload of a PDP block is queued for exactly the session registered under the
  target that the block's header gave (the name the await for the payload keeps), unless that session is
  closed, after a header with the sender's MAC address and port
  and the size; the payload of a PTP block is queued for exactly the session's peer, after its size.
  Nobody else's queue changes.
\<close>

theorem block_forwarded:
  assumes "relay_reachable F v" "r = rv_relay v" "s < rl_next r"
    and "rs_run (rl_sess r s) = Run_payload n sz \<and> block = pdp_bytes \<lparr>pp_addr = to_str (rs_from_mac (rl_sess r s)),
          pp_port = rs_from_port (rl_sess r s), pp_size = sz\<rparr> @ payload
      \<or> rs_run (rl_sess r s) = Run_data sz \<and> n = get_peer_identifier F (rl_sess r s) \<and> block = le32 sz @ payload"
  shows "rs_write_queue (rl_sess (run_payload F (Some payload) s r) t)
    = rs_write_queue (rl_sess r t) @ (if reg_find n r = Some t \<and> \<not> rs_closed (rl_sess r t) then [block] else [])"
proof -
  have "rs_run (rl_sess r s) \<noteq> Run_done" using assms(4) by auto
  then have run: "running F s (rs_registered (rl_sess r s)) r"
    using runningI[OF relay_reachable_inv[OF assms(1)]] assms(2,3) by simp
  show ?thesis
    using assms(4) deliver_pdp_queue[OF run, of n sz payload t] deliver_ptp_queue[OF run, of sz payload t]
    by (auto simp: run_payload_def)
qed

definition ex_pdp_header :: bytes where
  "ex_pdp_header = pdp_bytes \<lparr>pp_addr = [1, 2, 3, 4, 5, 6, 0, 0], pp_port = 7, pp_size = 2\<rparr>"

lemma pdp_roundtrip:
  "length (pp_addr h) = 8 \<Longrightarrow> pdp_of_bytes (pdp_bytes h) = h \<and> length (pdp_bytes h) = 14"
  by (simp add: pdp_of_bytes_def pdp_bytes_def)

theorem block_forwarded_witness:
  "let r = rv_relay (relay_perform std_fmt (Run_got_header 0 (Some ex_pdp_header)) ex_relay)
   in rs_write_queue (rl_sess (run_payload std_fmt (Some [8, 9]) 0 r) 0) = [ex_pdp_header @ [8, 9]]"
proof -
  let ?v = "relay_perform std_fmt (Run_got_header 0 (Some ex_pdp_header)) ex_relay"
  have h: "pdp_of_bytes ex_pdp_header = \<lparr>pp_addr = [1, 2, 3, 4, 5, 6, 0, 0], pp_port = 7, pp_size = 2\<rparr>"
    "length ex_pdp_header = 14"
    unfolding ex_pdp_header_def by (simp_all add: pdp_roundtrip)
  have mode: "rs_mode ex_pdp_session = PDP" "rs_run ex_pdp_session = Run_header"
    by (simp_all add: ex_pdp_session_def new_relay_session_def)
  have "relay_enabled (Run_got_header 0 (Some ex_pdp_header)) ex_relay"
    by (simp add: relay_enabled_def ex_relay_eq mode h header_size_def)
  from relay_reachable.step[OF ex_relay_reachable(2) this] have r: "relay_reachable std_fmt ?v" .
  have name: "get_pdp_session_name F [1, 2, 3, 4, 5, 6, 0, 0] 7 = get_pdp_session_name F [1, 2, 3, 4, 5, 6] 7" for F
    by (simp add: session_name_defs mac_text_def)
  have st: "rl_sess (rv_relay ?v) 0 = ex_pdp_session\<lparr>rs_run := Run_payload (get_pdp_session_name std_fmt [1, 2, 3, 4, 5, 6] 7) 2\<rparr>"
    "rl_next (rv_relay ?v) = 2" "rl_names (rv_relay ?v) = [(get_pdp_session_name std_fmt [1, 2, 3, 4, 5, 6] 7, 0)]"
    by (simp_all add: relay_perform_def relay_step_def run_header_def ex_relay_eq mode h Let_def on_relay_def name)
  have hdr: "pdp_bytes \<lparr>pp_addr = to_str (rs_from_mac ex_pdp_session), pp_port = rs_from_port ex_pdp_session, pp_size = 2\<rparr>
      = ex_pdp_header" "rs_write_queue ex_pdp_session = []" "\<not> rs_closed ex_pdp_session"
    by (simp_all add: ex_pdp_header_def ex_pdp_session_def to_str_def new_relay_session_def)
  show ?thesis
    unfolding Let_def
    by (subst block_forwarded[OF r refl, of 0 "get_pdp_session_name std_fmt [1, 2, 3, 4, 5, 6] 7" 2 "ex_pdp_header @ [8, 9]" "[8, 9]"])
      (simp_all add: st reg_find_def hdr)
qed

text \<open>
  A block header that announces more than twice the protocol's block size (20480 bytes for PDP,
  102400 for PTP) ends the session; nothing is queued for anybody.
\<close>

lemma oversized_block_ends_session:
  assumes "relay_reachable F v" "r = rv_relay v" "s < rl_next r" "rs_run (rl_sess r s) = Run_header"
    and "if rs_mode (rl_sess r s) = PDP then 20480 < unat (pp_size (pdp_of_bytes b)) else 102400 < unat (of_le32 b)"
  shows "rs_finished (rl_sess (run_header F (Some b) s r) s) \<and> rl_active (run_header F (Some b) s r) = rl_active r - 1
    \<and> rs_write_queue (rl_sess (run_header F (Some b) s r) t) = rs_write_queue (rl_sess r t)"
proof -
  have run: "running F s (rs_registered (rl_sess r s)) r"
    using runningI[OF relay_reachable_inv[OF assms(1)]] assms(2-4) by simp
  have "run_header F (Some b) s r = run_end F s r" using assms(5) by (auto simp: run_header_def Let_def split: if_splits)
  then show ?thesis using run_end_frame[OF run] by simp
qed

text \<open>
  C26: The end of a session, any that has not finished yet.  It is finished and closed and off the count;
  the one name that led to it, if it is registered and no later session took that name, is out of the map
  and every other name stays; its port, if it is registered, is out of the directory; and its peer, if it
  has one in the map and its own name was not taken over, is closed.  No other session is touched, so the
  peer of a superseded session, or of one that never registered, stays as it is.
\<close>

theorem session_end_releases:
  assumes "relay_reachable F v" "r = rv_relay v" "s < rl_next r" "x = rl_sess r s" "\<not> rs_finished x"
  shows "rs_finished (rl_sess (run_end F s r) s) \<and> rs_closed (rl_sess (run_end F s r) s)
    \<and> Suc (rl_active (run_end F s r)) = rl_active r
    \<and> (reg_find n r = Some s \<longleftrightarrow> rs_registered x \<and> \<not> rs_superseded x \<and> n = get_identifier F x)
    \<and> reg_find n (run_end F s r) = (if reg_find n r = Some s then None else reg_find n r)
    \<and> dir_has (rl_dir (run_end F s r)) = dir_has (rl_dir r) - (if rs_registered x then {port_key x} else {})
    \<and> (t \<noteq> s \<longrightarrow> rl_sess (run_end F s r) t =
        (if rs_registered x \<and> \<not> rs_superseded x \<and> get_peer_identifier F x \<noteq> []
            \<and> reg_find (get_peer_identifier F x) r = Some t
         then relay_close (rl_sess r t) else rl_sess r t))"
proof -
  note i = relay_reachable_inv[OF assms(1), folded assms(2)]
  have run: "running F s (rs_registered x) r"
    using assms(3-5) relay_inv_busy[OF i] by (simp add: running_def)
  have id: "rs_registered x \<Longrightarrow> rs_identifier x = get_identifier F x"
    using relay_invD(1)[OF i, of s] assms(4) by (simp add: rs_wf_def)
  have "current r s \<longleftrightarrow> rs_registered x \<and> \<not> rs_superseded x"
    using assms(3-5) by (auto simp: current_def active_def)
  then have own: "reg_find n r = Some s \<longleftrightarrow> rs_registered x \<and> \<not> rs_superseded x \<and> n = get_identifier F x" for n
    using relay_invD(3)[OF i] id assms(4) by (auto simp: names_ok_def reg_find_def)
  have "0 < rl_active r" using active_count[OF i assms(3)] assms(4,5) by simp
  moreover have "rl_sess (run_end F s r) t = (if rs_registered x \<and> \<not> rs_superseded x \<and> get_peer_identifier F x \<noteq> []
      \<and> reg_find (get_peer_identifier F x) r = Some t then relay_close (rl_sess r t) else rl_sess r t)" if "t \<noteq> s"
    using that ended_inv(3)[OF run, of "get_peer_identifier F x"] assms(4)
    unfolding run_end_eq[OF run] by (auto simp: Let_def reg_find_def ended_fields split: option.splits)
  ultimately show ?thesis
    using own run_end_frame(2,6,7)[OF run] run_end_names[OF run, of n] run_end_dir_any[OF run] assms(4) by simp
qed

theorem session_end_releases_witness:
  "dir_has (rl_dir (run_end std_fmt 0 (rv_relay ex_relay))) = {} \<and> rl_active (run_end std_fmt 0 (rv_relay ex_relay)) = 1
    \<and> reg_find (get_pdp_session_name std_fmt [1, 2, 3, 4, 5, 6] 7) (rv_relay ex_relay) = Some 0
    \<and> reg_find (get_pdp_session_name std_fmt [1, 2, 3, 4, 5, 6] 7) (run_end std_fmt 0 (rv_relay ex_relay)) = None
    \<and> rs_finished (rl_sess (run_end std_fmt 1 (rv_relay ex_relay)) 1)
    \<and> rl_sess (run_end std_fmt 1 (rv_relay ex_relay)) 0 = ex_pdp_session"
proof -
  let ?r = "rv_relay ex_relay"
  have f: "\<not> rs_finished (rl_sess ?r 0)" "rs_registered (rl_sess ?r 0)" "\<not> rs_superseded (rl_sess ?r 0)"
    "0 < rl_next ?r" "rl_active ?r = 2" "port_key (rl_sess ?r 0) = ([1, 2, 3, 4, 5, 6], Pdp, 7)"
    "get_identifier std_fmt (rl_sess ?r 0) = get_pdp_session_name std_fmt [1, 2, 3, 4, 5, 6] 7"
    "1 < rl_next ?r" "\<not> rs_finished (rl_sess ?r 1)" "\<not> rs_registered (rl_sess ?r 1)" "rl_sess ?r 0 = ex_pdp_session"
    by (simp_all add: ex_relay_eq ex_pdp_session_def new_relay_session_def port_key_def directory_port_kind_def get_identifier_def)
  have has: "dir_has (rl_dir ?r) = {([1, 2, 3, 4, 5, 6], Pdp, 7)}"
    by (auto simp: ex_relay_eq dir_has_def in_ports_of split: if_splits)
  note zero = session_end_releases[OF ex_relay_reachable(2) refl f(4) refl f(1),
      of "get_pdp_session_name std_fmt [1, 2, 3, 4, 5, 6] 7" 1]
  note one = session_end_releases[OF ex_relay_reachable(2) refl f(8) refl f(9), of "[]" 0]
  have "dir_has (rl_dir (run_end std_fmt 0 ?r)) = {}" "rl_active (run_end std_fmt 0 ?r) = 1"
    "reg_find (get_pdp_session_name std_fmt [1, 2, 3, 4, 5, 6] 7) ?r = Some 0"
    using zero f(2,3,5,6,7) has by simp_all
  moreover have "rs_finished (rl_sess (run_end std_fmt 1 ?r) 1)" "rl_sess (run_end std_fmt 1 ?r) 0 = ex_pdp_session"
    using one f(10,11) by simp_all
  ultimately show ?thesis using zero by simp
qed

end
