(* ===== verification/Relay_Switchboard.thy ===== *)
theory Relay_Switchboard
  imports Relay_Frame Relay_Example
begin

text \<open>
  What the relay promises, without coroutines and queues: a switchboard with the sessions names lead to,
  the open ports and the number of sessions.  Each step of a session leaves it alone, opens a port under
  a name, is refused one, or leaves the switchboard.
\<close>

section \<open>The switchboard\<close>

type_synonym port = "bytes \<times> port_kind \<times> u16"

record switchboard =
  sb_names :: "bytes \<Rightarrow> rid option"
  sb_ports :: "port set"
  sb_count :: nat

definition switchboard_of :: "relay \<Rightarrow> switchboard" where
  "switchboard_of r = \<lparr>sb_names = map_of (rl_names r), sb_ports = dir_has (rl_dir r), sb_count = rl_active r\<rparr>"

datatype outcome = Stays | Opens bytes port | Refused bytes port | Leaves "port option"

fun sb_apply :: "rid \<Rightarrow> outcome \<Rightarrow> switchboard \<Rightarrow> switchboard" where
  "sb_apply s Stays b = b"
| "sb_apply s (Opens n e) b = b\<lparr>sb_names := (sb_names b)(n \<mapsto> s), sb_ports := insert e (sb_ports b)\<rparr>"
| "sb_apply s (Refused n e) b = b\<lparr>sb_names := (sb_names b)(n := None), sb_ports := sb_ports b - {e}, sb_count := sb_count b - 1\<rparr>"
| "sb_apply s (Leaves e) b = b\<lparr>sb_names := (\<lambda>n. if sb_names b n = Some s then None else sb_names b n),
     sb_ports := sb_ports b - set_option e, sb_count := sb_count b - 1\<rparr>"

text \<open>When a step of a session that was \<open>x\<close> and is \<open>y\<close> has which outcome, \<open>ports\<close> being open before.\<close>

fun fits :: "fmt_api \<Rightarrow> outcome \<Rightarrow> relay_session \<Rightarrow> relay_session \<Rightarrow> port set \<Rightarrow> bool" where
  "fits F Stays x y ports \<longleftrightarrow> rs_registered y = rs_registered x \<and> rs_finished y = rs_finished x"
| "fits F (Opens n e) x y ports \<longleftrightarrow> \<not> rs_registered x \<and> rs_registered y \<and> \<not> rs_finished y
     \<and> n = get_identifier F y \<and> e = port_key y \<and> e \<notin> ports"
| "fits F (Refused n e) x y ports \<longleftrightarrow> \<not> rs_registered x \<and> \<not> rs_finished x \<and> rs_registered y \<and> rs_finished y
     \<and> n = get_identifier F y \<and> e = port_key y \<and> e \<in> ports"
| "fits F (Leaves e) x y ports \<longleftrightarrow> rs_registered y = rs_registered x \<and> \<not> rs_finished x \<and> rs_finished y
     \<and> e = (if rs_registered x then Some (port_key x) else None)"

definition moves :: "fmt_api \<Rightarrow> rid \<Rightarrow> relay \<Rightarrow> relay \<Rightarrow> bool" where
  "moves F s r v \<longleftrightarrow> (\<exists>c. switchboard_of v = sb_apply s c (switchboard_of r)
     \<and> fits F c (rl_sess r s) (rl_sess v s) (sb_ports (switchboard_of r)))"

text \<open>Two states that show the same switchboard, and a session that looks the same in both.\<close>

definition alike :: "fmt_api \<Rightarrow> rid \<Rightarrow> relay \<Rightarrow> relay \<Rightarrow> bool" where
  "alike F s u v \<longleftrightarrow> switchboard_of v = switchboard_of u
     \<and> rs_registered (rl_sess v s) = rs_registered (rl_sess u s) \<and> rs_finished (rl_sess v s) = rs_finished (rl_sess u s)
     \<and> port_key (rl_sess v s) = port_key (rl_sess u s) \<and> get_identifier F (rl_sess v s) = get_identifier F (rl_sess u s)"

lemma moves_stay: "alike F s r v \<Longrightarrow> moves F s r v"
  unfolding moves_def by (intro exI[of _ Stays]) (simp add: alike_def)

text \<open>Before and after a step that shows, what does not show is free.\<close>

lemma fits_after:
  "fits F c x y P \<Longrightarrow> rs_registered y' = rs_registered y \<Longrightarrow> rs_finished y' = rs_finished y \<Longrightarrow>
   port_key y' = port_key y \<Longrightarrow> get_identifier F y' = get_identifier F y \<Longrightarrow> fits F c x y' P"
  by (cases c) simp_all

lemma fits_before:
  "fits F c x y P \<Longrightarrow> rs_registered x' = rs_registered x \<Longrightarrow> rs_finished x' = rs_finished x \<Longrightarrow>
   (rs_registered x \<Longrightarrow> port_key x' = port_key x) \<Longrightarrow> fits F c x' y P"
  by (cases c) simp_all

lemma moves_then:
  assumes "moves F s r u" "alike F s u v"
  shows "moves F s r v"
proof -
  obtain c where "switchboard_of u = sb_apply s c (switchboard_of r)"
    "fits F c (rl_sess r s) (rl_sess u s) (sb_ports (switchboard_of r))" using assms(1) by (auto simp: moves_def)
  then show ?thesis
    using assms(2) fits_after unfolding moves_def alike_def by (intro exI[of _ c]) simp
qed

lemma moves_after:
  assumes "moves F s u v" "switchboard_of u = switchboard_of r"
    "rs_registered (rl_sess u s) = rs_registered (rl_sess r s)" "rs_finished (rl_sess u s) = rs_finished (rl_sess r s)"
    "rs_registered (rl_sess u s) \<Longrightarrow> port_key (rl_sess u s) = port_key (rl_sess r s)"
  shows "moves F s r v"
proof -
  obtain c where "switchboard_of v = sb_apply s c (switchboard_of u)"
    "fits F c (rl_sess u s) (rl_sess v s) (sb_ports (switchboard_of u))" using assms(1) by (auto simp: moves_def)
  moreover from fits_before[OF this(2), of "rl_sess r s"] assms
  have "fits F c (rl_sess r s) (rl_sess v s) (sb_ports (switchboard_of u))" by simp
  ultimately show ?thesis using assms(2) unfolding moves_def by (intro exI[of _ c]) simp
qed

lemma moves_alike: "alike F s r u \<Longrightarrow> moves F s u v \<Longrightarrow> moves F s r v"
  by (erule moves_after) (simp_all add: alike_def)

lemma alike_refl: "alike F s r r"
  by (simp add: alike_def)

lemma alike_trans: "alike F s r u \<Longrightarrow> alike F s u v \<Longrightarrow> alike F s r v"
  by (simp add: alike_def)

text \<open>The operations on sessions do not show.\<close>

definition discreet :: "(relay_session \<Rightarrow> relay_session) \<Rightarrow> bool" where
  "discreet f \<longleftrightarrow> (\<forall>x. rs_mode (f x) = rs_mode x \<and> rs_from_mac (f x) = rs_from_mac x \<and> rs_from_port (f x) = rs_from_port x
     \<and> rs_to_mac (f x) = rs_to_mac x \<and> rs_to_port (f x) = rs_to_port x \<and> rs_registered (f x) = rs_registered x
     \<and> rs_finished (f x) = rs_finished x)"

lemma alike_on_relay: "discreet f \<Longrightarrow> alike F s r (on_relay t f r)"
  unfolding alike_def switchboard_of_def
  by (cases "s = t") (simp_all add: discreet_def port_key_def directory_port_kind_def get_identifier_def split: session_mode.split)

lemma discreet_ops [simp]:
  "discreet (queue_send b)" "discreet relay_close" "discreet bond" "discreet relay_writer_loop"
  "discreet (\<lambda>x. x\<lparr>rs_run := pc\<rparr>)" "discreet (\<lambda>x. x\<lparr>rs_run := pcs x\<rparr>)" "discreet (\<lambda>x. x\<lparr>rs_expiry := n\<rparr>)"
  "discreet (\<lambda>x. x\<lparr>rs_established := c\<rparr>)"
  by (simp_all add: discreet_def)

lemma discreet_written [simp]: "discreet (relay_writer_written ec)"
  by (simp add: discreet_def relay_writer_written_def relay_writer_finish_def)

lemma alike_expires: "alike F s r (expires_after t ms r)"
  unfolding expires_after_def by (rule alike_on_relay) simp

lemma alike_maps: "alike F s r (remove_waiter n t r)" "alike F s r (add_waiter n t r)"
  by (simp_all add: alike_def switchboard_of_def add_waiter_def)

section \<open>The end of a session, and registering\<close>

lemma run_end_own:
  assumes "running F s b r"
  shows "rs_registered (rl_sess (run_end F s r) s) = b" "port_key (rl_sess (run_end F s r) s) = port_key (rl_sess r s)"
    "get_identifier F (rl_sess (run_end F s r) s) = get_identifier F (rl_sess r s)"
proof -
  let ?e = "ended s r"
  have id: "get_identifier F (rl_sess ?e s) = get_identifier F (rl_sess r s)"
    by (rule get_identifier_frame) (simp_all add: ended_fields)
  have e: "rs_registered (rl_sess ?e s) = rs_registered (rl_sess r s)" "port_key (rl_sess ?e s) = port_key (rl_sess r s)"
    by (simp_all add: ended_fields port_key_def directory_port_kind_def)
  have "alike F s ?e (run_end F s r)"
    using run_end_ended[OF assms] by cases (simp_all add: alike_refl alike_on_relay)
  then show "rs_registered (rl_sess (run_end F s r) s) = b" "port_key (rl_sess (run_end F s r) s) = port_key (rl_sess r s)"
    "get_identifier F (rl_sess (run_end F s r) s) = get_identifier F (rl_sess r s)"
    using e id runningD(4)[OF assms] by (simp_all add: alike_def)
qed

lemma run_end_board:
  assumes "running F s b r"
  shows "switchboard_of (run_end F s r)
    = sb_apply s (Leaves (if b then Some (port_key (rl_sess r s)) else None)) (switchboard_of r)"
  using run_end_names[OF assms] run_end_dir_any[OF assms] run_end_frame(6)[OF assms]
  by (auto simp: switchboard_of_def reg_find_def fun_eq_iff)

lemma moves_run_end:
  assumes "running F s b r"
  shows "moves F s r (run_end F s r)"
  unfolding moves_def
  using run_end_board[OF assms] run_end_frame(2)[OF assms] run_end_own(1)[OF assms] runningD(3,4)[OF assms]
  by (intro exI[of _ "Leaves (if b then Some (port_key (rl_sess r s)) else None)"]) simp

lemma moves_forward:
  assumes "running F s b r"
  shows "moves F s r (forward_head F s r)"
  using moves_run_end[OF assms] moves_stay[OF alike_on_relay]
  by (simp add: forward_head_def Let_def)

lemma register_board:
  assumes r: "running F s False r" and reg: "register_self F s r = (ok, v)"
  shows "switchboard_of v = sb_apply s (Opens (get_identifier F (rl_sess r s)) (port_key (rl_sess r s))) (switchboard_of r)"
    "get_identifier F (rl_sess v s) = get_identifier F (rl_sess r s)" "port_key (rl_sess v s) = port_key (rl_sess r s)"
proof -
  have "rl_active (reg_add n s u) = rl_active u" for n u
    by (auto simp: reg_add_def Let_def fold_on_relay split: option.split)
  then have "rl_active v = rl_active r"
    using reg by (auto simp: register_self_def Let_def split: prod.splits)
  then show "switchboard_of v = sb_apply s (Opens (get_identifier F (rl_sess r s)) (port_key (rl_sess r s))) (switchboard_of r)"
    using register_self_fields(1)[OF reg] register_self_dir[OF r reg] by (simp add: switchboard_of_def)
  show "get_identifier F (rl_sess v s) = get_identifier F (rl_sess r s)"
    using register_self_fields(2)[OF reg] by (simp add: get_identifier_def split: session_mode.split)
  show "port_key (rl_sess v s) = port_key (rl_sess r s)" by (rule register_self_sess_frame(2)[OF reg])
qed

text \<open>A registration the directory accepts opens the port; one it refuses ends the session and loses the entry.\<close>

lemma moves_register:
  assumes r: "running F s False r" and reg: "register_self F s r = (True, v)"
  shows "moves F s r v"
proof -
  note v = register_self_running[OF r reg]
  show ?thesis
    unfolding moves_def
    using register_board[OF r reg] v(2) runningD(4)[OF r] runningD(3,4)[OF v(1)]
    by (intro exI[of _ "Opens (get_identifier F (rl_sess r s)) (port_key (rl_sess r s))"]) (simp add: switchboard_of_def)
qed

lemma moves_refused:
  assumes r: "running F s False r" and reg: "register_self F s r = (False, v)"
  shows "moves F s r (run_end F s v)"
proof -
  note v = register_self_running[OF r reg] and b = register_board[OF r reg]
  let ?n = "get_identifier F (rl_sess r s)" and ?e = "port_key (rl_sess r s)"
  have "map_of (rl_names r) m \<noteq> Some s" for m
    using found_current[OF runningD(1)[OF r], of m s] runningD(4)[OF r] by (auto simp: reg_find_def current_def)
  then have "switchboard_of (run_end F s v) = sb_apply s (Refused ?n ?e) (switchboard_of r)"
    unfolding run_end_board[OF v(1)] b by (auto simp: switchboard_of_def fun_eq_iff)
  moreover have "fits F (Refused ?n ?e) (rl_sess r s) (rl_sess (run_end F s v) s) (sb_ports (switchboard_of r))"
    using run_end_own[OF v(1)] run_end_frame(2)[OF v(1)] b(2,3) v(2) runningD(3,4)[OF r] by (simp add: switchboard_of_def)
  ultimately show ?thesis unfolding moves_def by blast
qed

section \<open>Establishing a session\<close>

lemma moves_establish_self:
  assumes r: "running F s False r"
  shows "moves F s r (establish_self F s r)"
proof -
  obtain ok v where reg: "register_self F s r = (ok, v)" by (metis surj_pair)
  show ?thesis
  proof (cases ok)
    case True
    then have reg: "register_self F s r = (True, v)" using reg by simp
    have "\<not> rs_closed (rl_sess v s)"
      using register_self_sess(1)[OF reg r] relay_invD(7)[OF runningD(1)[OF r], of s] runningD(3,4)[OF r] by (simp add: calm_def)
    then have "alike F s v (forward_head F s v)" using forward_head_open[of v s F] alike_on_relay by simp
    then show ?thesis using moves_then[OF moves_register[OF r reg]] reg by (simp add: establish_self_def)
  next
    case False
    then show ?thesis using moves_refused[OF r] reg by (simp add: establish_self_def)
  qed
qed

text \<open>A session that just registered has an empty queue, which a block of ten bytes does not fill.\<close>

lemma accept_open:
  assumes r: "running F s False r" and reg: "register_self F s (on_relay s (\<lambda>x. x\<lparr>rs_established := True\<rparr>) r) = (ok, v)"
    and b: "length b \<le> 10"
  shows "\<not> rs_closed (queue_send b (rl_sess v s))"
proof -
  note r1 = running_established[OF r, of True]
  note v = register_self_running(1)[OF r1 reg]
  have calm: "\<not> rs_closed (rl_sess r s) \<and> rs_write_queue (rl_sess r s) = []"
    using relay_invD(7)[OF runningD(1)[OF r], of s] runningD(3,4)[OF r] by (simp add: calm_def)
  then have "\<not> rs_closed (rl_sess v s)" "rs_write_queue (rl_sess v s) = []"
    using register_self_sess(1)[OF reg r1] register_self_sess_frame(5)[OF reg, of s] by simp_all
  then show ?thesis
    using relay_invD(1)[OF runningD(1)[OF v], of s] b by (simp add: rs_wf_def queue_send_fields)
qed

lemma moves_established:
  assumes r: "running F s False r" and m: "moves F s (on_relay s (\<lambda>x. x\<lparr>rs_established := c\<rparr>) r) v"
  shows "moves F s r v"
  by (rule moves_alike[OF alike_on_relay m]) simp

lemma moves_connect:
  assumes r: "running F s False r"
  shows "moves F s r (connect_to F s l r)"
proof -
  note r1 = running_established[OF r, of False]
  obtain ok v where reg: "register_self F s (on_relay s (\<lambda>x. x\<lparr>rs_established := False\<rparr>) r) = (ok, v)" by (metis surj_pair)
  show ?thesis
  proof (cases ok)
    case True
    then have "moves F s (on_relay s (\<lambda>x. x\<lparr>rs_established := False\<rparr>) r) v" using moves_register[OF r1] reg by simp
    from moves_established[OF r this] show ?thesis
      using True by (simp add: connect_to_def reg Let_def)
        (erule moves_then, intro alike_trans[OF _ alike_on_relay] alike_trans[OF _ alike_expires] alike_on_relay; simp)
  next
    case False
    then show ?thesis
      using moves_established[OF r moves_refused[OF r1]] reg by (simp add: connect_to_def)
  qed
qed

lemma moves_establish_connect:
  assumes r: "running F s False r"
  shows "moves F s r (establish_connect F i s r)"
proof -
  have "moves F s r (on_relay s (\<lambda>x. x\<lparr>rs_run := Run_await i False\<rparr>) (add_waiter n s (expires_after s ms r)))" for n ms
    by (rule moves_stay, rule alike_trans[OF alike_trans[OF alike_expires alike_maps(2)] alike_on_relay]) simp
  then show ?thesis
    using moves_run_end[OF r] moves_connect[OF r]
    by (simp add: establish_connect_def await_session_def Let_def split: option.split)
qed

text \<open>The two blocks of the bonding do not fill the queue, so the session is not closed by its own.\<close>

lemma moves_establish_accept:
  assumes r: "running F s False r"
  shows "moves F s r (establish_accept F i s r)"
proof -
  let ?r = "on_relay s (\<lambda>x. x\<lparr>rs_established := True\<rparr>) r"
  note r1 = running_established[OF r, of True]
  obtain ok v where reg: "register_self F s ?r = (ok, v)" by (metis surj_pair)
  have accepted: "moves F s r (forward_head F s (on_relay c bond (on_relay s (queue_send b) (on_relay c (queue_send b') v))))"
    if "ok" "length b \<le> 10" "c \<noteq> s" for c b b'
  proof -
    let ?v = "on_relay c bond (on_relay s (queue_send b) (on_relay c (queue_send b') v))"
    have "moves F s r v" using moves_established[OF r moves_register[OF r1]] reg that(1) by simp
    moreover have "alike F s v ?v" by (intro alike_trans[OF _ alike_on_relay] alike_on_relay) simp_all
    moreover have "\<not> rs_closed (rl_sess ?v s)" using accept_open[OF r reg that(2)] that(3) by simp
    then have "alike F s ?v (forward_head F s ?v)" using forward_head_open[of ?v s F] alike_on_relay by simp
    ultimately show ?thesis using moves_then by blast
  qed
  have other: "c \<noteq> s" if "reg_find n r = Some c" for n c
    using found_current[OF runningD(1)[OF r] that] runningD(4)[OF r] by (auto simp: current_def)
  show ?thesis
    using moves_run_end[OF r] moves_established[OF r moves_refused[OF r1]] accepted other reg ptp_connect_size(1)
    by (cases ok) (auto simp: establish_accept_def Let_def split: option.split)
qed

section \<open>Every step\<close>

text \<open>Only members of a session that is not registered yet are set.\<close>

lemma moves_endpoints:
  assumes r: "running F s False r" and m: "moves F s (on_relay s (\<lambda>x. set_endpoints a p b q (x\<lparr>rs_mode := md\<rparr>)) r) v"
  shows "moves F s r v"
  by (rule moves_after[OF m]) (use runningD(4)[OF r] in \<open>simp_all add: switchboard_of_def\<close>)

lemma moves_init:
  assumes r: "running F s False r" and b: "\<forall>x \<in> set_option b. length x = 24"
  shows "moves F s r (run_init F b s r)"
proof (cases b)
  case (Some x)
  then have m: "length (pi_src_addr (init_of_bytes x)) = 8" "length (pi_dst_addr (init_of_bytes x)) = 8"
    using b init_of_bytes_lengths[of x] by simp_all
  note e = running_endpoints[OF r m(1)]
  have two: "\<forall>m' \<in> set_option (Some (pi_dst_addr (init_of_bytes x))). length m' = 8" using m(2) by simp
  note self = moves_endpoints[OF r moves_establish_self[OF e]]
    and connect = moves_endpoints[OF r moves_establish_connect[OF e[OF two]]]
    and acc = moves_endpoints[OF r moves_establish_accept[OF e[OF two]]]
  show ?thesis by (simp add: run_init_def Some Let_def self connect acc moves_run_end[OF r])
qed (simp add: run_init_def moves_run_end[OF r])

lemma moves_waited:
  assumes r: "running F s False r"
  shows "moves F s r (run_await F i s r)"
  using moves_alike[OF alike_maps(1) moves_run_end[OF running_remove_waiter[OF r]]]
    moves_alike[OF alike_maps(1) moves_connect[OF running_remove_waiter[OF r]]]
  by (simp add: run_await_def await_session_resume_def Let_def split: option.split)

lemma moves_deliver:
  assumes r: "running F s b r"
  shows "moves F s r (deliver_pdp F t sz p s r)" "moves F s r (deliver_ptp F sz p s r)"
proof -
  have "moves F s r (forward_head F s (on_relay d (queue_send x) r))" if "reg_find n r = Some d" for n d x
    by (rule moves_alike[OF alike_on_relay moves_forward[OF running_found[OF r that]]]) simp
  then show "moves F s r (deliver_pdp F t sz p s r)" "moves F s r (deliver_ptp F sz p s r)"
    using moves_forward[OF r] by (simp_all add: deliver_pdp_def deliver_ptp_def Let_def split: option.split)
qed

lemma moves_header:
  assumes r: "running F s b r"
  shows "moves F s r (run_header F h s r)"
proof -
  have "moves F s r (on_relay s (\<lambda>x. x\<lparr>rs_run := pc\<rparr>) r)" for pc by (rule moves_stay, rule alike_on_relay) simp
  then show ?thesis
    using moves_run_end[OF r] moves_deliver[OF r] by (simp add: run_header_def Let_def split: option.split)
qed

lemma moves_step:
  assumes i: "relay_inv F {} (rv_relay v)" and e: "relay_enabled a v" and s: "relay_session_of a = Some s"
  shows "moves F s (rv_relay v) (relay_step F a (rv_relay v))"
proof -
  let ?r = "rv_relay v"
  have run: "running F s (rs_registered (rl_sess ?r s)) ?r" if "s < rl_next ?r" "rs_run (rl_sess ?r s) \<noteq> Run_done"
    using runningI[OF i] that .
  have early: "running F s False ?r" if "s < rl_next ?r" "early (rs_run (rl_sess ?r s))" using running_early[OF i] that .
  have stay: "moves F s ?r (on_relay s f ?r)" if "discreet f" for f using moves_stay alike_on_relay that by blast
  show ?thesis
  proof (cases a)
    case (Run_begin t)
    then show ?thesis using s moves_stay[OF alike_trans[OF alike_expires alike_on_relay]]
      by (simp add: relay_step_def relay_session_of_def read_init_def)
  next
    case (Run_init_timeout t)
    then show ?thesis using s e moves_init[of F s ?r None] early
      by (simp add: relay_step_def relay_session_of_def relay_enabled_def Let_def)
  next
    case (Run_got_init t b)
    then show ?thesis using s e moves_init[of F s ?r b] early
      by (simp add: relay_step_def relay_session_of_def relay_enabled_def Let_def)
  next
    case (Run_waited t)
    then show ?thesis using s e moves_waited early
      by (auto simp: relay_step_def relay_session_of_def relay_enabled_def Let_def run_waited_def split: run_pc.splits)
  next
    case (Run_bonded t)
    then show ?thesis using s e run moves_run_end moves_forward
      by (auto simp: relay_step_def relay_session_of_def relay_enabled_def Let_def run_bond_def split: run_pc.splits)
  next
    case (Run_heard t ec)
    then show ?thesis using s e run moves_run_end moves_forward
      by (auto simp: relay_step_def relay_session_of_def relay_enabled_def Let_def run_listen_def)
  next
    case (Run_got_header t b)
    then show ?thesis using s e run moves_header
      by (auto simp: relay_step_def relay_session_of_def relay_enabled_def Let_def)
  next
    case (Run_got_payload t b)
    then show ?thesis using s e run moves_run_end moves_deliver
      by (auto simp: relay_step_def relay_session_of_def relay_enabled_def Let_def run_payload_def split: run_pc.splits option.splits)
  qed (use s stay in \<open>simp_all add: relay_step_def relay_session_of_def\<close>)
qed

text \<open>The steps that are no session's.\<close>

lemma board_frame:
  assumes "relay_session_of a = None"
  shows "switchboard_of (rv_relay (relay_perform F a v)) = (let b = switchboard_of (rv_relay v) in case a of
     Relay_accept (Racc_socket p) \<Rightarrow> if sb_count b < 5000 then b\<lparr>sb_count := Suc (sb_count b)\<rparr> else b | _ \<Rightarrow> b)"
  using assms by (cases a) (auto simp: relay_session_of_def relay_perform_def run_relay_acceptor_def relay_stop_def relay_step_def
    relay_accept_def inc_active_def switchboard_of_def Let_def split: relay_accepted.split)

section \<open>The property\<close>

text \<open>
  C27: The relay implements a switchboard.  Its abstract state is where names lead, which ports are open
  and how many sessions there are.  In every reachable state each step of a session is one of four moves on
  it, and which one is visible on the session: it stays what it was and the switchboard with it; it
  registered, on a port nobody had open, and its name leads to it; it was refused because the port was
  open, and with it the name and the port are lost to whoever had them; or it ended, and nothing leads to
  it any more and its port is closed.  The acceptor adds one to the count while that is below 5000;
  nothing else moves the switchboard.
\<close>

theorem relay_refines_switchboard:
  assumes "relay_reachable F v" "relay_enabled a v" "w = relay_perform F a v"
    "b = switchboard_of (rv_relay v)" "b' = switchboard_of (rv_relay w)"
  shows "case relay_session_of a of
     Some s \<Rightarrow> \<exists>c. b' = sb_apply s c b \<and> fits F c (rl_sess (rv_relay v) s) (rl_sess (rv_relay w) s) (sb_ports b)
   | None \<Rightarrow> b' = (case a of
       Relay_accept (Racc_socket p) \<Rightarrow> if sb_count b < 5000 then b\<lparr>sb_count := Suc (sb_count b)\<rparr> else b | _ \<Rightarrow> b)"
proof (cases "relay_session_of a")
  case None
  show ?thesis unfolding None option.case assms(3-5) board_frame[OF None] Let_def by (rule refl)
next
  case (Some s)
  then have "rv_relay w = relay_step F a (rv_relay v)"
    using assms(3) by (cases a) (simp_all add: relay_perform_def relay_session_of_def)
  then show ?thesis
    using moves_step[OF relay_reachable_inv[OF assms(1)] assms(2) Some] Some assms(4,5) by (simp add: moves_def)
qed

theorem relay_refines_switchboard_witness:
  "\<exists>c. switchboard_of (rv_relay (relay_perform std_fmt (Run_got_init 1 (Some ex_init_block)) ex_relay))
      = sb_apply 1 c (switchboard_of (rv_relay ex_relay))
    \<and> sb_ports (switchboard_of (rv_relay ex_relay)) = {([1, 2, 3, 4, 5, 6], Pdp, 7)}"
proof -
  let ?a = "Run_got_init 1 (Some ex_init_block)"
  have en: "relay_enabled ?a ex_relay" by (simp add: relay_enabled_def ex_relay_eq ex_init_block)
  have a: "relay_session_of ?a = Some 1" by (simp add: relay_session_of_def)
  have "dir_has [([1, 2, 3, 4, 5, 6], \<lparr>ps_pdp = [7], ps_ptp = []\<rparr>)] = {([1, 2, 3, 4, 5, 6], Pdp, 7)}"
    by (auto simp: dir_has_def in_ports_of split: if_splits)
  then have "sb_ports (switchboard_of (rv_relay ex_relay)) = {([1, 2, 3, 4, 5, 6], Pdp, 7)}"
    by (simp add: switchboard_of_def ex_relay_eq)
  then show ?thesis
    using relay_refines_switchboard[OF ex_relay_reachable(2) en refl refl refl] a by auto
qed

end
