(* ===== verification/Relay_Liveness.thy ===== *)
theory Relay_Liveness
  imports Relay_Life Relay_Example
begin

text \<open>
  The properties of the relay's sessions in time: who touches whom, and that they end.
\<close>

text \<open>
  C28: Relay sessions are isolated.  Whatever step another session takes, and whatever the acceptor or the
  clock does, a session keeps its mode, endpoints, name, registration and the await it is in; what is
  queued for it stays in front of what the step adds; and it is never reopened.
\<close>

theorem relay_sessions_isolated:
  assumes "relay_enabled a v" "s < rl_next (rv_relay v)" "relay_session_of a \<noteq> Some s"
    "x = rl_sess (rv_relay v) s" "y = rl_sess (rv_relay (relay_perform F a v)) s"
  shows "rs_mode y = rs_mode x \<and> rs_from_mac y = rs_from_mac x \<and> rs_from_port y = rs_from_port x
    \<and> rs_to_mac y = rs_to_mac x \<and> rs_to_port y = rs_to_port x
    \<and> get_identifier F y = get_identifier F x \<and> get_peer_identifier F y = get_peer_identifier F x
    \<and> rs_registered y = rs_registered x \<and> rs_finished y = rs_finished x \<and> awaited (rs_run y) = awaited (rs_run x)
    \<and> (\<exists>bs. rs_write_queue y = rs_write_queue x @ bs \<and> (rs_closed x \<longrightarrow> bs = []))
    \<and> (rs_closed x \<longrightarrow> rs_closed y) \<and> (rs_established x \<longrightarrow> rs_established y)"
proof -
  have t: "touched x y" using bystander[OF assms(2,3)] assms(4,5) by simp
  have "get_identifier F y = get_identifier F x" "get_peer_identifier F y = get_peer_identifier F x"
    using touched_endpoints[OF t] by (simp_all add: get_identifier_def get_peer_identifier_def split: session_mode.split)
  then show ?thesis
    using touched_endpoints[OF t] touched_flags[OF t] touched_pc[OF t] touched_queue[OF t] by simp
qed

theorem relay_sessions_isolated_witness:
  "let y = rl_sess (rv_relay (relay_perform std_fmt (Run_got_init 1 (Some ex_init_block)) ex_relay)) 0
   in get_identifier std_fmt y = get_pdp_session_name std_fmt [1, 2, 3, 4, 5, 6] 7 \<and> rs_registered y
     \<and> awaited (rs_run y) = Run_header"
proof -
  let ?a = "Run_got_init 1 (Some ex_init_block)"
  have en: "relay_enabled ?a ex_relay" "0 < rl_next (rv_relay ex_relay)" "relay_session_of ?a \<noteq> Some 0"
    by (simp_all add: relay_enabled_def ex_relay_eq ex_init_block relay_session_of_def)
  have x: "rl_sess (rv_relay ex_relay) 0 = ex_pdp_session" by (simp add: ex_relay_eq)
  show ?thesis
    using relay_sessions_isolated[OF en refl refl, of std_fmt, unfolded x] unfolding Let_def
    by (simp add: ex_pdp_session_def new_relay_session_def get_identifier_def)
qed

text \<open>A port the directory shows is that of a session that has not finished.\<close>

lemma shown_port_owner:
  assumes "relay_inv F B r" "e \<in> dir_has (rl_dir r)" "rs_finished (rl_sess r s)"
  shows "\<exists>t. t \<noteq> s \<and> t < rl_next r \<and> rs_registered (rl_sess r t) \<and> \<not> rs_finished (rl_sess r t)
    \<and> port_key (rl_sess r t) = e"
proof -
  obtain t where "t \<in> active r" "rs_registered (rl_sess r t)" "port_key (rl_sess r t) = e"
    using relay_invD(5)[OF assms(1)] assms(2) unfolding dir_ok_def by blast
  then have "t \<noteq> s \<and> t < rl_next r \<and> rs_registered (rl_sess r t) \<and> \<not> rs_finished (rl_sess r t)
      \<and> port_key (rl_sess r t) = e" using assms(3) by (cases "t = s") (simp_all add: active_def)
  then show ?thesis by (rule exI)
qed

text \<open>
  C29: A closed relay session ends.  In every reachable state each step of one of its two coroutines,
  however its read, write or timer completes, leaves it fewer than the at most three it had; nobody
  else's step adds one; as long as one is left it can be taken, so none sleeps for ever; and when none is
  left the session is finished and out of the map, and every port the directory still shows is that of
  another session, registered and not finished: its own is free unless one of those has it.
\<close>

theorem closed_relay_session_ends:
  assumes "relay_reachable F v" "s < rl_next (rv_relay v)" "x = rl_sess (rv_relay v) s" "rs_closed x"
  shows "steps_left x \<le> 3
    \<and> (\<forall>a y. relay_enabled a v \<and> y = rl_sess (rv_relay (relay_perform F a v)) s \<longrightarrow> rs_closed y
        \<and> (if relay_session_of a = Some s then steps_left y < steps_left x else steps_left y = steps_left x))
    \<and> (0 < steps_left x \<longrightarrow> (\<exists>a. relay_session_of a = Some s \<and> relay_enabled a v))
    \<and> (steps_left x = 0 \<longrightarrow> rs_finished x \<and> (\<forall>n. reg_find n (rv_relay v) \<noteq> Some s)
        \<and> (\<forall>e. e \<in> dir_has (rl_dir (rv_relay v)) \<longrightarrow> (\<exists>t. t \<noteq> s \<and> t < rl_next (rv_relay v)
            \<and> rs_registered (rl_sess (rv_relay v) t) \<and> \<not> rs_finished (rl_sess (rv_relay v) t)
            \<and> port_key (rl_sess (rv_relay v) t) = e)))"
proof -
  note inv = relay_reachable_inv[OF assms(1)]
  have c: "rs_closed (rl_sess (rv_relay v) s)" using assms(3,4) by simp
  have step: "rs_closed y \<and> (if relay_session_of a = Some s then steps_left y < steps_left x else steps_left y = steps_left x)"
    if "relay_enabled a v" "y = rl_sess (rv_relay (relay_perform F a v)) s" for a y
  proof (cases "relay_session_of a = Some s")
    case True
    then show ?thesis using closed_relay_step[OF inv c True that(1)] that(2) assms(3) by simp
  next
    case False
    note t = bystander[OF assms(2) False, of F]
    then show ?thesis using touched_flags[OF t] touched_steps_left[OF t] c that(2) assms(3) False by simp
  qed
  let ?r = "rv_relay v"
  have fin: "rs_finished x \<and> (\<forall>n. reg_find n ?r \<noteq> Some s) \<and> (\<forall>e. e \<in> dir_has (rl_dir ?r) \<longrightarrow> (\<exists>t. t \<noteq> s \<and> t < rl_next ?r
      \<and> rs_registered (rl_sess ?r t) \<and> \<not> rs_finished (rl_sess ?r t) \<and> port_key (rl_sess ?r t) = e))" if "steps_left x = 0"
  proof -
    have "rs_run x = Run_done" using that by (simp add: steps_left_def split: run_pc.splits)
    then have f: "rs_finished x" using relay_invD(2)[OF inv, of s] assms(3) by (simp add: run_wf_def)
    then have "\<forall>n. reg_find n ?r \<noteq> Some s" using found_current[OF inv, of _ s] assms(3) by (auto simp: current_def active_def)
    moreover have "\<exists>t. t \<noteq> s \<and> t < rl_next ?r \<and> rs_registered (rl_sess ?r t) \<and> \<not> rs_finished (rl_sess ?r t)
        \<and> port_key (rl_sess ?r t) = e" if "e \<in> dir_has (rl_dir ?r)" for e
      by (rule shown_port_owner[OF inv that]) (use f assms(3) in simp)
    ultimately show ?thesis using f by blast
  qed
  have "steps_left x \<le> 3" by (simp add: steps_left_def split: run_pc.split)
  moreover have "\<forall>a y. relay_enabled a v \<and> y = rl_sess (rv_relay (relay_perform F a v)) s \<longrightarrow> rs_closed y
      \<and> (if relay_session_of a = Some s then steps_left y < steps_left x else steps_left y = steps_left x)"
    by (intro allI impI, rule step) auto
  moreover have "0 < steps_left x \<longrightarrow> (\<exists>a. relay_session_of a = Some s \<and> relay_enabled a v)"
    using closed_relay_enabled[OF inv assms(2) c] assms(3) by simp
  ultimately show ?thesis using fin by simp
qed

theorem closed_relay_session_ends_witness:
  "(\<exists>v a. relay_reachable std_fmt v \<and> rs_closed (rl_sess (rv_relay v) 0) \<and> steps_left (rl_sess (rv_relay v) 0) = 3
      \<and> relay_session_of a = Some 0 \<and> relay_enabled a v)
    \<and> (\<exists>v t. relay_reachable std_fmt v \<and> steps_left (rl_sess (rv_relay v) 1) = 0 \<and> rs_finished (rl_sess (rv_relay v) 1)
      \<and> ([1, 2, 3, 4, 5, 6], Pdp, 7) \<in> dir_has (rl_dir (rv_relay v)) \<and> t \<noteq> 1 \<and> rs_registered (rl_sess (rv_relay v) t))"
proof
  let ?a = "Run_got_init 1 (Some ex_init_block)"
  let ?v = "relay_perform std_fmt ?a ex_relay"
  have "relay_enabled ?a ex_relay" by (simp add: relay_enabled_def ex_relay_eq ex_init_block)
  then have r: "relay_reachable std_fmt ?v" by (rule relay_reachable.step[OF ex_relay_reachable(2)])
  have st: "0 < rl_next (rv_relay ?v)" "rs_closed (rl_sess (rv_relay ?v) 0)" "steps_left (rl_sess (rv_relay ?v) 0) = 3"
    by (simp_all add: relay_perform_def relay_step_def ex_relay_eq run_init_def ex_init_block establish_self_def
        register_self_def Let_def on_relay_def set_endpoints_def dir_add_def um_emplace_def lower_bound_def reg_add_def
        reg_find_def get_identifier_def directory_port_kind_def run_end_def finish_def dir_remove_def supersede_def
        relay_close_def new_relay_session_def ex_pdp_session_def dec_active_def reg_remove_def get_peer_identifier_def
        um_erase_def steps_left_def)
  then show "\<exists>v a. relay_reachable std_fmt v \<and> rs_closed (rl_sess (rv_relay v) 0) \<and> steps_left (rl_sess (rv_relay v) 0) = 3
      \<and> relay_session_of a = Some 0 \<and> relay_enabled a v"
    using closed_relay_session_ends[OF r st(1) refl st(2)] r by (metis zero_less_numeral)
next
  let ?v = "relay_perform std_fmt (Run_got_init 1 None) ex_relay"
  let ?w = "relay_perform std_fmt (Relay_writer_resume 1) ?v"
  note defs = relay_perform_def relay_step_def ex_relay_eq run_init_def run_end_def finish_def Let_def on_relay_def
    relay_close_def new_relay_session_def dec_active_def relay_writer_loop_def steps_left_def
  have "relay_enabled (Run_got_init 1 None) ex_relay" by (simp add: relay_enabled_def ex_relay_eq)
  then have v: "relay_reachable std_fmt ?v" by (rule relay_reachable.step[OF ex_relay_reachable(2)])
  have "relay_enabled (Relay_writer_resume 1) ?v" by (simp add: relay_enabled_def defs)
  then have w: "relay_reachable std_fmt ?w" by (rule relay_reachable.step[OF v])
  have st: "1 < rl_next (rv_relay ?w)" "rs_closed (rl_sess (rv_relay ?w) 1)" "steps_left (rl_sess (rv_relay ?w) 1) = 0"
    "rl_dir (rv_relay ?w) = [([1, 2, 3, 4, 5, 6], \<lparr>ps_pdp = [7], ps_ptp = []\<rparr>)]"
    by (simp_all add: defs)
  have "([1, 2, 3, 4, 5, 6], Pdp, 7) \<in> dir_has (rl_dir (rv_relay ?w))" unfolding st(4) by (simp add: dir_has_def)
  then show "\<exists>v t. relay_reachable std_fmt v \<and> steps_left (rl_sess (rv_relay v) 1) = 0 \<and> rs_finished (rl_sess (rv_relay v) 1)
      \<and> ([1, 2, 3, 4, 5, 6], Pdp, 7) \<in> dir_has (rl_dir (rv_relay v)) \<and> t \<noteq> 1 \<and> rs_registered (rl_sess (rv_relay v) t)"
    using closed_relay_session_ends[OF w st(1) refl st(2)] w st(3) by metis
qed

text \<open>
  C30: A session that nobody answers ends.  From every reachable state in which a session waits for its
  init block, for the listen session it wants to connect to or for the accept session, time and its timer
  alone lead, within five seconds, to a state in which it is finished, its place is free, no name leads
  to it and its port is out of the directory; the other names stay, and nobody is sent anything.  Before
  its timer has run out the wait does not end this way.
\<close>

theorem unanswered_session_ends:
  assumes "relay_reachable F v" "r = rv_relay v" "s < rl_next r" "x = rl_sess r s" "unanswered x"
  shows "(\<exists>w. relay_execute F (replicate (rs_expiry x - rl_now r) Relay_tick @ [timed_out s x]) v = Some w
      \<and> rl_now (rv_relay w) \<le> rl_now r + 5000 \<and> rs_finished (rl_sess (rv_relay w) s)
      \<and> Suc (rl_active (rv_relay w)) = rl_active r
      \<and> (\<forall>n. reg_find n (rv_relay w) = (if reg_find n r = Some s then None else reg_find n r))
      \<and> dir_has (rl_dir (rv_relay w)) = dir_has (rl_dir r) - (if rs_registered x then {port_key x} else {})
      \<and> (\<forall>t. rs_write_queue (rl_sess (rv_relay w) t) = rs_write_queue (rl_sess r t)))
    \<and> (rl_now r < rs_expiry x \<longrightarrow> \<not> relay_enabled (timed_out s x) v)"
proof -
  let ?d = "rs_expiry x - rl_now r" and ?v = "later (rs_expiry x - rl_now r) v"
  have reach: "relay_reachable F ?v" by (rule relay_execute_reachable[OF relay_execute_ticks assms(1)])
  have x: "unanswered (rl_sess (rv_relay ?v) s)" "s < rl_next (rv_relay ?v)" "rl_sess (rv_relay ?v) s = x"
    using assms(2-5) by simp_all
  have "rs_expiry x \<le> rl_now r + 5000"
    using relay_reachable_expiry[OF assms(1)] assms(2,4) by (simp add: expiry_ok_def)
  then have now: "rs_expiry x \<le> rl_now (rv_relay ?v)" "rl_now (rv_relay ?v) \<le> rl_now r + 5000"
    using assms(2) by simp_all
  obtain u where u: "rv_relay (relay_perform F (timed_out s x) ?v) = run_end F s u" "running F s (rs_registered x) u"
    "rl_sess u = rl_sess r" "rl_names u = rl_names r" "rl_dir u = rl_dir r" "rl_active u = rl_active r"
    "rl_now u = rl_now (rv_relay ?v)"
    using timed_out_ends[OF relay_reachable_inv[OF reach] x(2,1)] x(3) assms(2) by auto
  have "relay_enabled (timed_out s x) ?v" using timed_out_enabled[OF x(1,2)] x(3) now(1) by simp
  then have run: "relay_execute F (replicate ?d Relay_tick @ [timed_out s x]) v
      = Some (relay_perform F (timed_out s x) ?v)"
    by (simp add: relay_execute_append relay_execute_ticks)
  have fin: "\<not> rs_finished x" using relay_invD(2)[OF relay_reachable_inv[OF reach], of s] x
    by (auto simp: run_wf_def unanswered_def)
  have "0 < rl_active r"
    using active_count[OF relay_reachable_inv[OF reach], of s] x(2,3) fin assms(2) by simp
  then have "Suc (rl_active (run_end F s u)) = rl_active r" using run_end_frame(6)[OF u(2)] u(6) by simp
  moreover have "reg_find n (run_end F s u) = (if reg_find n r = Some s then None else reg_find n r)" for n
    using run_end_names[OF u(2), of n] u(4) by (simp add: reg_find_def)
  moreover have "dir_has (rl_dir (run_end F s u)) = dir_has (rl_dir r) - (if rs_registered x then {port_key x} else {})"
    using run_end_dir_any[OF u(2)] u(3,5) assms(4) by simp
  moreover have "rs_write_queue (rl_sess (run_end F s u) t) = rs_write_queue (rl_sess r t)" for t
    using run_end_frame(1)[OF u(2)] u(3) by simp
  moreover have "rl_now (run_end F s u) \<le> rl_now r + 5000" using now(2) u(7) by simp
  moreover have "rl_now r < rs_expiry x \<longrightarrow> \<not> relay_enabled (timed_out s x) v"
    using timed_out_enabled[of v s] assms(2-5) by simp
  ultimately show ?thesis using run run_end_frame(2)[OF u(2)] u(1) by auto
qed

theorem unanswered_session_ends_witness:
  "\<exists>w. relay_execute std_fmt (replicate 5000 Relay_tick @ [Run_bonded 1]) ex_accepting = Some w
    \<and> rs_finished (rl_sess (rv_relay w) 1) \<and> reg_find ex_connect_name (rv_relay w) = None"
proof -
  let ?x = "rl_sess (rv_relay ex_accepting) 1"
  have x: "unanswered ?x" "1 < rl_next (rv_relay ex_accepting)" "timed_out 1 ?x = Run_bonded 1"
    "rs_expiry ?x = 5000" "rl_now (rv_relay ex_accepting) = 0"
    by (simp_all add: unanswered_def timed_out_def ex_accepting_listener(9) ex_connecting_sessions ex_connecting_fields
        ex_accepting_fields ex_connecting_timer del: One_nat_def)
  have n: "reg_find ex_connect_name (rv_relay ex_accepting) = Some 1"
    by (simp add: reg_find_def ex_accepting_fields ex_listen_name_def ex_connect_name_def)
  show ?thesis
    using unanswered_session_ends[OF ex_accepting_reachable refl x(2) refl x(1)] n unfolding x by (auto simp del: One_nat_def)
qed

end
