(* ===== verification/Status.thy ===== *)
theory Status
  imports Registry Relay_Names Relay_Directory
begin

text \<open>
  The status page of \<^verbatim>\<open>source/status_server.cpp\<close>: the grouping of the registry's
  snapshot, the JSON text, the answer to a request, and the loop over the requests of a connection.
  Boost.Beast reads requests and writes responses: a request is what its parser delivers, and whether
  reading or writing failed is an input.  The text of numbers is fmt's, the parameter of Relay\_Names.
\<close>

section \<open>Grouping\<close>

record status_group_user =
  gu_name :: bytes
  gu_mac :: bytes

record status_group =
  sg_name :: bytes
  sg_users :: "status_group_user list"

record status_game =
  sm_code :: bytes
  sm_name :: bytes
  sm_user_count :: nat
  sm_groups :: "status_group list"
  sm_group_index :: "(bytes, nat) umap"

definition groupless :: bytes where
  "groupless = ascii ''Groupless''"

text \<open>\<^verbatim>\<open>try_emplace(key, value)\<close>: whether it inserted, and the value now under the key.\<close>

definition try_emplace :: "'k \<Rightarrow> 'v \<Rightarrow> ('k, 'v) umap \<Rightarrow> bool \<times> 'v \<times> ('k, 'v) umap" where
  "try_emplace k v m = (case map_of m k of None \<Rightarrow> (True, v, m @ [(k, v)]) | Some u \<Rightarrow> (False, u, m))"

text \<open>\<^verbatim>\<open>v[i]\<close> is unchecked: an index out of range is undefined behaviour.\<close>

definition at :: "nat \<Rightarrow> 'a list \<Rightarrow> 'a option" where
  "at i xs = (if i < length xs then Some (xs ! i) else None)"

text \<open>The loop body of \<^verbatim>\<open>build_status_games\<close> once the game is known.\<close>

definition add_to_game :: "status_user \<Rightarrow> status_game \<Rightarrow> status_game option" where
  "add_to_game u g = (let
     g = g\<lparr>sm_user_count := sm_user_count g + 1\<rparr>;
     grp = (case su_group u of None \<Rightarrow> groupless | Some n \<Rightarrow> n)
   in case try_emplace grp (length (sm_groups g)) (sm_group_index g) of (inserted, i, index) \<Rightarrow> let
     groups = (if inserted then sm_groups g @ [\<lparr>sg_name = grp, sg_users = []\<rparr>] else sm_groups g)
   in do {
     x \<leftarrow> at i groups;
     let x = x\<lparr>sg_users := sg_users x @ [\<lparr>gu_name = su_name u, gu_mac = su_mac u\<rparr>]\<rparr>;
     Some (g\<lparr>sm_groups := groups[i := x], sm_group_index := index\<rparr>) })"

definition new_status_game :: "bytes \<Rightarrow> bytes \<Rightarrow> status_game" where
  "new_status_game code name =
     \<lparr>sm_code = code, sm_name = name, sm_user_count = 0, sm_groups = [], sm_group_index = []\<rparr>"

text \<open>
  The loop, with the games and \<^verbatim>\<open>game_index\<close>; looking up a name asks the database, and may throw.
\<close>

fun build_loop :: "'db sqlite_api \<Rightarrow> status_user list \<Rightarrow> status_game list \<Rightarrow> (bytes, nat) umap \<Rightarrow> 'db option
    \<Rightarrow> ((exn + status_game list) \<times> 'db option) option" where
  "build_loop api [] games index h = Some (Inr games, h)"
| "build_loop api (u # us) games index h =
     (case try_emplace (su_product_code u) (length games) index of (inserted, i, index) \<Rightarrow>
      case (if inserted then display_name_for api h (su_product_code u) else (Inr [], h)) of
        (Inl e, h) \<Rightarrow> Some (Inl e, h)
      | (Inr name, h) \<Rightarrow> let
          games = (if inserted then games @ [new_status_game (su_product_code u) name] else games)
        in do {
          g \<leftarrow> at i games;
          g \<leftarrow> add_to_game u g;
          build_loop api us (games[i := g]) index h })"

definition build_status_games :: "'db sqlite_api \<Rightarrow> 'db world \<Rightarrow> ((exn + status_game list) \<times> 'db option) option" where
  "build_status_games api w = do { us \<leftarrow> snapshot_for_status w; build_loop api us [] [] (w_db w) }"

section \<open>JSON\<close>

definition escape_char :: "fmt_api \<Rightarrow> byte \<Rightarrow> bytes" where
  "escape_char F c =
     (if c = 34 then [92, 34] else if c = 92 then [92, 92]
      else if c = 8 then [92, 98] else if c = 12 then [92, 102] else if c = 10 then [92, 110]
      else if c = 13 then [92, 114] else if c = 9 then [92, 116]
      else if c < 0x20 then [92, 117] @ fm_hex4 F c else [c])"

fun append_json_escaped :: "fmt_api \<Rightarrow> bytes \<Rightarrow> bytes \<Rightarrow> bytes" where
  "append_json_escaped F out [] = out"
| "append_json_escaped F out (c # s) = append_json_escaped F (out @ escape_char F c) s"

text \<open>The loops put a comma before every element but the first.\<close>

definition comma :: "bool \<Rightarrow> bytes \<Rightarrow> bytes" where
  "comma first out = (if first then out else out @ [44])"

fun append_port_array :: "fmt_api \<Rightarrow> bool \<Rightarrow> u16 list \<Rightarrow> bytes \<Rightarrow> bytes" where
  "append_port_array F first [] out = out"
| "append_port_array F first (p # ps) out =
     append_port_array F False ps (comma first out @ fm_dec F (unat p))"

fun append_users :: "fmt_api \<Rightarrow> directory \<Rightarrow> bool \<Rightarrow> status_group_user list \<Rightarrow> bytes \<Rightarrow> bytes" where
  "append_users F d first [] out = out"
| "append_users F d first (u # us) out = (let
     out = comma first out @ ascii ''{\"name\":\"'';
     out = append_json_escaped F out (gu_name u) @ [34];
     out = (case dir_find (gu_mac u) d of
         Some ports \<Rightarrow> append_port_array F True (ps_ptp ports)
             (append_port_array F True (ps_pdp ports) (out @ ascii '',\"pdp_ports\":['') @ ascii ''],\"ptp_ports\":['') @ [93]
       | None \<Rightarrow> out @ ascii '',\"pdp_ports\":[],\"ptp_ports\":[]'')
   in append_users F d False us (out @ [125]))"

fun append_groups :: "fmt_api \<Rightarrow> directory \<Rightarrow> bool \<Rightarrow> status_group list \<Rightarrow> bytes \<Rightarrow> bytes" where
  "append_groups F d first [] out = out"
| "append_groups F d first (g # gs) out = (let
     out = comma first out @ ascii ''{\"name\":\"'';
     out = append_json_escaped F out (sg_name g) @ ascii ''\",\"usercount\":'' @ fm_dec F (length (sg_users g))
       @ ascii '',\"users\":['';
     out = append_users F d True (sg_users g) out
   in append_groups F d False gs (out @ ascii '']}''))"

fun append_games :: "fmt_api \<Rightarrow> directory \<Rightarrow> bool \<Rightarrow> status_game list \<Rightarrow> bytes \<Rightarrow> bytes" where
  "append_games F d first [] out = out"
| "append_games F d first (g # gs) out = (let
     out = comma first out @ ascii ''{\"name\":\"'';
     out = append_json_escaped F out (sm_name g) @ ascii ''\",\"usercount\":'' @ fm_dec F (sm_user_count g)
       @ ascii '',\"game_ids\":[\"'';
     out = append_json_escaped F out (sm_code g) @ ascii ''\"],\"groups\":['';
     out = append_groups F d True (sm_groups g) out
   in append_games F d False gs (out @ ascii '']}''))"

definition games_text :: "fmt_api \<Rightarrow> directory \<Rightarrow> status_game list \<Rightarrow> bytes \<Rightarrow> bytes" where
  "games_text F d games out = append_games F d True games (out @ ascii ''{\"games\":['') @ ascii '']}''"

definition build_status_json :: "'db sqlite_api \<Rightarrow> fmt_api \<Rightarrow> 'db world \<Rightarrow> directory \<Rightarrow> bytes
    \<Rightarrow> ((exn + bytes) \<times> 'db option) option" where
  "build_status_json api F w d out = do {
     (r, h) \<leftarrow> build_status_games api w;
     Some (case r of Inl e \<Rightarrow> (Inl e, h) | Inr games \<Rightarrow> (Inr (games_text F d games out), h)) }"

section \<open>Requests\<close>

record http_request =
  rq_get :: bool
  rq_target :: bytes
  rq_keep_alive :: bool

record http_response =
  rp_status :: nat
  rp_content_type :: bytes
  rp_body :: bytes
  rp_keep_alive :: bool

definition status_response :: "'db sqlite_api \<Rightarrow> fmt_api \<Rightarrow> http_request \<Rightarrow> 'db world \<Rightarrow> directory
    \<Rightarrow> ((exn + http_response) \<times> 'db option) option" where
  "status_response api F req w d =
     (if \<not> rq_get req \<or> rq_target req \<noteq> ascii ''/data.json'' then
        Some (Inr \<lparr>rp_status = 404, rp_content_type = ascii ''text/plain; charset=utf-8'',
          rp_body = ascii ''Not Found'', rp_keep_alive = rq_keep_alive req\<rparr>, w_db w)
      else do {
        (r, h) \<leftarrow> build_status_json api F w d [];
        Some (case r of Inl e \<Rightarrow> (Inl e, h)
          | Inr body \<Rightarrow> (Inr \<lparr>rp_status = 200, rp_content_type = ascii ''application/json; charset=utf-8'',
              rp_body = body, rp_keep_alive = rq_keep_alive req\<rparr>, h)) })"

text \<open>
  One round of \<^verbatim>\<open>handle_status_connection\<close>: a request or a failed read, the state of the
  server at that time, and whether writing the response fails.  An exception leaves the coroutine.
\<close>

record 'db status_round =
  sr_request :: "http_request option"
  sr_world :: "'db world"
  sr_dir :: directory
  sr_write_error :: bool

text \<open>The responses it starts to write, and the exception that ended it, if any.\<close>

fun handle_status_connection :: "'db sqlite_api \<Rightarrow> fmt_api \<Rightarrow> 'db status_round list
    \<Rightarrow> (http_response list \<times> exn option) option" where
  "handle_status_connection api F [] = Some ([], None)"
| "handle_status_connection api F (e # es) = (case sr_request e of
     None \<Rightarrow> Some ([], None)
   | Some req \<Rightarrow> do {
       (r, _) \<leftarrow> status_response api F req (sr_world e) (sr_dir e);
       case r of
         Inl x \<Rightarrow> Some ([], Some x)
       | Inr res \<Rightarrow>
         if sr_write_error e \<or> \<not> rq_keep_alive req then Some ([res], None)
         else do { (rs, x) \<leftarrow> handle_status_connection api F es; Some (res # rs, x) } })"

text \<open>
  The acceptor: how \<^verbatim>\<open>async_accept\<close> completes, given whether the acceptor is open
  afterwards; whether the loop goes on, and whether a connection is served.
\<close>

datatype status_accepted = Sacc_aborted | Sacc_error | Sacc_socket

definition run_status_server_generic :: "status_accepted \<Rightarrow> bool \<Rightarrow> bool \<times> bool" where
  "run_status_server_generic a is_open = (case a of
     Sacc_aborted \<Rightarrow> (False, False)
   | Sacc_error \<Rightarrow> (is_open, False)
   | Sacc_socket \<Rightarrow> (is_open, True))"

end
