(* ===== verification/Status_Json.thy ===== *)
theory Status_Json
  imports Status
begin

text \<open>
  What the status page computes: the grouping is the one a reference definition gives, and the text is
  the rendering of a JSON document, whose strings a JSON reader reads back.
\<close>

section \<open>Grouping by a key, in order of first appearance\<close>

definition firsts :: "('u \<Rightarrow> 'k) \<Rightarrow> 'u list \<Rightarrow> 'k list" where
  "firsts key us = rev (remdups (rev (map key us)))"

definition grouped :: "('u \<Rightarrow> 'k) \<Rightarrow> ('k \<Rightarrow> 'u list \<Rightarrow> 'e) \<Rightarrow> 'u list \<Rightarrow> 'e list" where
  "grouped key f us = map (\<lambda>k. f k (filter (\<lambda>u. key u = k) us)) (firsts key us)"

definition index_of :: "'k list \<Rightarrow> ('k, nat) umap" where
  "index_of ks = zip ks [0..<length ks]"

lemma firsts_Nil [simp]: "firsts key [] = []"
  by (simp add: firsts_def)

lemma firsts_snoc: "firsts key (us @ [u]) = firsts key us @ (if key u \<in> key ` set us then [] else [key u])"
  by (simp add: firsts_def)

lemma firsts_set [simp]: "set (firsts key us) = key ` set us" "distinct (firsts key us)"
  by (simp_all add: firsts_def)

lemma length_grouped [simp]: "length (grouped key f us) = length (firsts key us)"
  by (simp add: grouped_def)

lemma grouped_Nil [simp]: "grouped key f [] = []"
  by (simp add: grouped_def)

lemma grouped_nth: "i < length (firsts key us) \<Longrightarrow> grouped key f us ! i = f (firsts key us ! i) (filter (\<lambda>u. key u = firsts key us ! i) us)"
  by (simp add: grouped_def)

lemma grouped_old:
  assumes "i < length (firsts key us)" "firsts key us ! i = key u"
  shows "grouped key f (us @ [u]) = (grouped key f us)[i := f (key u) (filter (\<lambda>v. key v = key u) us @ [u])]"
proof -
  have "key u \<in> key ` set us" using assms nth_mem[OF assms(1)] by simp
  then have eq: "firsts key (us @ [u]) = firsts key us" by (simp add: firsts_snoc)
  show ?thesis
  proof (rule nth_equalityI)
    fix j assume j: "j < length (grouped key f (us @ [u]))"
    have "firsts key us ! j = key u \<longleftrightarrow> j = i"
      using nth_eq_iff_index_eq[OF firsts_set(2), of j key us i] assms j eq by simp
    then show "grouped key f (us @ [u]) ! j = (grouped key f us)[i := f (key u) (filter (\<lambda>v. key v = key u) us @ [u])] ! j"
      using j assms unfolding length_grouped eq by (cases "j = i") (auto simp: grouped_def eq)
  qed (simp add: eq)
qed

lemma grouped_new:
  assumes "key u \<notin> key ` set us"
  shows "grouped key f (us @ [u]) = grouped key f us @ [f (key u) [u]]"
proof -
  have "filter (\<lambda>v. key v = key u) us = []" using assms by (intro filter_False) (metis imageI)
  moreover have "map (\<lambda>k. f k (filter (\<lambda>v. key v = k) (us @ [u]))) (firsts key us) = grouped key f us"
    unfolding grouped_def using assms by (intro map_cong) auto
  ultimately show ?thesis using assms by (simp add: grouped_def[of key f "us @ [u]"] firsts_snoc)
qed

lemma index_of_lookup:
  assumes "distinct ks"
  shows "map_of (index_of ks) k = Some i \<longleftrightarrow> i < length ks \<and> ks ! i = k"
proof -
  have "distinct (map fst (index_of ks))" using assms by (simp add: index_of_def)
  then show ?thesis by (subst um_find_iff) (auto simp: index_of_def set_zip)
qed

text \<open>\<^verbatim>\<open>try_emplace\<close> on the index of the groups made so far.\<close>

lemma try_emplace_old:
  assumes "key u \<in> key ` set us"
  obtains i where "try_emplace (key u) n (index_of (firsts key us)) = (False, i, index_of (firsts key (us @ [u])))"
    "i < length (firsts key us)" "firsts key us ! i = key u"
proof -
  have "key u \<in> set (firsts key us)" using assms by simp
  then obtain i where i: "i < length (firsts key us)" "firsts key us ! i = key u" by (metis in_set_conv_nth)
  then have "map_of (index_of (firsts key us)) (key u) = Some i" by (simp add: index_of_lookup)
  then show ?thesis using that[of i] i assms by (simp add: try_emplace_def firsts_snoc)
qed

lemma try_emplace_new:
  assumes "key u \<notin> key ` set us"
  shows "try_emplace (key u) (length (firsts key us)) (index_of (firsts key us))
    = (True, length (firsts key us), index_of (firsts key (us @ [u])))"
proof -
  have "map_of (index_of (firsts key us)) (key u) = None"
    using assms index_of_lookup[OF firsts_set(2), of key us "key u"]
    by (metis firsts_set(1) nth_mem option.exhaust)
  then show ?thesis using assms by (simp add: try_emplace_def firsts_snoc) (simp add: index_of_def)
qed

section \<open>The games of the page\<close>

definition group_key :: "status_user \<Rightarrow> bytes" where
  "group_key u = (case su_group u of None \<Rightarrow> groupless | Some n \<Rightarrow> n)"

definition group_of :: "bytes \<Rightarrow> status_user list \<Rightarrow> status_group" where
  "group_of n us = \<lparr>sg_name = n, sg_users = map (\<lambda>u. \<lparr>gu_name = su_name u, gu_mac = su_mac u\<rparr>) us\<rparr>"

definition game_of :: "(bytes \<Rightarrow> bytes) \<Rightarrow> bytes \<Rightarrow> status_user list \<Rightarrow> status_game" where
  "game_of nm c us = \<lparr>sm_code = c, sm_name = nm c, sm_user_count = length us,
     sm_groups = grouped group_key group_of us, sm_group_index = index_of (firsts group_key us)\<rparr>"

definition games_of :: "(bytes \<Rightarrow> bytes) \<Rightarrow> status_user list \<Rightarrow> status_game list" where
  "games_of nm us = grouped su_product_code (game_of nm) us"

lemma game_of_Nil: "game_of nm c [] = new_status_game c (nm c)"
  by (simp add: game_of_def new_status_game_def index_of_def)

lemma group_of_snoc: "group_of n (us @ [u]) = (group_of n us)\<lparr>sg_users := sg_users (group_of n us) @ [\<lparr>gu_name = su_name u, gu_mac = su_mac u\<rparr>]\<rparr>"
  by (simp add: group_of_def)

lemma add_to_game_of: "add_to_game u (game_of nm c us) = Some (game_of nm c (us @ [u]))"
proof (cases "group_key u \<in> group_key ` set us")
  case True
  then obtain i where i: "try_emplace (group_key u) (length (firsts group_key us)) (index_of (firsts group_key us))
      = (False, i, index_of (firsts group_key (us @ [u])))" "i < length (firsts group_key us)" "firsts group_key us ! i = group_key u"
    by (rule try_emplace_old)
  show ?thesis
    using i(2,3) grouped_old[OF i(2,3), of group_of] grouped_nth[OF i(2), of group_of]
    by (simp add: add_to_game_def game_of_def group_key_def[symmetric] i(1) at_def group_of_snoc Let_def)
next
  case False
  have "group_of (group_key u) [u] = \<lparr>sg_name = group_key u, sg_users = [\<lparr>gu_name = su_name u, gu_mac = su_mac u\<rparr>]\<rparr>"
    by (simp add: group_of_def)
  then show ?thesis
    using grouped_new[OF False, of group_of]
    by (simp add: add_to_game_def game_of_def group_key_def[symmetric] try_emplace_new[OF False] at_def nth_append
        list_update_append Let_def)
qed

lemma build_loop_games:
  assumes nm: "\<And>k. display_name_for api h k = (Inr (nm k), h)"
  shows "build_loop api vs (games_of nm us) (index_of (firsts su_product_code us)) h = Some (Inr (games_of nm (us @ vs)), h)"
proof (induction vs arbitrary: us)
  case (Cons v vs)
  have step: "build_loop api (v # vs) (games_of nm us) (index_of (firsts su_product_code us)) h
      = build_loop api vs (games_of nm (us @ [v])) (index_of (firsts su_product_code (us @ [v]))) h"
  proof (cases "su_product_code v \<in> su_product_code ` set us")
    case True
    then obtain i where i: "try_emplace (su_product_code v) (length (firsts su_product_code us)) (index_of (firsts su_product_code us))
        = (False, i, index_of (firsts su_product_code (us @ [v])))"
      "i < length (firsts su_product_code us)" "firsts su_product_code us ! i = su_product_code v"
      by (rule try_emplace_old)
    show ?thesis
      using i(2,3) grouped_old[OF i(2,3), of "game_of nm"] grouped_nth[OF i(2), of "game_of nm"]
      by (simp add: games_of_def i(1) at_def add_to_game_of)
  next
    case False
    have "add_to_game v (new_status_game (su_product_code v) (nm (su_product_code v)))
        = Some (game_of nm (su_product_code v) [v])"
      using add_to_game_of[of v nm "su_product_code v" "[]"] by (simp add: game_of_Nil)
    then show ?thesis
      using grouped_new[OF False, of "game_of nm"] nm
      by (simp add: games_of_def try_emplace_new[OF False] at_def nth_append list_update_append Let_def)
  qed
  show ?case unfolding step using Cons.IH[of "us @ [v]"] by simp
qed simp

section \<open>The text is a JSON document\<close>

datatype json = J_string bytes | J_number nat | J_array "json list" | J_object "(bytes \<times> json) list"

fun commas :: "bytes list \<Rightarrow> bytes" where
  "commas [] = []"
| "commas [x] = x"
| "commas (x # xs) = x @ [44] @ commas xs"

definition escaped :: "fmt_api \<Rightarrow> bytes \<Rightarrow> bytes" where
  "escaped F s = concat (map (escape_char F) s)"

text \<open>The compact rendering of a document whose keys need no escapes.\<close>

fun render :: "fmt_api \<Rightarrow> json \<Rightarrow> bytes" where
  "render F (J_string s) = [34] @ escaped F s @ [34]"
| "render F (J_number n) = fm_dec F n"
| "render F (J_array xs) = [91] @ commas (map (render F) xs) @ [93]"
| "render F (J_object kvs) = [123] @ commas (map (\<lambda>kv. [34] @ fst kv @ [34, 58] @ render F (snd kv)) kvs) @ [125]"

definition ports_doc :: "u16 list \<Rightarrow> json" where
  "ports_doc ps = J_array (map (\<lambda>p. J_number (unat p)) ps)"

definition user_doc :: "directory \<Rightarrow> status_group_user \<Rightarrow> json" where
  "user_doc d u = (let ps = (case dir_find (gu_mac u) d of None \<Rightarrow> empty_port_set | Some ps \<Rightarrow> ps) in
     J_object [(ascii ''name'', J_string (gu_name u)), (ascii ''pdp_ports'', ports_doc (ps_pdp ps)),
       (ascii ''ptp_ports'', ports_doc (ps_ptp ps))])"

definition group_doc :: "directory \<Rightarrow> status_group \<Rightarrow> json" where
  "group_doc d g = J_object [(ascii ''name'', J_string (sg_name g)),
     (ascii ''usercount'', J_number (length (sg_users g))),
     (ascii ''users'', J_array (map (user_doc d) (sg_users g)))]"

definition game_doc :: "directory \<Rightarrow> status_game \<Rightarrow> json" where
  "game_doc d g = J_object [(ascii ''name'', J_string (sm_name g)),
     (ascii ''usercount'', J_number (sm_user_count g)), (ascii ''game_ids'', J_array [J_string (sm_code g)]),
     (ascii ''groups'', J_array (map (group_doc d) (sm_groups g)))]"

definition status_doc :: "directory \<Rightarrow> status_game list \<Rightarrow> json" where
  "status_doc d gs = J_object [(ascii ''games'', J_array (map (game_doc d) gs))]"

text \<open>The elements a loop appends: a comma before the first, unless it is the first of all.\<close>

definition tail_of :: "bool \<Rightarrow> bytes list \<Rightarrow> bytes" where
  "tail_of first xs = (if xs = [] then [] else (if first then [] else [44]) @ commas xs)"

lemma tail_of_Nil [simp]: "tail_of first [] = []"
  by (simp add: tail_of_def)

lemma tail_of_Cons: "tail_of first (x # xs) = (if first then [] else [44]) @ x @ tail_of False xs"
  by (cases xs) (simp_all add: tail_of_def)

lemma tail_of_True: "tail_of True xs = commas xs"
  by (simp add: tail_of_def)

lemma comma_eq: "comma first out = out @ (if first then [] else [44])"
  by (simp add: comma_def)

lemma append_json_escaped_eq: "append_json_escaped F out s = out @ escaped F s"
  by (induction s arbitrary: out) (simp_all add: escaped_def)

lemma append_port_array_eq:
  "append_port_array F first ps out = out @ tail_of first (map (\<lambda>p. fm_dec F (unat p)) ps)"
  by (induction ps arbitrary: first out) (simp_all add: tail_of_Cons comma_eq)

lemma render_ports: "render F (ports_doc ps) = [91] @ commas (map (\<lambda>p. fm_dec F (unat p)) ps) @ [93]"
  by (simp add: ports_doc_def comp_def)

lemma append_users_eq: "append_users F d first us out = out @ tail_of first (map (\<lambda>u. render F (user_doc d u)) us)"
proof (induction us arbitrary: first out)
  case (Cons u us)
  have one: "append_users F d first (u # us) out
      = append_users F d False us (out @ (if first then [] else [44]) @ render F (user_doc d u))"
    by (cases "dir_find (gu_mac u) d")
      (simp_all add: Let_def comma_eq append_json_escaped_eq append_port_array_eq tail_of_True user_doc_def
        render_ports empty_port_set_def ascii_def)
  show ?case unfolding one Cons.IH by (simp add: tail_of_Cons)
qed simp

lemma append_groups_eq: "append_groups F d first gs out = out @ tail_of first (map (\<lambda>g. render F (group_doc d g)) gs)"
proof (induction gs arbitrary: first out)
  case (Cons g gs)
  have one: "append_groups F d first (g # gs) out
      = append_groups F d False gs (out @ (if first then [] else [44]) @ render F (group_doc d g))"
    by (simp add: Let_def comma_eq append_json_escaped_eq append_users_eq tail_of_True group_doc_def comp_def ascii_def)
  show ?case unfolding one Cons.IH by (simp add: tail_of_Cons)
qed simp

lemma append_games_eq: "append_games F d first gs out = out @ tail_of first (map (\<lambda>g. render F (game_doc d g)) gs)"
proof (induction gs arbitrary: first out)
  case (Cons g gs)
  have one: "append_games F d first (g # gs) out
      = append_games F d False gs (out @ (if first then [] else [44]) @ render F (game_doc d g))"
    by (simp add: Let_def comma_eq append_json_escaped_eq append_groups_eq tail_of_True game_doc_def comp_def ascii_def)
  show ?case unfolding one Cons.IH by (simp add: tail_of_Cons)
qed simp

lemma games_text_eq: "games_text F d gs out = out @ render F (status_doc d gs)"
  by (simp add: games_text_def append_games_eq tail_of_True status_doc_def comp_def ascii_def)

section \<open>Strings\<close>

text \<open>What fmt documents of \<^verbatim>\<open>{:02x}\<close>: two lower-case hexadecimal digits.\<close>

definition hex_value :: "byte \<Rightarrow> nat option" where
  "hex_value c = (if 48 \<le> c \<and> c \<le> 57 then Some (unat c - 48)
     else if 97 \<le> c \<and> c \<le> 102 then Some (unat c - 87)
     else if 65 \<le> c \<and> c \<le> 70 then Some (unat c - 55) else None)"

locale hex_laws = fmt_laws +
  assumes hex2_value: "map hex_value (fm_hex2 F b) = [Some (unat b div 16), Some (unat b mod 16)]"

text \<open>
  A reader of JSON strings, after the opening quote: the string and what follows its closing quote.
  Control characters and unknown escapes are errors; of the \<open>\u\<close> escapes it reads those below 256.
\<close>

definition unescape :: "byte \<Rightarrow> byte option" where
  "unescape c = (if c = 34 \<or> c = 92 \<or> c = 47 then Some c else if c = 98 then Some 8 else if c = 102 then Some 12
     else if c = 110 then Some 10 else if c = 114 then Some 13 else if c = 116 then Some 9 else None)"

definition read_u :: "bytes \<Rightarrow> byte option" where
  "read_u ds = (if map hex_value (take 2 ds) = [Some 0, Some 0] then
     (case map hex_value (drop 2 ds) of [Some h, Some l] \<Rightarrow> Some (of_nat (16 * h + l)) | _ \<Rightarrow> None) else None)"

fun json_string :: "bytes \<Rightarrow> (bytes \<times> bytes) option" where
  "json_string [] = None"
| "json_string (c # s) =
     (if c = 34 then Some ([], s)
      else if c < 32 then None
      else if c \<noteq> 92 then map_option (\<lambda>(t, r). (c # t, r)) (json_string s)
      else case s of [] \<Rightarrow> None | e # s' \<Rightarrow>
        if e = 117 then (case read_u (take 4 s') of None \<Rightarrow> None
          | Some b \<Rightarrow> map_option (\<lambda>(t, r). (b # t, r)) (json_string (drop 4 s')))
        else (case unescape e of None \<Rightarrow> None
          | Some b \<Rightarrow> map_option (\<lambda>(t, r). (b # t, r)) (json_string s')))"

context hex_laws begin

lemma read_u_hex4: "read_u (fm_hex4 F b) = Some b"
proof -
  have "unat b < 256" using unsigned_less[of b] by simp
  then have "of_nat (16 * (unat b div 16) + unat b mod 16) = b" by simp
  moreover have "hex_value 48 = Some 0" by (simp add: hex_value_def)
  ultimately show ?thesis by (simp add: read_u_def hex4_text hex2_value)
qed

lemma hex4_length: "length (fm_hex4 F b) = 4"
  by (simp add: hex4_text hex2_length)

lemma json_string_escape: "json_string (escape_char F c @ s) = map_option (\<lambda>(t, r). (c # t, r)) (json_string s)"
  by (auto simp: escape_char_def unescape_def read_u_hex4 hex4_length)

lemma json_string_escaped: "json_string (escaped F s @ 34 # rest) = Some (s, rest)"
  by (induction s) (simp_all add: escaped_def json_string_escape)

end

lemma hex_value_digit: "n < 16 \<Longrightarrow> hex_value (hex_digit n) = Some (unat n)"
proof -
  assume n: "n < 16"
  then have "unat n < 16" by (simp add: word_less_nat_alt)
  then show ?thesis using hex_digit_value[OF n] by (auto simp: hex_value_def word_le_nat_alt)
qed

interpretation sh: hex_laws std_fmt
proof unfold_locales
  fix b :: byte
  have "unat (drop_bit 4 b) = unat b div 16" unfolding unat_drop_bit_eq by (simp add: drop_bit_eq_div)
  moreover have "b AND 15 = b mod 16"
    using take_bit_eq_mask[of 4 b] by (simp add: mask_eq_exp_minus_1 take_bit_eq_mod)
  then have "unat (b AND 15) = unat b mod 16" by (simp add: unat_mod)
  ultimately show "map hex_value (fm_hex2 std_fmt b) = [Some (unat b div 16), Some (unat b mod 16)]"
    using nibbles_bound[of b] by (simp add: std_fmt_def hex2_def hex_value_digit)
qed

end
