(* ===== verification/Status_Page.thy ===== *)
theory Status_Page
  imports Status_Json Registry_Contract "HOL-Library.Multiset"
begin

text \<open>
  What is on the status page: the sessions that are logged in, each in one row.
\<close>

section \<open>The snapshot\<close>

text \<open>The snapshot lists each logged-in session once, with its nickname, MAC, product code and group.\<close>

lemma snapshot_lists_sessions:
  assumes "server_inv w"
  shows "\<exists>ss. snapshot_for_status w = Some (map (\<lambda>s. let x = the (session_at w s) in
      \<lparr>su_name = nickname_str (us_name x), su_mac = us_mac x, su_product_code = the (game_name w s),
       su_group = group_name w s\<rparr>) ss)
    \<and> distinct ss \<and> set ss = {s. game_name w s \<noteq> None}"
proof -
  note inv = reading_links(1)[OF assms] and wf = links_invD[OF reading_links(1)[OF assms]]
  let ?row = "\<lambda>s. let x = the (session_at w s) in \<lparr>su_name = nickname_str (us_name x), su_mac = us_mac x,
      su_product_code = the (game_name w s), su_group = group_name w s\<rparr>"
  let ?us = "\<lambda>(k, p). gm_users (the (w_game_heap w p))"
  have ent: "\<exists>g. w_game_heap w p = Some g \<and> gm_code_str g = k" if "(k, p) \<in> set (w_games w)" for k p
    using that games_wfD(1,2)[OF wf(1)] by (metis um_find_iff)
  have row: "status_of w k s = ?row s" if kp: "(k, p) \<in> set (w_games w)" and s: "s \<in> set (?us (k, p))" for k p s
  proof -
    obtain g where g: "w_game_heap w p = Some g" "gm_code_str g = k" using ent[OF kp] by blast
    then have gm: "gm_of w s = Some p" using users_wfD(3)[OF wf(3) g(1)] s by simp
    obtain x where x: "session_at w s = Some x" "w_sessions w s = Some x" by (rule user_alive[OF inv gm])
    have "us_group x = gr_of w s" using links_session[OF x(1)] by simp
    then show ?thesis using x g gm by (simp add: status_of_def Let_def game_name_def group_name_def)
  qed
  have "status_rows w (w_games w) = map ?row (concat (map ?us (w_games w)))"
    using row by (auto simp: status_rows_def map_concat intro!: arg_cong[of _ _ concat] map_cong)
  moreover have "distinct (concat (map ?us gs))" if "set gs \<subseteq> set (w_games w)" "um_wf gs" for gs
    using that
  proof (induction gs)
    case (Cons kp gs)
    obtain k p where kp: "kp = (k, p)" by (cases kp)
    obtain g where g: "w_game_heap w p = Some g" "gm_code_str g = k" using ent[of k p] Cons.prems kp by auto
    have "set (gm_users g) \<inter> set (?us (k', p')) = {}" if kp': "(k', p') \<in> set gs" for k' p'
    proof -
      obtain g' where g': "w_game_heap w p' = Some g'" "gm_code_str g' = k'"
        using ent[of k' p'] kp' Cons.prems by auto
      have "k' \<noteq> k" using kp' Cons.prems(2) kp by force
      then have "p' \<noteq> p" using g g' by auto
      then have "t \<notin> set (gm_users g')" if "t \<in> set (gm_users g)" for t
        using users_wfD(3)[OF wf(3) g(1), of t] users_wfD(3)[OF wf(3) g'(1), of t] that by auto
      then show ?thesis using g' by auto
    qed
    then show ?case using Cons users_wfD(2)[OF wf(3) g(1)] g kp by fastforce
  qed simp
  moreover have "set (concat (map ?us (w_games w))) = {s. game_name w s \<noteq> None}"
  proof (intro set_eqI iffI)
    fix s assume "s \<in> set (concat (map ?us (w_games w)))"
    then obtain k p where kp: "(k, p) \<in> set (w_games w)" "s \<in> set (?us (k, p))" by auto
    obtain g where g: "w_game_heap w p = Some g" using ent[OF kp(1)] by blast
    then have "gm_of w s = Some p" using users_wfD(3)[OF wf(3) g] kp(2) by simp
    then show "s \<in> {s. game_name w s \<noteq> None}" using game_name_None[OF inv, of s] by simp
  next
    fix s assume "s \<in> {s. game_name w s \<noteq> None}"
    then obtain p where gm: "gm_of w s = Some p" using game_name_None[OF inv, of s] by auto
    obtain g where g: "w_game_heap w p = Some g" "s \<in> set (gm_users g)"
      by (rule user_alive[OF inv gm])
    have "map_of (w_games w) (gm_code_str g) = Some p" using games_wfD(3)[OF wf(1) g(1)] by simp
    then have "(gm_code_str g, p) \<in> set (w_games w)" using games_wfD(1)[OF wf(1)] by (simp add: um_find_iff)
    then show "s \<in> set (concat (map ?us (w_games w)))" using g by force
  qed
  ultimately show ?thesis
    using snapshot_eq[OF inv] games_wfD(1)[OF wf(1)] by (intro exI[of _ "concat (map ?us (w_games w))"]) simp
qed

section \<open>The rows of the page\<close>

lemma games_built:
  assumes "sqlite_tables api ok names links" "snapshot_for_status w = Some us" "w_db w = Some h" "ok h"
  shows "build_status_games api w
    = Some (Inr (games_of (\<lambda>c. case names h c of Some n \<Rightarrow> n | None \<Rightarrow> c) us), Some h)"
proof -
  define nm where "nm c = (case names h c of Some n \<Rightarrow> n | None \<Rightarrow> c)" for c
  have names: "display_name_for api (Some h) c = (Inr (nm c), Some h)" for c
    using sqlite_tables.display_result[OF assms(1,4)] by (auto simp: nm_def split: option.splits)
  have "build_loop api us [] [] (Some h) = Some (Inr (games_of nm us), Some h)"
    using build_loop_games[of api "Some h" nm us "[]", OF names] by (simp add: games_of_def index_of_def)
  then show ?thesis using assms(2,3) by (simp add: build_status_games_def nm_def[abs_def])
qed

text \<open>Product code, group, name and MAC of each user on the page.\<close>

definition page_rows :: "status_game list \<Rightarrow> (bytes \<times> bytes \<times> bytes \<times> bytes) list" where
  "page_rows games = concat (map (\<lambda>g. concat (map (\<lambda>gr.
     map (\<lambda>u. (sm_code g, sg_name gr, gu_name u, gu_mac u)) (sg_users gr)) (sm_groups g))) games)"

text \<open>The same of a logged-in session.\<close>

definition session_row :: "'db world \<Rightarrow> sid \<Rightarrow> bytes \<times> bytes \<times> bytes \<times> bytes" where
  "session_row w s = (let x = the (session_at w s) in
     (the (game_name w s), case group_name w s of Some n \<Rightarrow> n | None \<Rightarrow> ascii ''Groupless'',
      nickname_str (us_name x), us_mac x))"

definition user_row :: "status_user \<Rightarrow> bytes \<times> bytes \<times> bytes \<times> bytes" where
  "user_row u = (su_product_code u, group_key u, su_name u, su_mac u)"

text \<open>Grouping by a key loses no element and repeats none.\<close>

lemma filter_parts:
  assumes "distinct ks" "key ` set us \<subseteq> set ks"
  shows "mset (concat (map (\<lambda>k. filter (\<lambda>u. key u = k) us) ks)) = mset us"
  using assms
proof (induction ks arbitrary: us)
  case (Cons k ks)
  let ?vs = "filter (\<lambda>u. key u \<noteq> k) us"
  have "filter (\<lambda>u. key u = j) us = filter (\<lambda>u. key u = j) ?vs" if "j \<in> set ks" for j
    using that Cons.prems(1) by (auto intro: filter_cong)
  then have "concat (map (\<lambda>j. filter (\<lambda>u. key u = j) us) ks) = concat (map (\<lambda>j. filter (\<lambda>u. key u = j) ?vs) ks)"
    by (intro arg_cong[of _ _ concat] map_cong) auto
  moreover have "mset (concat (map (\<lambda>j. filter (\<lambda>u. key u = j) ?vs) ks)) = mset ?vs"
    using Cons.prems by (intro Cons.IH) auto
  ultimately show ?case by (simp add: multiset_partition[symmetric])
qed simp

lemma grouped_rows:
  assumes "\<And>k vs. (\<forall>v\<in>set vs. key v = k) \<Longrightarrow> mset (rows (f k vs)) = mset (map row vs)"
  shows "mset (concat (map rows (grouped key f us))) = mset (map row us)"
proof -
  have "mset (concat (map (\<lambda>k. rows (f k (filter (\<lambda>u. key u = k) us))) ks))
      = mset (map row (concat (map (\<lambda>k. filter (\<lambda>u. key u = k) us) ks)))" for ks
    using assms by (induction ks) simp_all
  then show ?thesis
    using filter_parts[of "firsts key us" key us] by (simp add: grouped_def comp_def)
qed

lemma page_rows_games: "mset (page_rows (games_of nm us)) = mset (map user_row us)"
proof -
  have "mset (concat (map (\<lambda>gr. map (\<lambda>u. (c, sg_name gr, gu_name u, gu_mac u)) (sg_users gr)) (grouped group_key group_of vs)))
      = mset (map user_row vs)" if "\<forall>v\<in>set vs. su_product_code v = c" for c vs
  proof -
    have "mset (concat (map (\<lambda>gr. map (\<lambda>u. (c, sg_name gr, gu_name u, gu_mac u)) (sg_users gr)) (grouped group_key group_of vs)))
        = mset (map (\<lambda>u. (c, group_key u, su_name u, su_mac u)) vs)"
      by (rule grouped_rows) (auto simp: group_of_def comp_def intro!: image_mset_cong)
    also have "\<dots> = mset (map user_row vs)" using that by (auto simp: user_row_def intro!: image_mset_cong)
    finally show ?thesis .
  qed
  then show ?thesis unfolding page_rows_def games_of_def by (intro grouped_rows) (simp add: game_of_def)
qed

text \<open>The page of a registry that keeps its invariant.\<close>

lemma page_of_sessions:
  assumes inv: "server_inv w" and db: "sqlite_tables api ok names links" "w_db w = Some h" "ok h"
  shows "\<exists>games. build_status_games api w = Some (Inr games, Some h)
    \<and> mset (page_rows games) = image_mset (session_row w) (mset_set {s. game_name w s \<noteq> None})
    \<and> (\<forall>g\<in>set games. sm_user_count g = card {s. game_name w s = Some (sm_code g)})"
proof -
  define row where "row s = (let x = the (session_at w s) in \<lparr>su_name = nickname_str (us_name x), su_mac = us_mac x,
      su_product_code = the (game_name w s), su_group = group_name w s\<rparr>)" for s
  obtain ss where ss: "snapshot_for_status w = Some (map row ss)" "distinct ss" "set ss = {s. game_name w s \<noteq> None}"
    using snapshot_lists_sessions[OF inv] unfolding row_def by blast
  define games where "games = games_of (\<lambda>c. case names h c of Some n \<Rightarrow> n | None \<Rightarrow> c) (map row ss)"
  have built: "build_status_games api w = Some (Inr games, Some h)"
    unfolding games_def by (rule games_built[OF db(1) ss(1) db(2,3)])
  have "mset (page_rows games) = mset (map user_row (map row ss))" unfolding games_def by (rule page_rows_games)
  also have "map user_row (map row ss) = map (session_row w) ss"
    by (simp add: user_row_def row_def session_row_def group_key_def groupless_def Let_def split: option.split)
  also have "mset (map (session_row w) ss) = image_mset (session_row w) (mset_set {s. game_name w s \<noteq> None})"
    using ss(2,3) mset_set_set[of ss] by simp
  finally have rows: "mset (page_rows games) = image_mset (session_row w) (mset_set {s. game_name w s \<noteq> None})" .
  have "sm_user_count g = card {s. game_name w s = Some (sm_code g)}" if "g \<in> set games" for g
  proof -
    have "sm_user_count g = length (filter (\<lambda>u. su_product_code u = sm_code g) (map row ss))"
      using that by (auto simp: games_def games_of_def grouped_def game_of_def)
    also have "\<dots> = length (filter (\<lambda>s. the (game_name w s) = sm_code g) ss)"
      by (simp add: filter_map comp_def row_def Let_def)
    also have "\<dots> = card (set (filter (\<lambda>s. the (game_name w s) = sm_code g) ss))"
      by (rule distinct_card[symmetric]) (simp add: ss(2))
    also have "set (filter (\<lambda>s. the (game_name w s) = sm_code g) ss) = {s. game_name w s = Some (sm_code g)}"
      using ss(3) by auto
    finally show ?thesis .
  qed
  then show ?thesis using built rows by blast
qed

end
