(* ===== verification/Json_Reader.thy ===== *)
theory Json_Reader
  imports Status_Json
begin

text \<open>
  A reader of JSON texts without white space, and that it reads a rendered document back: the
  specification of the text the status page writes.
\<close>

section \<open>The reader\<close>

text \<open>A number of a JSON text has no leading zeros.\<close>

definition number_text :: "bytes \<Rightarrow> bool" where
  "number_text ds \<longleftrightarrow> ds \<noteq> [] \<and> (hd ds = 48 \<longrightarrow> ds = [48])"

text \<open>
  The value at the head of a text and what follows it; the elements of an array after its opening
  bracket, of an object after its opening brace.  The fuel is at most the length of the text.
\<close>

fun read_json :: "nat \<Rightarrow> bytes \<Rightarrow> (json \<times> bytes) option"
  and read_elements :: "nat \<Rightarrow> bytes \<Rightarrow> (json list \<times> bytes) option"
  and read_members :: "nat \<Rightarrow> bytes \<Rightarrow> ((bytes \<times> json) list \<times> bytes) option" where
  "read_json 0 s = None"
| "read_json (Suc n) s = (case s of [] \<Rightarrow> None | c # t \<Rightarrow>
     if c = 34 then map_option (\<lambda>(x, r). (J_string x, r)) (json_string t)
     else if is_digit c then
       if number_text (takeWhile is_digit s) then Some (J_number (dec_value (takeWhile is_digit s)), dropWhile is_digit s) else None
     else if c = 91 then
       if take 1 t = [93] then Some (J_array [], tl t) else map_option (\<lambda>(xs, r). (J_array xs, r)) (read_elements n t)
     else if c = 123 then
       if take 1 t = [125] then Some (J_object [], tl t) else map_option (\<lambda>(xs, r). (J_object xs, r)) (read_members n t)
     else None)"
| "read_elements 0 s = None"
| "read_elements (Suc n) s = (case read_json n s of
     Some (x, c # r) \<Rightarrow> if c = 44 then map_option (\<lambda>(xs, r). (x # xs, r)) (read_elements n r)
       else if c = 93 then Some ([x], r) else None
   | _ \<Rightarrow> None)"
| "read_members 0 s = None"
| "read_members (Suc n) s = (case s of [] \<Rightarrow> None | q # t \<Rightarrow> if q \<noteq> 34 then None else (case json_string t of
     Some (k, e # r) \<Rightarrow> if e \<noteq> 58 then None else (case read_json n r of
       Some (x, c # r) \<Rightarrow> if c = 44 then map_option (\<lambda>(xs, r). ((k, x) # xs, r)) (read_members n r)
         else if c = 125 then Some ([(k, x)], r) else None
     | _ \<Rightarrow> None)
   | _ \<Rightarrow> None))"

text \<open>The whole text is one value.\<close>

definition read_document :: "bytes \<Rightarrow> json option" where
  "read_document s = (case read_json (length s) s of Some (j, []) \<Rightarrow> Some j | _ \<Rightarrow> None)"

section \<open>Reading what was rendered\<close>

text \<open>What fmt documents of decimal numbers: the digits of the number, without leading zeros.\<close>

locale json_laws = hex_laws +
  assumes dec_value_dec: "dec_value (fm_dec F n) = n"
    and dec_number: "number_text (fm_dec F n)"

text \<open>Keys are written as they are, so they must need no escapes.\<close>

definition plain :: "bytes \<Rightarrow> bool" where
  "plain k \<longleftrightarrow> (\<forall>c\<in>set k. 32 \<le> c \<and> c \<noteq> 34 \<and> c \<noteq> 92)"

fun plain_keys :: "json \<Rightarrow> bool" where
  "plain_keys (J_array xs) = (\<forall>x\<in>set xs. plain_keys x)"
| "plain_keys (J_object kvs) = (\<forall>kv\<in>set kvs. plain (fst kv) \<and> plain_keys (snd kv))"
| "plain_keys _ = True"

lemma plain_key_read: "plain k \<Longrightarrow> json_string (k @ 34 # rest) = Some (k, rest)"
  by (induction k) (auto simp: plain_def)

text \<open>What may follow a number.\<close>

definition ends_number :: "bytes \<Rightarrow> bool" where
  "ends_number rest \<longleftrightarrow> rest = [] \<or> \<not> is_digit (hd rest)"

lemma ends_number_cases [simp]: "ends_number []" "ends_number (44 # r)" "ends_number (93 # r)" "ends_number (125 # r)"
  by (simp_all add: ends_number_def is_digit_def)

definition reads_back :: "fmt_api \<Rightarrow> json \<Rightarrow> bool" where
  "reads_back F j \<longleftrightarrow> (\<forall>n rest. length (render F j) \<le> n \<and> ends_number rest \<longrightarrow>
     read_json n (render F j @ rest) = Some (j, rest))"

definition member_text :: "fmt_api \<Rightarrow> bytes \<times> json \<Rightarrow> bytes" where
  "member_text F kv = [34] @ fst kv @ [34, 58] @ render F (snd kv)"

lemma render_object: "render F (J_object kvs) = [123] @ commas (map (member_text F) kvs) @ [125]"
  by (simp add: member_text_def[abs_def])

lemma commas_Cons: "commas (x # xs) = x @ (if xs = [] then [] else 44 # commas xs)"
  by (cases xs) simp_all

lemma elements_read:
  assumes "xs \<noteq> []" "\<forall>x\<in>set xs. reads_back F x" "length (commas (map (render F) xs)) < n"
  shows "read_elements n (commas (map (render F) xs) @ 93 # rest) = Some (xs, rest)"
  using assms
proof (induction xs arbitrary: n)
  case (Cons x xs)
  obtain m where m: "n = Suc m" using Cons.prems(3) by (cases n) auto
  have x: "read_json m (render F x @ r) = Some (x, r)" if "ends_number r" for r
    using Cons.prems(2,3) that m by (simp add: reads_back_def commas_Cons split: if_splits)
  show ?case
  proof (cases "xs = []")
    case True
    then show ?thesis using x[of "93 # rest"] m by simp
  next
    case False
    then have "read_elements m (commas (map (render F) xs) @ 93 # rest) = Some (xs, rest)"
      using Cons.prems m by (intro Cons.IH) (auto simp: commas_Cons)
    then show ?thesis using x[of "44 # commas (map (render F) xs) @ 93 # rest"] m False by (simp add: commas_Cons)
  qed
qed simp

lemma members_read:
  assumes "kvs \<noteq> []" "\<forall>kv\<in>set kvs. plain (fst kv) \<and> reads_back F (snd kv)"
    "length (commas (map (member_text F) kvs)) < n"
  shows "read_members n (commas (map (member_text F) kvs) @ 125 # rest) = Some (kvs, rest)"
  using assms
proof (induction kvs arbitrary: n)
  case (Cons kv kvs)
  obtain k x where kv: "kv = (k, x)" by (cases kv)
  obtain m where m: "n = Suc m" using Cons.prems(3) by (cases n) auto
  have x: "read_json m (render F x @ r) = Some (x, r)" if "ends_number r" for r
    using Cons.prems(2,3) that m kv by (simp add: reads_back_def commas_Cons member_text_def split: if_splits)
  have key: "json_string (k @ 34 # r) = Some (k, r)" for r using Cons.prems(2) kv by (simp add: plain_key_read)
  have shape: "member_text F (k, x) = 34 # k @ 34 # 58 # render F x" by (simp add: member_text_def)
  show ?case
  proof (cases "kvs = []")
    case True
    then show ?thesis using x[of "125 # rest"] m key by (simp add: shape kv)
  next
    case False
    then have "read_members m (commas (map (member_text F) kvs) @ 125 # rest) = Some (kvs, rest)"
      using Cons.prems m by (intro Cons.IH) (auto simp: commas_Cons)
    then show ?thesis
      using x[of "44 # commas (map (member_text F) kvs) @ 125 # rest"] m False key
      by (simp add: commas_Cons shape kv)
  qed
qed simp

context json_laws begin

lemma dec_read:
  assumes "ends_number rest"
  shows "takeWhile is_digit (fm_dec F n @ rest) = fm_dec F n" "dropWhile is_digit (fm_dec F n @ rest) = rest"
proof -
  have d: "\<forall>c\<in>set (fm_dec F n). is_digit c" using dec_digits by (auto simp: is_digit_def)
  show "takeWhile is_digit (fm_dec F n @ rest) = fm_dec F n" "dropWhile is_digit (fm_dec F n @ rest) = rest"
    using d assms by (cases rest; simp add: ends_number_def takeWhile_append dropWhile_append)+
qed

lemma dec_head: "\<exists>c cs. fm_dec F n = c # cs \<and> is_digit c"
proof -
  have "fm_dec F n \<noteq> []" using dec_number[of n] by (simp add: number_text_def)
  then show ?thesis using dec_digits[of _ n] by (cases "fm_dec F n") (auto simp: is_digit_def)
qed

lemma not_digit [simp]: "\<not> is_digit 34" "\<not> is_digit 91" "\<not> is_digit 123" "is_digit c \<Longrightarrow> c \<noteq> 34" "is_digit c \<Longrightarrow> c \<noteq> 93"
  by (auto simp: is_digit_def)

lemma render_head: "\<exists>c cs. render F j = c # cs \<and> c \<noteq> 93"
proof (cases j)
  case (J_number n)
  then show ?thesis using dec_head[of n] not_digit(5) by auto
qed simp_all

lemma string_reads_back: "reads_back F (J_string s)"
proof -
  have "read_json n (render F (J_string s) @ rest) = Some (J_string s, rest)" if "length (render F (J_string s)) \<le> n" for n rest
    using that json_string_escaped[of s rest] by (cases n) simp_all
  then show ?thesis by (simp add: reads_back_def)
qed

lemma number_reads_back: "reads_back F (J_number k)"
proof -
  have "read_json n (render F (J_number k) @ rest) = Some (J_number k, rest)"
    if n: "length (render F (J_number k)) \<le> n" and r: "ends_number rest" for n rest
  proof -
    obtain c cs where c: "fm_dec F k = c # cs" "is_digit c" using dec_head by blast
    then obtain m where "n = Suc m" using n by (cases n) auto
    then show ?thesis
      using c dec_read[OF r, of k] dec_number[of k] dec_value_dec[of k] by simp
  qed
  then show ?thesis by (simp add: reads_back_def)
qed

lemma render_reads_back: "plain_keys j \<Longrightarrow> reads_back F j"
proof (induction j rule: plain_keys.induct)
  case (1 xs)
  have all: "\<forall>x\<in>set xs. reads_back F x" using 1 by simp
  have "read_json n (render F (J_array xs) @ rest) = Some (J_array xs, rest)" if n: "length (render F (J_array xs)) \<le> n" for n rest
  proof -
    obtain m where m: "n = Suc m" using n by (cases n) auto
    show ?thesis
    proof (cases xs)
      case (Cons x ys)
      obtain c cs where c: "render F x = c # cs" "c \<noteq> 93" using render_head by blast
      then have "take 1 (commas (map (render F) xs) @ 93 # rest) \<noteq> [93]" using Cons by (simp add: commas_Cons)
      moreover have "read_elements m (commas (map (render F) xs) @ 93 # rest) = Some (xs, rest)"
        using n m Cons by (intro elements_read all) auto
      ultimately show ?thesis using m by simp
    qed (simp add: m)
  qed
  then show ?case by (simp add: reads_back_def)
next
  case (2 kvs)
  have all: "\<forall>kv\<in>set kvs. plain (fst kv) \<and> reads_back F (snd kv)" using 2 by simp
  have "read_json n (render F (J_object kvs) @ rest) = Some (J_object kvs, rest)" if n: "length (render F (J_object kvs)) \<le> n" for n rest
  proof -
    obtain m where m: "n = Suc m" using n by (cases n) auto
    show ?thesis
    proof (cases kvs)
      case (Cons kv ys)
      then have "take 1 (commas (map (member_text F) kvs) @ 125 # rest) \<noteq> [125]" by (simp add: commas_Cons member_text_def)
      moreover have "read_members m (commas (map (member_text F) kvs) @ 125 # rest) = Some (kvs, rest)"
        using n m Cons unfolding render_object by (intro members_read all) auto
      ultimately show ?thesis using m unfolding render_object by simp
    qed (simp add: m)
  qed
  then show ?case by (simp add: reads_back_def)
qed (simp_all add: string_reads_back number_reads_back)

lemma read_document_render: "plain_keys j \<Longrightarrow> read_document (render F j) = Some j"
  using render_reads_back[of j, unfolded reads_back_def, rule_format, of "length (render F j)" "[]"]
  by (simp add: read_document_def)

end

lemma plain_status_doc: "plain_keys (status_doc d games)"
  by (auto simp: status_doc_def game_doc_def group_doc_def user_doc_def ports_doc_def Let_def plain_def ascii_def)

section \<open>The instance\<close>

lemma dec_text_number: "number_text (dec_text n) \<and> (0 < n \<longrightarrow> hd (dec_text n) \<noteq> 48)"
proof (induction n rule: dec_text.induct)
  case (1 n)
  show ?case
  proof (cases "n < 10")
    case True
    have "(of_nat (48 + n) :: byte) = 48 \<longrightarrow> n = 0" using digit_value[OF True] by (auto simp del: of_nat_add)
    then show ?thesis using True by (subst (1 2) dec_text.simps) (auto simp: number_text_def simp del: of_nat_add)
  next
    case False
    then have "number_text (dec_text (n div 10))" "hd (dec_text (n div 10)) \<noteq> 48" using 1 by simp_all
    then show ?thesis using False by (subst (1 2) dec_text.simps) (simp add: number_text_def)
  qed
qed

interpretation sj: json_laws std_fmt
  using dec_text_number by unfold_locales (simp_all add: std_fmt_def dec_value_text)

end
