(* ===== verification/Status_Properties.thy ===== *)
theory Status_Properties
  imports Status_Page Json_Reader
begin

text \<open>
  The properties of the status page.
\<close>

lemma ex_world_rows:
  assumes "snapshot_for_status ex_world = Some us"
  shows "firsts su_product_code us = [ex_code]"
proof -
  have "us = status_rows ex_world (w_games ex_world)"
    using assms snapshot_eq[OF reading_links(1)[OF ex_server_inv]] by simp
  then have "map su_product_code us = [ex_code, ex_code, ex_code]"
    by (simp add: status_rows_def status_of_def Let_def ex_world_def)
  then show ?thesis by (simp add: firsts_def)
qed

lemma ex_world_db: "w_db ex_world = Some \<lparr>tb_productids = [(ex_code, ascii ''Game'')], tb_crosslinks = []\<rparr>"
  by (simp add: ex_world_def)

text \<open>
  C36: The games of the page are the rows of the registry's snapshot grouped by product code, and within
  a game by group name (Groupless for a session outside every group), each in order of first appearance
  and with every row exactly once; a game's name is the recorded one and its count that of its rows.
\<close>

theorem status_groups_users:
  assumes "sqlite_tables api ok names links" "server_inv w" "w_db w = Some h" "ok h"
  shows "\<exists>us. snapshot_for_status w = Some us \<and> build_status_games api w = Some
    (Inr (grouped su_product_code (\<lambda>c rows. \<lparr>sm_code = c, sm_name = (case names h c of Some n \<Rightarrow> n | None \<Rightarrow> c),
        sm_user_count = length rows,
        sm_groups = grouped (\<lambda>u. case su_group u of Some n \<Rightarrow> n | None \<Rightarrow> ascii ''Groupless'')
          (\<lambda>n rows. \<lparr>sg_name = n, sg_users = map (\<lambda>u. \<lparr>gu_name = su_name u, gu_mac = su_mac u\<rparr>) rows\<rparr>) rows,
        sm_group_index = index_of (firsts (\<lambda>u. case su_group u of Some n \<Rightarrow> n | None \<Rightarrow> ascii ''Groupless'') rows)\<rparr>) us), Some h)"
proof -
  obtain us where us: "snapshot_for_status w = Some us" using snapshot_eq[OF reading_links(1)[OF assms(2)]] by blast
  note games_built[OF assms(1) us assms(3,4)]
  moreover have "(\<lambda>u. case su_group u of Some n \<Rightarrow> n | None \<Rightarrow> ascii ''Groupless'') = group_key"
    by (auto simp: fun_eq_iff group_key_def groupless_def split: option.split)
  ultimately show ?thesis
    using us by (simp add: games_of_def game_of_def[abs_def] group_of_def[abs_def])
qed

theorem status_groups_users_witness:
  "\<exists>games h. build_status_games table_api ex_world = Some (Inr games, h) \<and> length games = 1"
proof -
  obtain us where us: "snapshot_for_status ex_world = Some us"
    "\<exists>g. build_status_games table_api ex_world = Some (Inr (grouped su_product_code g us), w_db ex_world)"
    using status_groups_users[OF tb.sqlite_tables_axioms ex_server_inv ex_world_db TrueI] unfolding ex_world_db by blast
  then show ?thesis using ex_world_rows[OF us(1)] by (fastforce simp: grouped_def)
qed

lemma ex_world_games: "\<exists>games. build_status_games table_api ex_world = Some (Inr games, w_db ex_world) \<and> length games = 1"
proof -
  obtain us where us: "snapshot_for_status ex_world = Some us" using snapshot_eq[OF reading_links(1)[OF ex_server_inv]] by blast
  show ?thesis
    using games_built[OF tb.sqlite_tables_axioms us ex_world_db TrueI] ex_world_rows[OF us] unfolding ex_world_db
    by (simp add: games_of_def grouped_def)
qed

text \<open>
  C37: The answer to a request, and that it is JSON, when no step of the database fails while the games are
  gathered.  A GET of /data.json is answered 200 with the
  rendering of the document of the games (each an object with its name, user count, product code and
  groups, each group with its name, user count and users, each user with its name and the ports the relay
  directory shows for its MAC); every other request is answered 404, without asking the database.
  Whatever bytes clients put into their nicknames, a JSON reader (without white space; numbers without
  leading zeros, control characters in strings refused, the escapes undone) reads the text, up to its end,
  as exactly that document: no nickname breaks out of its string, and none is lost.  The documented forms
  of fmt's numbers are a hypothesis.
\<close>

theorem status_json_roundtrip:
  assumes "json_laws F" "build_status_games api w = Some (Inr games, h)"
  shows "\<exists>body. status_response api F req w d = Some (
      if rq_get req \<and> rq_target req = ascii ''/data.json'' then
        (Inr \<lparr>rp_status = 200, rp_content_type = ascii ''application/json; charset=utf-8'',
           rp_body = body, rp_keep_alive = rq_keep_alive req\<rparr>, h)
      else (Inr \<lparr>rp_status = 404, rp_content_type = ascii ''text/plain; charset=utf-8'',
           rp_body = ascii ''Not Found'', rp_keep_alive = rq_keep_alive req\<rparr>, w_db w))
    \<and> body = render F (status_doc d games) \<and> read_document body = Some (status_doc d games)"
  using json_laws.read_document_render[OF assms(1) plain_status_doc[of d games]] assms(2)
  by (simp add: status_response_def build_status_json_def games_text_eq)

theorem status_json_roundtrip_witness:
  "\<exists>games body. status_response table_api std_fmt \<lparr>rq_get = True, rq_target = ascii ''/data.json'', rq_keep_alive = True\<rparr>
      ex_world [([1, 2, 3, 4, 5, 6], \<lparr>ps_pdp = [7, 80], ps_ptp = []\<rparr>)]
    = Some (Inr \<lparr>rp_status = 200, rp_content_type = ascii ''application/json; charset=utf-8'',
         rp_body = body, rp_keep_alive = True\<rparr>, w_db ex_world)
    \<and> length games = 1 \<and> read_document body = Some (status_doc [([1, 2, 3, 4, 5, 6], \<lparr>ps_pdp = [7, 80], ps_ptp = []\<rparr>)] games)"
proof -
  obtain games where games: "build_status_games table_api ex_world = Some (Inr games, w_db ex_world)" "length games = 1"
    using ex_world_games by blast
  show ?thesis using status_json_roundtrip[OF sj.json_laws_axioms games(1)] games(2) by fastforce
qed

end
