(* ===== verification/Cli.thy ===== *)
theory Cli
  imports Relay_Names Protocol
begin

text \<open>
  The command line of \<^verbatim>\<open>source/main.cpp\<close>: which argument is which endpoint, how an
  endpoint is parsed, and the exit status.  The two regular expressions are literals of the source and are
  written out as matchers; what Boost.Asio and scnlib do with the matched pieces is a parameter.
\<close>

section \<open>Parameters\<close>

text \<open>
  \<open>na_dot\<close>: whether the dot of a regular expression matches a byte; \<open>na_scan10\<close> and
  \<open>na_scan8\<close>: \<^verbatim>\<open>scn::scan_int\<close> of a 16-bit integer in these bases;
  \<open>na_v4\<close>, \<open>na_v6\<close>: \<^verbatim>\<open>make_address_v4\<close> and \<^verbatim>\<open>_v6\<close> with
  their error code; \<open>na_any\<close>: the address of \<^verbatim>\<open>tcp::v4()\<close>; \<open>na_path\<close>: whether a
  path fits a UNIX socket endpoint, whose constructor throws otherwise; \<open>na_message\<close>:
  \<^verbatim>\<open>error_code::message\<close>; \<open>na_fmt\<close>: the conversions of fmt.
\<close>

datatype errc = Invalid_argument | Value_too_large | Address_error nat


record 'a net_api =
  na_dot :: "byte \<Rightarrow> bool"
  na_scan10 :: "bytes \<Rightarrow> u16 option"
  na_scan8 :: "bytes \<Rightarrow> u16"
  na_v4 :: "bytes \<Rightarrow> nat + 'a"
  na_v6 :: "bytes \<Rightarrow> nat + 'a"
  na_any :: 'a
  na_path :: "bytes \<Rightarrow> bool"
  na_message :: "errc \<Rightarrow> bytes"
  na_fmt :: fmt_api

text \<open>
  The exceptions that reach \<^verbatim>\<open>main\<close>: \<^verbatim>\<open>usage_error\<close> with its text, or
  any other, whose text is that of a library.
\<close>

datatype cli_exn = Usage bytes | System_error

text \<open>\<^verbatim>\<open>parsed_endpoint\<close>.\<close>

datatype 'a endpoint = Ep_none | Ep_error errc | Ep_tcp 'a u16 | Ep_unix "u16 option" bytes

section \<open>The regular expressions\<close>

definition is_octal :: "byte \<Rightarrow> bool" where "is_octal c \<longleftrightarrow> 48 \<le> c \<and> c \<le> 55"

definition is_v6_char :: "byte \<Rightarrow> bool" where
  "is_v6_char c \<longleftrightarrow> c = 58 \<or> is_digit c \<or> 97 \<le> c \<and> c \<le> 102 \<or> 65 \<le> c \<and> c \<le> 70"

text \<open>\<^verbatim>\<open>unix:(?:([0-7]{3}):)?(.+)\<close>; the optional part is tried first.\<close>

definition match_unix :: "(byte \<Rightarrow> bool) \<Rightarrow> bytes \<Rightarrow> (bytes option \<times> bytes) option" where
  "match_unix dot s =
     (if take 5 s \<noteq> ascii ''unix:'' then None
      else let r = drop 5 s; path = drop 4 r in
        if length r > 4 \<and> list_all is_octal (take 3 r) \<and> r ! 3 = 58 \<and> list_all dot path then Some (Some (take 3 r), path)
        else if r \<noteq> [] \<and> list_all dot r then Some (None, r) else None)"

fun split_on :: "byte \<Rightarrow> bytes \<Rightarrow> bytes list" where
  "split_on c [] = [[]]"
| "split_on c (x # xs) = (if x = c then [] # split_on c xs
     else case split_on c xs of [] \<Rightarrow> [[x]] | p # ps \<Rightarrow> (x # p) # ps)"

definition digits :: "bytes \<Rightarrow> bool" where
  "digits s \<longleftrightarrow> s \<noteq> [] \<and> list_all is_digit s"

text \<open>\<^verbatim>\<open>\d+\.\d+\.\d+\.\d+\<close>\<close>

definition dotted_quad :: "bytes \<Rightarrow> bool" where
  "dotted_quad s \<longleftrightarrow> length (split_on 46 s) = 4 \<and> list_all digits (split_on 46 s)"

datatype host = Host_none | Host_v4 bytes | Host_v6 bytes

text \<open>
  \<^verbatim>\<open>(?:(?:(\d+\.\d+\.\d+\.\d+)|\[([:a-fA-F0-9]+)\]):)?(\d+)\<close>: the port are the digits at the
  end, and what is before them is empty, or a host and a colon.
\<close>

definition match_tcp :: "bytes \<Rightarrow> (host \<times> bytes) option" where
  "match_tcp s = (let port = rev (takeWhile is_digit (rev s)); pre = rev (dropWhile is_digit (rev s)) in
     if port = [] then None
     else if pre = [] then Some (Host_none, port)
     else if last pre \<noteq> 58 then None
     else let host = butlast pre in
       if dotted_quad host then Some (Host_v4 host, port)
       else if length host \<ge> 3 \<and> hd host = 91 \<and> last host = 93 \<and> list_all is_v6_char (butlast (tl host))
       then Some (Host_v6 (butlast (tl host)), port) else None)"

definition parse_endpoint :: "'a net_api \<Rightarrow> bytes \<Rightarrow> cli_exn + 'a endpoint" where
  "parse_endpoint N s = (case match_unix (na_dot N) s of
     Some (perms, path) \<Rightarrow> if na_path N path then Inr (Ep_unix (map_option (na_scan8 N) perms) path) else Inl System_error
   | None \<Rightarrow> Inr (case match_tcp s of
       None \<Rightarrow> Ep_error Invalid_argument
     | Some (host, port) \<Rightarrow> (case na_scan10 N port of
         None \<Rightarrow> Ep_error Value_too_large
       | Some p \<Rightarrow> (case host of
           Host_none \<Rightarrow> Ep_tcp (na_any N) p
         | Host_v4 t \<Rightarrow> (case na_v4 N t of Inl e \<Rightarrow> Ep_error (Address_error e) | Inr a \<Rightarrow> Ep_tcp a p)
         | Host_v6 t \<Rightarrow> (case na_v6 N t of Inl e \<Rightarrow> Ep_error (Address_error e) | Inr a \<Rightarrow> Ep_tcp a p)))))"

section \<open>The arguments\<close>

definition default_server_port :: u16 where [simp]: "default_server_port = 27312"

text \<open>\<^verbatim>\<open>fs::path(program).filename()\<close> on POSIX: what follows the last slash.\<close>

definition filename :: "bytes \<Rightarrow> bytes" where
  "filename p = rev (takeWhile (\<lambda>c. c \<noteq> 47) (rev p))"

text \<open>The class \<^verbatim>\<open>[ :()\[\]{}]\<close> of the search, and the quote around a name that has one.\<close>

definition needs_quotes :: "bytes \<Rightarrow> bool" where
  "needs_quotes base \<longleftrightarrow> list_ex (\<lambda>c. c \<in> set (ascii '' :()[]{}'')) base"

fun join_lines :: "bytes list \<Rightarrow> bytes" where
  "join_lines [] = []"
| "join_lines [l] = l"
| "join_lines (l # ls) = l @ 10 # join_lines ls"

text \<open>The text of the exception \<^verbatim>\<open>usage(program)\<close> throws.\<close>

definition usage :: "fmt_api \<Rightarrow> bytes \<Rightarrow> bytes" where
  "usage F program =
     (let base = filename program;
          quote = (if needs_quotes base then [34] else []);
          port = fm_dec F (unat default_server_port)
      in join_lines
        [ascii ''Usage: '' @ quote @ base @ quote @ ascii '' [server-endpoint] [status-endpoint] [--relay [relay-endpoint]]'',
         [],
         ascii ''  Endpoint format:'',
         ascii ''    '' @ port,
         ascii ''      Will bind to 0.0.0.0:'' @ port @ ascii '' (IPv4)'',
         ascii ''    1.2.3.4:'' @ port,
         ascii ''      Will bind to 1.2.3.4:'' @ port @ ascii '' (IPv4)'',
         ascii ''    [::1]:'' @ port,
         ascii ''      Will bind to [::1]:'' @ port @ ascii '' (IPv6)'',
         ascii ''    unix:/path/to/socket'',
         ascii ''      Will bind to /path/to/socket (UNIX socket)'',
         ascii ''    unix:770:/path/to/socket'',
         ascii ''      Will bind to /path/to/socket with 770 permissions (UNIX socket)'',
         [],
         ascii ''  When server-endpoint is not provided, the server binds to 0.0.0.0:'' @ port @ ascii ''.'',
         ascii ''  When status-endpoint is not provided, the status endpoint will not be'',
         ascii ''  started.'',
         ascii ''  When --relay is provided without an argument, the relay binds to the same'',
         ascii ''  address as the game server on the next port number.''])"

definition has_help_argument :: "bytes list \<Rightarrow> bool" where
  "has_help_argument args = (case args of
     [] \<Rightarrow> False
   | first # _ \<Rightarrow> first \<in> {ascii ''-h'', ascii ''-help'', ascii ''--help'', ascii ''/h'', ascii ''-?'', ascii ''/?''})"

definition next_port :: "'a endpoint \<Rightarrow> 'a endpoint" where
  "next_port e = (case e of
     Ep_tcp a p \<Rightarrow> if p = 65535 then Ep_error Value_too_large else Ep_tcp a (p + 1)
   | _ \<Rightarrow> Ep_error Invalid_argument)"

text \<open>The line \<^verbatim>\<open>handle_parsing_error\<close> prints, if any, and its answer.\<close>

definition handle_parsing_error :: "'a net_api \<Rightarrow> bytes \<Rightarrow> 'a endpoint \<Rightarrow> bytes list \<times> bool" where
  "handle_parsing_error N arg e = (case e of
     Ep_error ec \<Rightarrow> ([ascii ''Error parsing '' @ arg @ ascii ''-endpoint: '' @ na_message N ec], True)
   | _ \<Rightarrow> ([], False))"

definition relay_flag :: bytes where "relay_flag = ascii ''--relay''"

text \<open>
  \<^verbatim>\<open>try_main\<close> up to the first socket: the lines it printed on \<^verbatim>\<open>err_out\<close>,
  and the endpoints or an exception.  \<^term>\<open>None\<close> is the undefined
  \<^verbatim>\<open>argv.subspan(1u)\<close> of an empty \<^verbatim>\<open>argv\<close>.
\<close>

definition endpoints_of :: "'a net_api \<Rightarrow> bytes \<Rightarrow> bytes list \<Rightarrow> bytes list option \<Rightarrow>
    bytes list \<times> (cli_exn + 'a endpoint \<times> 'a endpoint \<times> 'a endpoint)" where
  "endpoints_of N program server_args relay =
     (case (case server_args of [] \<Rightarrow> Inr (Ep_tcp (na_any N) default_server_port) | a # _ \<Rightarrow> parse_endpoint N a) of
        Inl x \<Rightarrow> ([], Inl x)
      | Inr game \<Rightarrow>
      case (case server_args of _ # a # _ \<Rightarrow> parse_endpoint N a | _ \<Rightarrow> Inr Ep_none) of
        Inl x \<Rightarrow> ([], Inl x)
      | Inr status \<Rightarrow>
      case (case relay of None \<Rightarrow> Inr Ep_none | Some [] \<Rightarrow> Inr (next_port game) | Some (a # _) \<Rightarrow> parse_endpoint N a) of
        Inl x \<Rightarrow> ([], Inl x)
      | Inr rel \<Rightarrow>
      case handle_parsing_error N (ascii ''server'') game of (l1, e1) \<Rightarrow>
      case handle_parsing_error N (ascii ''status'') status of (l2, e2) \<Rightarrow>
      case handle_parsing_error N (ascii ''relay'') rel of (l3, e3) \<Rightarrow>
        (l1 @ l2 @ l3, if e3 \<or> e2 \<or> e1 then Inl (Usage (usage (na_fmt N) program)) else Inr (game, status, rel)))"

definition try_main :: "'a net_api \<Rightarrow> bytes list \<Rightarrow>
    (bytes list \<times> (cli_exn + 'a endpoint \<times> 'a endpoint \<times> 'a endpoint)) option" where
  "try_main N argv = (case argv of
     [] \<Rightarrow> None
   | program # args \<Rightarrow> Some (
     if has_help_argument args then ([], Inl (Usage (usage (na_fmt N) program)))
     else let
       has_relay = (relay_flag \<in> set args);
       relay_index = length (takeWhile (\<lambda>a. a \<noteq> relay_flag) args);
       server_args = (if has_relay then take relay_index args else args);
       relay_args = (if has_relay then drop (relay_index + 1) args else [])
     in if length server_args > 2 \<or> length relay_args > 1 then ([], Inl (Usage (usage (na_fmt N) program)))
        else endpoints_of N program server_args (if has_relay then Some relay_args else None)))"

text \<open>
  \<^verbatim>\<open>set_utf8_output\<close> of \<^verbatim>\<open>source/utf8.cpp\<close>: on Windows, what
  \<^verbatim>\<open>SetConsoleOutputCP\<close> answered; elsewhere nothing is done.
\<close>

definition set_utf8_output :: "int option \<Rightarrow> bool" where
  "set_utf8_output windows = (case windows of Some answer \<Rightarrow> answer \<noteq> 0 | None \<Rightarrow> True)"

text \<open>
  The exit status of \<^verbatim>\<open>main\<close>, given how the console was set up, how
  \<^verbatim>\<open>try_main\<close> ended, and whether the error message could be printed.
\<close>

definition main_status :: "int option \<Rightarrow> (cli_exn + unit) \<Rightarrow> bool \<Rightarrow> nat" where
  "main_status windows r printed =
     (if \<not> set_utf8_output windows then 1
      else case r of
        Inr _ \<Rightarrow> 0
      | Inl (Usage _) \<Rightarrow> if printed then 64 else 2
      | Inl System_error \<Rightarrow> if printed then 1 else 2)"

end
