(* ===== verification/Cli_Properties.thy ===== *)
theory Cli_Properties
  imports Cli
begin

text \<open>
  The properties of the command line.
\<close>

section \<open>The laws of the parameters, and an instance\<close>

definition octal_value :: "bytes \<Rightarrow> nat" where
  "octal_value s = foldl (\<lambda>acc c. acc * 8 + (unat c - 48)) 0 s"

text \<open>
  What scnlib documents of \<^verbatim>\<open>scan_int\<close>: the value of the digits in the base, or an
  error when it does not fit 16 bits, as three octal digits always do.
\<close>

locale net_laws =
  fixes N :: "'a net_api"
  assumes scan10: "digits s \<Longrightarrow> na_scan10 N s = (if dec_value s < 65536 then Some (of_nat (dec_value s)) else None)"
    and scan8: "length s = 3 \<Longrightarrow> list_all is_octal s \<Longrightarrow> na_scan8 N s = of_nat (octal_value s)"

text \<open>An instance, whose addresses are the texts; an IPv4 address has numbers below 256.\<close>

definition std_net :: "bytes net_api" where
  "std_net = \<lparr>na_dot = (\<lambda>c. c \<noteq> 10), na_scan10 = (\<lambda>s. if dec_value s < 65536 then Some (of_nat (dec_value s)) else None),
     na_scan8 = (\<lambda>s. of_nat (octal_value s)),
     na_v4 = (\<lambda>t. if \<forall>p\<in>set (split_on 46 t). dec_value p < 256 then Inr t else Inl 22), na_v6 = Inr,
     na_any = ascii ''0.0.0.0'', na_path = (\<lambda>s. length s < 108),
     na_message = (\<lambda>_. ascii ''invalid''), na_fmt = std_fmt\<rparr>"

interpretation sn: net_laws std_net
  by unfold_locales (simp_all add: std_net_def)

section \<open>Matching\<close>

lemma digits_rev_split:
  assumes "digits ds"
  shows "takeWhile is_digit (rev ds) = rev ds" "dropWhile is_digit (rev ds) = []"
    "takeWhile is_digit (rev ds @ 58 # xs) = rev ds" "dropWhile is_digit (rev ds @ 58 # xs) = 58 # xs"
proof -
  have all: "\<forall>c\<in>set (rev ds). is_digit c" and colon: "\<not> is_digit 58"
    using assms by (simp_all add: digits_def list_all_iff is_digit_def)
  show "takeWhile is_digit (rev ds) = rev ds" "dropWhile is_digit (rev ds) = []"
    using all by (simp_all add: takeWhile_eq_all_conv)
  show "takeWhile is_digit (rev ds @ 58 # xs) = rev ds" "dropWhile is_digit (rev ds @ 58 # xs) = 58 # xs"
    using all colon by (simp_all add: takeWhile_append dropWhile_append)
qed

lemma match_tcp_digits: "digits ds \<Longrightarrow> match_tcp ds = Some (Host_none, ds)"
  by (simp add: match_tcp_def digits_rev_split Let_def) (simp add: digits_def)

lemma match_tcp_v4: "digits ds \<Longrightarrow> dotted_quad t \<Longrightarrow> match_tcp (t @ [58] @ ds) = Some (Host_v4 t, ds)"
  by (simp add: match_tcp_def digits_rev_split Let_def) (simp add: digits_def)

lemma dotted_quad_digit:
  assumes "dotted_quad t"
  obtains c cs where "t = c # cs" "is_digit c"
proof (cases t)
  case Nil
  then show ?thesis using assms by (simp add: dotted_quad_def)
next
  case (Cons c cs)
  have "is_digit c"
  proof (cases "c = 46")
    case True
    then show ?thesis using assms Cons by (simp add: dotted_quad_def digits_def)
  next
    case False
    then show ?thesis using assms Cons by (auto simp: dotted_quad_def digits_def split: list.splits)
  qed
  then show ?thesis using Cons that by blast
qed

lemma digit_not_unix: "is_digit c \<Longrightarrow> match_unix dot (c # cs) = None"
  by (auto simp: match_unix_def ascii_def is_digit_def)

lemma match_unix_perms:
  assumes "length o3 = 3" "list_all is_octal o3" "path \<noteq> []" "list_all dot path"
  shows "match_unix dot (ascii ''unix:'' @ o3 @ [58] @ path) = Some (Some o3, path)"
proof -
  have "length (ascii ''unix:'') = 5" by (simp add: ascii_def)
  then show ?thesis using assms by (simp add: match_unix_def Let_def nth_append)
qed

lemma match_unix_path:
  assumes "path \<noteq> []" "list_all dot path" "\<nexists>o3 rest. path = o3 @ [58] @ rest \<and> length o3 = 3 \<and> list_all is_octal o3 \<and> rest \<noteq> []"
  shows "match_unix dot (ascii ''unix:'' @ path) = Some (None, path)"
proof -
  have five: "length (ascii ''unix:'') = 5" by (simp add: ascii_def)
  have "\<not> (length path > 4 \<and> list_all is_octal (take 3 path) \<and> path ! 3 = 58)"
  proof
    assume a: "length path > 4 \<and> list_all is_octal (take 3 path) \<and> path ! 3 = 58"
    then have "path = take 3 path @ [58] @ drop 4 path" using id_take_nth_drop[of 3 path] by simp
    moreover have "length (take 3 path) = 3" "drop 4 path \<noteq> []" using a by simp_all
    ultimately show False using assms(3) a by blast
  qed
  then show ?thesis using assms(1,2) five by (auto simp: match_unix_def Let_def)
qed

lemma match_tcp_v6:
  assumes "digits ds" "t \<noteq> []" "list_all is_v6_char t"
  shows "match_tcp ([91] @ t @ [93, 58] @ ds) = Some (Host_v6 t, ds)" "match_unix dot ([91] @ t @ [93, 58] @ ds) = None"
proof -
  have pre: "rev ([91] @ t @ [93, 58] @ ds) = rev ds @ 58 # (93 # rev t @ [91])" by simp
  have "\<not> dotted_quad (91 # t @ [93])" by (auto elim!: dotted_quad_digit simp: is_digit_def)
  moreover have "ds \<noteq> []" "Suc 0 \<le> length t" using assms(1,2) by (auto simp: digits_def Suc_le_eq)
  ultimately show "match_tcp ([91] @ t @ [93, 58] @ ds) = Some (Host_v6 t, ds)"
    using assms(3) unfolding match_tcp_def pre digits_rev_split[OF assms(1)] Let_def by (simp add: butlast_append)
  show "match_unix dot ([91] @ t @ [93, 58] @ ds) = None" by (simp add: match_unix_def ascii_def)
qed

section \<open>Arguments and endpoints\<close>

text \<open>
  The arguments before the first --relay are the game and the status endpoint, those after it are the
  relay endpoint; more than two or more than one of them are a usage error.
\<close>

lemma arguments_split:
  assumes "relay_flag \<notin> set sargs" "args = sargs @ (case r of None \<Rightarrow> [] | Some rargs \<Rightarrow> relay_flag # rargs)"
    "\<not> has_help_argument args"
  shows "try_main N (prog # args) = Some (if length sargs \<le> 2 \<and> (case r of None \<Rightarrow> True | Some rargs \<Rightarrow> length rargs \<le> 1)
    then endpoints_of N prog sargs r else ([], Inl (Usage (usage (na_fmt N) prog))))"
proof -
  have t: "takeWhile (\<lambda>a. a \<noteq> relay_flag) (sargs @ relay_flag # rargs) = sargs" for rargs
    using assms(1) by (subst takeWhile_append2) auto
  show ?thesis using assms by (cases r) (auto simp: try_main_def Let_def t)
qed

text \<open>
  C40: Endpoint texts.  A decimal number is that port on any IPv4 address, and a number above 65535 an
  error and never a wrapped port, with or without an address before it.  A dotted address, or an address in
  brackets, a colon and a number are what Boost.Asio makes of the address: an endpoint with that port, or
  the error it reports.  unix: and a path, of bytes the dot of the regular expression matches, is a socket at
  that path, with the permissions whose octal value three digits and a colon before it give, if they are
  there; a path too long for a socket address is an exception.
\<close>

theorem port_endpoint_roundtrip:
  assumes "net_laws N" "digits ds"
  shows "parse_endpoint N ds
      = Inr (if dec_value ds < 65536 then Ep_tcp (na_any N) (of_nat (dec_value ds)) else Ep_error Value_too_large)
    \<and> (dotted_quad t \<longrightarrow> parse_endpoint N (t @ [58] @ ds)
      = Inr (if dec_value ds \<ge> 65536 then Ep_error Value_too_large
          else case na_v4 N t of Inl e \<Rightarrow> Ep_error (Address_error e) | Inr a \<Rightarrow> Ep_tcp a (of_nat (dec_value ds))))
    \<and> (u \<noteq> [] \<and> list_all is_v6_char u \<longrightarrow> parse_endpoint N ([91] @ u @ [93, 58] @ ds)
      = Inr (if dec_value ds \<ge> 65536 then Ep_error Value_too_large
          else case na_v6 N u of Inl e \<Rightarrow> Ep_error (Address_error e) | Inr a \<Rightarrow> Ep_tcp a (of_nat (dec_value ds))))
    \<and> (path \<noteq> [] \<and> list_all (na_dot N) path \<longrightarrow>
        (length o3 = 3 \<and> list_all is_octal o3 \<longrightarrow> parse_endpoint N (ascii ''unix:'' @ o3 @ [58] @ path)
          = (if na_path N path then Inr (Ep_unix (Some (of_nat (octal_value o3))) path) else Inl System_error))
      \<and> ((\<nexists>p rest. path = p @ [58] @ rest \<and> length p = 3 \<and> list_all is_octal p \<and> rest \<noteq> []) \<longrightarrow>
          parse_endpoint N (ascii ''unix:'' @ path) = (if na_path N path then Inr (Ep_unix None path) else Inl System_error)))"
proof (intro conjI impI)
  note scan = net_laws.scan10[OF assms]
  obtain c cs where c: "ds = c # cs" "is_digit c" using assms(2) by (cases ds) (auto simp: digits_def)
  show "parse_endpoint N ds
      = Inr (if dec_value ds < 65536 then Ep_tcp (na_any N) (of_nat (dec_value ds)) else Ep_error Value_too_large)"
    using match_tcp_digits[OF assms(2)] scan digit_not_unix[OF c(2)] c(1) by (simp add: parse_endpoint_def)
  show "parse_endpoint N (t @ [58] @ ds) = Inr (if dec_value ds \<ge> 65536 then Ep_error Value_too_large
      else case na_v4 N t of Inl e \<Rightarrow> Ep_error (Address_error e) | Inr a \<Rightarrow> Ep_tcp a (of_nat (dec_value ds)))"
    if t: "dotted_quad t"
  proof -
    obtain d e where "t = d # e" "is_digit d" by (rule dotted_quad_digit[OF t])
    then show ?thesis using match_tcp_v4[OF assms(2) t] scan digit_not_unix[of d] by (simp add: parse_endpoint_def)
  qed
  show "parse_endpoint N ([91] @ u @ [93, 58] @ ds) = Inr (if dec_value ds \<ge> 65536 then Ep_error Value_too_large
      else case na_v6 N u of Inl e \<Rightarrow> Ep_error (Address_error e) | Inr a \<Rightarrow> Ep_tcp a (of_nat (dec_value ds)))"
    if "u \<noteq> [] \<and> list_all is_v6_char u"
    using match_tcp_v6[OF assms(2), of u] that scan unfolding parse_endpoint_def by simp
next
  assume p: "path \<noteq> [] \<and> list_all (na_dot N) path"
  show "parse_endpoint N (ascii ''unix:'' @ o3 @ [58] @ path)
      = (if na_path N path then Inr (Ep_unix (Some (of_nat (octal_value o3))) path) else Inl System_error)"
    if "length o3 = 3 \<and> list_all is_octal o3"
    using match_unix_perms[of o3 path "na_dot N"] net_laws.scan8[OF assms(1), of o3] that p by (simp add: parse_endpoint_def)
  show "parse_endpoint N (ascii ''unix:'' @ path) = (if na_path N path then Inr (Ep_unix None path) else Inl System_error)"
    if "\<nexists>p rest. path = p @ [58] @ rest \<and> length p = 3 \<and> list_all is_octal p \<and> rest \<noteq> []"
    using match_unix_path[of path "na_dot N"] that p by (simp add: parse_endpoint_def)
qed

theorem port_endpoint_roundtrip_witness:
  "parse_endpoint std_net (ascii ''8080'') = Inr (Ep_tcp (ascii ''0.0.0.0'') 8080)
    \<and> parse_endpoint std_net (ascii ''1.2.3.4'' @ [58] @ ascii ''8080'') = Inr (Ep_tcp (ascii ''1.2.3.4'') 8080)
    \<and> parse_endpoint std_net (ascii ''1.2.3.400'' @ [58] @ ascii ''8080'') = Inr (Ep_error (Address_error 22))
    \<and> parse_endpoint std_net ([91] @ ascii ''::1'' @ [93, 58] @ ascii ''8080'') = Inr (Ep_tcp (ascii ''::1'') 8080)
    \<and> parse_endpoint std_net (ascii ''1.2.3.4'' @ [58] @ ascii ''73616'') = Inr (Ep_error Value_too_large)
    \<and> parse_endpoint std_net (ascii ''unix:'' @ ascii ''770'' @ [58] @ ascii ''/tmp/s'') = Inr (Ep_unix (Some 504) (ascii ''/tmp/s''))"
proof -
  have d: "digits (ascii ''8080'')" "dec_value (ascii ''8080'') = 8080" "digits (ascii ''73616'')" "dec_value (ascii ''73616'') = 73616"
    by (simp_all add: digits_def is_digit_def dec_value_def ascii_def)
  have q: "dotted_quad (ascii ''1.2.3.4'')" "dotted_quad (ascii ''1.2.3.400'')"
    by (simp_all add: dotted_quad_def digits_def is_digit_def ascii_def)
  have u: "ascii ''::1'' \<noteq> []" "list_all is_v6_char (ascii ''::1'')" by (simp_all add: is_v6_char_def is_digit_def ascii_def)
  have a: "na_v4 std_net (ascii ''1.2.3.4'') = Inr (ascii ''1.2.3.4'')" "na_v4 std_net (ascii ''1.2.3.400'') = Inl 22"
    "na_v6 std_net (ascii ''::1'') = Inr (ascii ''::1'')" "na_any std_net = ascii ''0.0.0.0''"
    by (simp_all add: std_net_def dec_value_def ascii_def)
  have o: "length (ascii ''770'') = 3" "list_all is_octal (ascii ''770'')" "octal_value (ascii ''770'') = 504"
    "ascii ''/tmp/s'' \<noteq> []" "list_all (na_dot std_net) (ascii ''/tmp/s'')" "na_path std_net (ascii ''/tmp/s'')"
    by (simp_all add: is_octal_def octal_value_def std_net_def ascii_def)
  note r = port_endpoint_roundtrip[OF sn.net_laws_axioms d(1), unfolded d(2)]
    and big = port_endpoint_roundtrip[OF sn.net_laws_axioms d(3), unfolded d(4)]
  show ?thesis
    using r[of "ascii ''1.2.3.4''" "ascii ''::1''" "ascii ''/tmp/s''" "ascii ''770''"] r[of "ascii ''1.2.3.400''"]
      big[of "ascii ''1.2.3.4''"] q u a o by (simp del: append.simps append_Cons)
qed

end
