(* ===== verification/Process.thy ===== *)
theory Process
  imports Status Registry_Contract Relay_Server
begin

text \<open>
  The process: game server, relay and status page on one event loop (\<^verbatim>\<open>try_main\<close> of
  \<^verbatim>\<open>source/main.cpp\<close> from \<^verbatim>\<open>io_context\<close> on).  The status page reads the
  registry of the one and the directory of the other; the stop signal closes all three acceptors.
\<close>

record 'db process =
  pr_game :: "'db server"
  pr_relay :: relay_server
  pr_status_open :: bool
  pr_status_loop :: bool
  pr_status_conns :: nat

text \<open>
  At the start: whether there is a status acceptor and a relay acceptor.  Of the status page's
  connections it is kept how many are being served.
\<close>

definition process_init :: "'db option \<Rightarrow> bool \<Rightarrow> bool \<Rightarrow> 'db process" where
  "process_init h status relay = \<lparr>pr_game = server_init h,
     pr_relay = relay_server_init\<lparr>rv_open := relay, rv_loop := relay\<rparr>,
     pr_status_open = status, pr_status_loop = status, pr_status_conns = 0\<rparr>"

datatype 'db process_action =
    Game_step "'db action"
  | Relay_step relay_action
  | Status_accept status_accepted
  | Status_request http_request bool
  | Status_lost
  | Process_stop

definition process_stop :: "'db process \<Rightarrow> 'db process option" where
  "process_stop p = do {
     g \<leftarrow> on_stop_signal (pr_game p);
     Some (p\<lparr>pr_game := g, pr_relay := relay_stop (pr_relay p), pr_status_open := False\<rparr>) }"

text \<open>A socket was accepted for the status page, or accepting failed.\<close>

definition status_accept :: "status_accepted \<Rightarrow> 'db process \<Rightarrow> 'db process" where
  "status_accept a p = (case run_status_server_generic a (pr_status_open p) of (go_on, serve) \<Rightarrow>
     p\<lparr>pr_status_loop := go_on, pr_status_conns := pr_status_conns p + (if serve then 1 else 0)\<rparr>)"

text \<open>
  A connection of the status page delivers a request; the response is built from the registry and the
  directory as they are, and written with or without an error.  The connection ends after an exception,
  a failed write, or a request that does not ask to keep it.
\<close>

definition status_request :: "'db sqlite_api \<Rightarrow> fmt_api \<Rightarrow> http_request \<Rightarrow> bool \<Rightarrow> 'db process
    \<Rightarrow> ((exn + http_response) \<times> 'db process) option" where
  "status_request api F req write_error p = do {
     (r, h) \<leftarrow> status_response api F req (gs_world (pr_game p)) (rl_dir (rv_relay (pr_relay p)));
     let ends = (case r of Inl _ \<Rightarrow> True | Inr _ \<Rightarrow> write_error \<or> \<not> rq_keep_alive req);
     Some (r, p\<lparr>pr_game := (pr_game p)\<lparr>gs_world := (gs_world (pr_game p))\<lparr>w_db := h\<rparr>\<rparr>,
       pr_status_conns := pr_status_conns p - (if ends then 1 else 0)\<rparr>) }"

text \<open>The stop signal is delivered once, to the process; no part sees it alone.\<close>

definition process_enabled :: "'db process_action \<Rightarrow> 'db process \<Rightarrow> bool" where
  "process_enabled a p = (gs_running (pr_game p) \<and> (case a of
     Game_step a \<Rightarrow> a \<noteq> Stop_signal \<and> enabled a (pr_game p)
   | Relay_step a \<Rightarrow> a \<noteq> Relay_stop \<and> relay_enabled a (pr_relay p)
   | Status_accept a \<Rightarrow> pr_status_loop p \<and> (a = Sacc_aborted \<longrightarrow> \<not> pr_status_open p)
   | Status_request req err \<Rightarrow> 0 < pr_status_conns p
   | Status_lost \<Rightarrow> 0 < pr_status_conns p
   | Process_stop \<Rightarrow> enabled Stop_signal (pr_game p)))"

definition process_perform :: "'db sqlite_api \<Rightarrow> fmt_api \<Rightarrow> 'db process_action \<Rightarrow> 'db process \<Rightarrow> 'db process option" where
  "process_perform api F a p = (case a of
     Game_step a \<Rightarrow> map_option (\<lambda>g. p\<lparr>pr_game := g\<rparr>) (perform api a (pr_game p))
   | Relay_step a \<Rightarrow> Some (p\<lparr>pr_relay := relay_perform F a (pr_relay p)\<rparr>)
   | Status_accept a \<Rightarrow> Some (status_accept a p)
   | Status_request req err \<Rightarrow> map_option snd (status_request api F req err p)
   | Status_lost \<Rightarrow> Some (p\<lparr>pr_status_conns := pr_status_conns p - 1\<rparr>)
   | Process_stop \<Rightarrow> process_stop p)"

inductive process_reachable :: "'db sqlite_api \<Rightarrow> fmt_api \<Rightarrow> 'db option \<Rightarrow> 'db process \<Rightarrow> bool"
  for api :: "'db sqlite_api" and F :: fmt_api and h :: "'db option" where
  start: "process_reachable api F h (process_init h status relay)"
| step: "process_reachable api F h p \<Longrightarrow> process_enabled a p \<Longrightarrow> process_perform api F a p = Some p' \<Longrightarrow>
    process_reachable api F h p'"

section \<open>The status page is always defined\<close>

text \<open>Indices that an index map holds are in range.\<close>

definition in_range :: "('k, nat) umap \<Rightarrow> 'a list \<Rightarrow> bool" where
  "in_range m xs \<longleftrightarrow> (\<forall>k i. map_of m k = Some i \<longrightarrow> i < length xs)"

lemma try_emplace_range:
  assumes "in_range m xs" "try_emplace k (length xs) m = (ins, i, m')"
  shows "i < length (if ins then xs @ [x] else xs)" "in_range m' (if ins then xs @ [x] else xs)"
  using assms by (auto simp: try_emplace_def in_range_def map_add_def map_of_append less_SucI split: option.splits if_splits)

definition game_range :: "status_game \<Rightarrow> bool" where
  "game_range g \<longleftrightarrow> in_range (sm_group_index g) (sm_groups g)"

lemma add_to_game_range: "game_range g \<Longrightarrow> \<exists>g'. add_to_game u g = Some g' \<and> game_range g'"
proof -
  assume g: "game_range g"
  let ?k = "case su_group u of None \<Rightarrow> groupless | Some n \<Rightarrow> n"
  obtain ins i m where e: "try_emplace ?k (length (sm_groups g)) (sm_group_index g) = (ins, i, m)" by (metis prod_cases3)
  note r = try_emplace_range[OF g[unfolded game_range_def] e, of "\<lparr>sg_name = ?k, sg_users = []\<rparr>"]
  show ?thesis
    using r by (cases ins) (auto simp: add_to_game_def e at_def Let_def game_range_def in_range_def)
qed

lemma build_loop_defined:
  assumes "in_range index games" "\<forall>g\<in>set games. game_range g"
  shows "\<exists>r h'. build_loop api us games index h = Some (r, h')"
  using assms
proof (induction us arbitrary: games index h)
  case (Cons u us)
  obtain ins i m where e: "try_emplace (su_product_code u) (length games) index = (ins, i, m)" by (metis prod_cases3)
  obtain r h' where d: "(if ins then display_name_for api h (su_product_code u) else (Inr [], h)) = (r, h')"
    by (metis surj_pair)
  show ?case
  proof (cases r)
    case (Inl x)
    then show ?thesis using e d by simp
  next
    case (Inr name)
    define gs where "gs = (if ins then games @ [new_status_game (su_product_code u) name] else games)"
    have rng: "i < length gs" "in_range m gs"
      using try_emplace_range[OF Cons.prems(1) e] unfolding gs_def by auto
    have all: "\<forall>g\<in>set gs. game_range g"
      using Cons.prems(2) by (simp add: gs_def game_range_def in_range_def new_status_game_def)
    obtain g where g: "add_to_game u (gs ! i) = Some g" "game_range g"
      using add_to_game_range[of "gs ! i" u] all rng(1) by auto
    have "\<forall>g\<in>set (gs[i := g]). game_range g" using all g(2) by (auto dest: set_update_subset_insert[THEN subsetD])
    moreover have "in_range m (gs[i := g])" using rng(2) by (simp add: in_range_def)
    ultimately obtain q where "build_loop api us (gs[i := g]) m h' = Some q" using Cons.IH by fastforce
    then show ?thesis using e d Inr rng(1) g(1) by (simp add: at_def gs_def[symmetric] Let_def)
  qed
qed simp

lemma status_response_defined:
  assumes "server_inv w"
  shows "\<exists>r h. status_response api F req w d = Some (r, h)"
proof -
  obtain us where "snapshot_for_status w = Some us" using snapshot_eq[OF reading_links(1)[OF assms]] by blast
  moreover obtain r h where "build_loop api us [] [] (w_db w) = Some (r, h)"
    using build_loop_defined[of "[]" "[]" api us "w_db w"] by (auto simp: in_range_def)
  ultimately show ?thesis
    by (auto simp: status_response_def build_status_json_def build_status_games_def split: sum.split)
qed

section \<open>Every step of the process is defined\<close>

definition process_inv :: "fmt_api \<Rightarrow> 'db process \<Rightarrow> bool" where
  "process_inv F p \<longleftrightarrow> server_inv (gs_world (pr_game p)) \<and> relay_inv F {} (rv_relay (pr_relay p))"

lemma relay_perform_inv:
  assumes "relay_inv F {} (rv_relay v)" "relay_enabled a v"
  shows "relay_inv F {} (rv_relay (relay_perform F a v))"
  using relay_step_inv[OF assms] relay_accept_inv[OF assms(1)] assms(1)
  by (cases a) (auto simp: relay_perform_def run_relay_acceptor_def relay_stop_def split: relay_accepted.split)

lemma process_step_safe:
  assumes inv: "process_inv F p" and en: "process_enabled a p"
  shows "\<exists>p'. process_perform api F a p = Some p' \<and> process_inv F p'"
proof -
  have g: "server_inv (gs_world (pr_game p))" and r: "relay_inv F {} (rv_relay (pr_relay p))"
    using inv by (simp_all add: process_inv_def)
  show ?thesis
  proof (cases a)
    case (Game_step b)
    then obtain g' where "perform api b (pr_game p) = Some g'" "server_inv (gs_world g')"
      using perform_safe[OF g, of b api] en by (auto simp: process_enabled_def)
    then show ?thesis using Game_step r by (simp add: process_perform_def process_inv_def)
  next
    case (Relay_step b)
    then have "relay_inv F {} (rv_relay (relay_perform F b (pr_relay p)))"
      using relay_perform_inv[OF r] en by (simp add: process_enabled_def)
    then show ?thesis using Relay_step g by (simp add: process_perform_def process_inv_def)
  next
    case (Status_accept a)
    then show ?thesis using g r
      by (simp add: process_perform_def process_inv_def status_accept_def split: prod.split)
  next
    case Status_lost
    then show ?thesis using g r by (simp add: process_perform_def process_inv_def)
  next
    case (Status_request req err)
    obtain x h where "status_response api F req (gs_world (pr_game p)) (rl_dir (rv_relay (pr_relay p))) = Some (x, h)"
      using status_response_defined[OF g] by blast
    then show ?thesis using Status_request g r
      by (simp add: process_perform_def status_request_def process_inv_def server_inv_def Let_def)
  next
    case Process_stop
    obtain g' where "on_stop_signal (pr_game p) = Some g'" "server_inv (gs_world g')"
      using perform_safe[OF g, of Stop_signal api] en Process_stop by (auto simp: process_enabled_def perform_def)
    then show ?thesis using Process_stop r
      by (simp add: process_perform_def process_stop_def process_inv_def relay_stop_def)
  qed
qed

lemma process_reachable_inv: "process_reachable api F h p \<Longrightarrow> process_inv F p"
proof (induction rule: process_reachable.induct)
  case start
  then show ?case
    by (simp add: process_inv_def process_init_def server_init_def server_inv_init relay_server_init_def relay_inv_init)
next
  case (step p a p')
  then show ?case using process_step_safe[OF step.IH, of a api] by auto
qed

end
