(* ===== verification/Startup.thy ===== *)
theory Startup
  imports Cli_Properties Process
begin

text \<open>
  From the command line to the running process: \<^verbatim>\<open>to_acceptor\<close>, the opening of the product
  database and the starting of the three servers in \<^verbatim>\<open>try_main\<close> of
  \<^verbatim>\<open>source/main.cpp\<close>.
\<close>

section \<open>Acceptors\<close>

text \<open>
  The operating system, as Boost.Asio and \<^verbatim>\<open>std::filesystem\<close> show it: removing a file and
  setting permissions, whose errors are ignored, binding, which may throw
  (\<^term>\<open>False\<close>), and the local endpoint of a bound acceptor: its address as text with its
  port (the one the system chose, when it was asked for port 0), or its path.
\<close>

record ('a, 'o) os_api =
  os_remove :: "bytes \<Rightarrow> 'o \<Rightarrow> 'o"
  os_bind_unix :: "bytes \<Rightarrow> 'o \<Rightarrow> bool \<times> 'o"
  os_permissions :: "bytes \<Rightarrow> u16 \<Rightarrow> 'o \<Rightarrow> 'o"
  os_bind_tcp :: "'a \<Rightarrow> u16 \<Rightarrow> 'o \<Rightarrow> bool \<times> 'o"
  os_local_tcp :: "'a \<Rightarrow> u16 \<Rightarrow> 'o \<Rightarrow> bytes \<times> u16"
  os_local_unix :: "bytes \<Rightarrow> 'o \<Rightarrow> bytes"

text \<open>\<^verbatim>\<open>maybe_acceptor\<close>, with what the acceptor is bound to.\<close>

datatype 'a maybe_acceptor = No_acceptor | Tcp_acceptor 'a u16 | Unix_acceptor bytes

definition to_acceptor :: "('a, 'o) os_api \<Rightarrow> 'a endpoint \<Rightarrow> 'o \<Rightarrow> (cli_exn + 'a maybe_acceptor) \<times> 'o" where
  "to_acceptor S e os = (case e of
     Ep_unix perms path \<Rightarrow> (case os_bind_unix S path (os_remove S path os) of
       (False, os) \<Rightarrow> (Inl System_error, os)
     | (True, os) \<Rightarrow> (Inr (Unix_acceptor path),
         case perms of None \<Rightarrow> os | Some m \<Rightarrow> os_permissions S path m os))
   | Ep_tcp a p \<Rightarrow> (case os_bind_tcp S a p os of
       (False, os) \<Rightarrow> (Inl System_error, os)
     | (True, os) \<Rightarrow> (Inr (Tcp_acceptor a p), os))
   | _ \<Rightarrow> (Inr No_acceptor, os))"

definition is_acceptor_v :: "'a maybe_acceptor \<Rightarrow> bool" where
  "is_acceptor_v c = (case c of No_acceptor \<Rightarrow> False | _ \<Rightarrow> True)"

section \<open>Starting\<close>

definition describe_endpoint :: "fmt_api \<Rightarrow> ('a, 'o) os_api \<Rightarrow> 'o \<Rightarrow> 'a maybe_acceptor \<Rightarrow> bytes" where
  "describe_endpoint F S os acceptor = (case acceptor of
     Tcp_acceptor a p \<Rightarrow> (case os_local_tcp S a p os of (address, port) \<Rightarrow> address @ [58] @ fm_dec F (unat port))
   | Unix_acceptor path \<Rightarrow> ascii ''unix:'' @ os_local_unix S path os
   | No_acceptor \<Rightarrow> [])"

text \<open>
  What \<^verbatim>\<open>start_game_server\<close>, \<^verbatim>\<open>start_status_server\<close> and
  \<^verbatim>\<open>start_relay_server\<close> print before they start their server on an acceptor, if there is
  one.
\<close>

definition start_line :: "fmt_api \<Rightarrow> ('a, 'o) os_api \<Rightarrow> 'o \<Rightarrow> bytes \<Rightarrow> 'a maybe_acceptor \<Rightarrow> bytes list" where
  "start_line F S os name acceptor = (if is_acceptor_v acceptor
     then [name @ ascii '' server listening on '' @ describe_endpoint F S os acceptor] else [])"

text \<open>
  The acceptors are bound in this order, then the database is opened (\<open>db\<close>: what its constructor
  does, see Database), then a server is started on each acceptor there is.  The result is the acceptors,
  what was printed, and the process.
\<close>

definition start_servers :: "fmt_api \<Rightarrow> ('a, 'o) os_api \<Rightarrow> (exn + 'db option) \<Rightarrow> 'a endpoint \<times> 'a endpoint \<times> 'a endpoint \<Rightarrow> 'o
    \<Rightarrow> (cli_exn + ('a maybe_acceptor \<times> 'a maybe_acceptor \<times> 'a maybe_acceptor) \<times> bytes list \<times> 'db process) \<times> 'o" where
  "start_servers F S db eps os = (case eps of (game, status, relay) \<Rightarrow>
     case to_acceptor S game os of (Inl x, os) \<Rightarrow> (Inl x, os) | (Inr game_acceptor, os) \<Rightarrow>
     case to_acceptor S status os of (Inl x, os) \<Rightarrow> (Inl x, os) | (Inr status_acceptor, os) \<Rightarrow>
     case to_acceptor S relay os of (Inl x, os) \<Rightarrow> (Inl x, os) | (Inr relay_acceptor, os) \<Rightarrow>
     case db of Inl _ \<Rightarrow> (Inl System_error, os) | Inr h \<Rightarrow>
       (Inr ((game_acceptor, status_acceptor, relay_acceptor),
          start_line F S os (ascii ''Game'') game_acceptor @ start_line F S os (ascii ''Status'') status_acceptor
            @ start_line F S os (ascii ''Relay'') relay_acceptor,
          (process_init h (is_acceptor_v status_acceptor) (is_acceptor_v relay_acceptor))
            \<lparr>pr_game := (server_init h)\<lparr>gs_open := is_acceptor_v game_acceptor, gs_loop := is_acceptor_v game_acceptor\<rparr>\<rparr>), os))"

text \<open>The whole of \<^verbatim>\<open>try_main\<close> up to the event loop, with the lines on \<^verbatim>\<open>err_out\<close>.\<close>

definition run_program :: "'a net_api \<Rightarrow> ('a, 'o) os_api \<Rightarrow> (exn + 'db option) \<Rightarrow> bytes list \<Rightarrow> 'o
    \<Rightarrow> (bytes list \<times> (cli_exn + ('a maybe_acceptor \<times> 'a maybe_acceptor \<times> 'a maybe_acceptor) \<times> bytes list \<times> 'db process) \<times> 'o) option" where
  "run_program N S db argv os = map_option (\<lambda>(lines, r). (lines, case r of
     Inl x \<Rightarrow> (Inl x, os) | Inr eps \<Rightarrow> start_servers (na_fmt N) S db eps os)) (try_main N argv)"

section \<open>What is started\<close>

lemma to_acceptor_ok:
  assumes "to_acceptor S e os = (Inr c, os')"
  shows "c = (case e of Ep_tcp a p \<Rightarrow> Tcp_acceptor a p | Ep_unix _ path \<Rightarrow> Unix_acceptor path | _ \<Rightarrow> No_acceptor)"
  using assms by (cases e) (auto simp: to_acceptor_def split: prod.splits bool.splits)

lemma start_servers_ok:
  assumes "start_servers F S db (game, status, relay) os = (Inr ((g, s, r), log, p), os')"
  shows "\<exists>h o1 o2. db = Inr h \<and> to_acceptor S game os = (Inr g, o1) \<and> to_acceptor S status o1 = (Inr s, o2)
    \<and> to_acceptor S relay o2 = (Inr r, os')
    \<and> log = start_line F S os' (ascii ''Game'') g @ start_line F S os' (ascii ''Status'') s @ start_line F S os' (ascii ''Relay'') r
    \<and> p = (process_init h (is_acceptor_v s) (is_acceptor_v r))
          \<lparr>pr_game := (server_init h)\<lparr>gs_open := is_acceptor_v g, gs_loop := is_acceptor_v g\<rparr>\<rparr>"
  using assms by (auto simp: start_servers_def split: prod.splits sum.splits)

text \<open>An endpoint text that does not parse.\<close>

definition parsing_error :: "'a endpoint \<Rightarrow> bool" where
  "parsing_error e \<longleftrightarrow> (\<exists>ec. e = Ep_error ec)"

lemma handle_parsing_error_cases:
  "snd (handle_parsing_error N arg e) = parsing_error e" "fst (handle_parsing_error N arg e) = [] \<longleftrightarrow> \<not> parsing_error e"
  by (cases e; simp add: handle_parsing_error_def parsing_error_def)+

text \<open>A line on \<^verbatim>\<open>err_out\<close> means a usage error, and the usage text is that of the program.\<close>

lemma endpoints_of_result:
  assumes "endpoints_of N prog sargs relay = (lines, res)"
  shows "res = Inl (Usage t) \<Longrightarrow> t = usage (na_fmt N) prog" "lines \<noteq> [] \<Longrightarrow> res = Inl (Usage (usage (na_fmt N) prog))"
    "res = Inr (game, status, rel) \<Longrightarrow> \<not> parsing_error game \<and> \<not> parsing_error status \<and> \<not> parsing_error rel"
    "res = Inl (Usage t) \<Longrightarrow> lines \<noteq> []"
proof -
  have parse: "parse_endpoint N a \<noteq> Inl (Usage t)" for a t
    by (auto simp: parse_endpoint_def split: option.split prod.split)
  have h: "handle_parsing_error N arg e = (l, b) \<Longrightarrow> b = parsing_error e \<and> (l = [] \<longleftrightarrow> \<not> parsing_error e)" for arg e l b
    using handle_parsing_error_cases[of N arg e] by simp
  note e = assms[unfolded endpoints_of_def]
  show "res = Inl (Usage t) \<Longrightarrow> t = usage (na_fmt N) prog" "lines \<noteq> [] \<Longrightarrow> res = Inl (Usage (usage (na_fmt N) prog))"
    "res = Inr (game, status, rel) \<Longrightarrow> \<not> parsing_error game \<and> \<not> parsing_error status \<and> \<not> parsing_error rel"
    "res = Inl (Usage t) \<Longrightarrow> lines \<noteq> []"
    using e parse by (auto dest!: h split: sum.splits prod.splits if_splits list.splits option.splits)
qed

text \<open>The endpoints of a command line that is accepted.\<close>

lemma parse_endpoint_some: "parse_endpoint N s = Inr e \<Longrightarrow> e \<noteq> Ep_none"
  by (auto simp: parse_endpoint_def split: option.splits if_splits host.splits sum.splits)

lemma endpoints_of_ok:
  assumes "endpoints_of N prog sargs relay = (lines, Inr (game, status, rel))" "length sargs \<le> 2"
  shows "\<not> parsing_error game" "\<not> parsing_error status" "\<not> parsing_error rel" "game \<noteq> Ep_none"
    "status = Ep_none \<longleftrightarrow> length sargs \<noteq> 2" "rel = Ep_none \<longleftrightarrow> relay = None" "relay = Some [] \<Longrightarrow> rel = next_port game"
    "sargs = [] \<Longrightarrow> game = Ep_tcp (na_any N) default_server_port"
proof -
  note e = assms(1)[unfolded endpoints_of_def]
  show "\<not> parsing_error game" "\<not> parsing_error status" "\<not> parsing_error rel"
    using endpoints_of_result(3)[OF assms(1) refl] by simp_all
  show "game \<noteq> Ep_none" using e by (auto split: sum.splits prod.splits if_splits list.splits dest: parse_endpoint_some)
  have "next_port game \<noteq> Ep_none" by (simp add: next_port_def split: endpoint.split)
  then show "rel = Ep_none \<longleftrightarrow> relay = None" "relay = Some [] \<Longrightarrow> rel = next_port game"
    using e by (auto split: sum.splits prod.splits if_splits option.splits list.splits dest: parse_endpoint_some)
  show "status = Ep_none \<longleftrightarrow> length sargs \<noteq> 2"
    using e assms(2) by (cases sargs; cases "tl sargs")
      (auto split: sum.splits prod.splits if_splits option.splits list.splits dest: parse_endpoint_some)
  show "sargs = [] \<Longrightarrow> game = Ep_tcp (na_any N) default_server_port"
    using e by (auto split: sum.splits prod.splits if_splits)
qed

lemma endpoints_of_texts:
  assumes "endpoints_of N prog sargs relay = (lines, Inr (game, status, rel))"
  shows "sargs = a # as \<Longrightarrow> parse_endpoint N a = Inr game" "sargs = [a, b] \<Longrightarrow> parse_endpoint N b = Inr status"
    "relay = Some [c] \<Longrightarrow> parse_endpoint N c = Inr rel"
  using assms[unfolded endpoints_of_def] by (auto split: sum.splits prod.splits if_splits)

lemma split_args:
  "args = takeWhile (\<lambda>a. a \<noteq> f) args @ (if f \<in> set args then f # drop (length (takeWhile (\<lambda>a. a \<noteq> f) args) + 1) args else [])"
  by (induction args) auto

lemma is_acceptor_endpoint:
  assumes "to_acceptor S e os = (Inr c, os')" "\<not> parsing_error e"
  shows "is_acceptor_v c \<longleftrightarrow> e \<noteq> Ep_none" "c = No_acceptor \<longleftrightarrow> e = Ep_none"
  using to_acceptor_ok[OF assms(1)] assms(2) by (cases e; simp add: is_acceptor_v_def parsing_error_def)+

lemma next_port_no_wrap: "p \<noteq> 65535 \<Longrightarrow> unat (p + 1) = unat p + 1" for p :: u16
proof -
  assume "p \<noteq> 65535"
  then have "unat p \<noteq> 65535" by (simp add: word_unat_eq_iff)
  moreover have "unat p < 65536" using unsigned_less[of p] by simp
  ultimately show ?thesis by (simp add: unat_word_ariths)
qed

end
