(* ===== verification/Process_Properties.thy ===== *)
theory Process_Properties
  imports Process Status_Page Relay_Example
begin

text \<open>
  The properties of the process as a whole.
\<close>

section \<open>What the status page shows\<close>

text \<open>
  C31: The page tells the truth.  In every state that satisfies the invariants of the parts, as every
  reachable one does, with a working database, a GET of /data.json is answered with the rendering of
  games whose rows, of product code, group, nickname and MAC, are those of the logged-in sessions, each
  once; a game's user count is the number of sessions in it; every port shown for a MAC belongs to a
  relay session that is connected and registered it.  Answering changes neither server nor relay.
\<close>

theorem status_page_truthful:
  assumes "process_inv F p" "sqlite_tables api ok names links" "w = gs_world (pr_game p)" "w_db w = Some h" "ok h"
    and "r = rv_relay (pr_relay p)" "rq_get req" "rq_target req = ascii ''/data.json''"
  shows "\<exists>games p'. status_request api F req err p = Some (Inr \<lparr>rp_status = 200,
        rp_content_type = ascii ''application/json; charset=utf-8'', rp_body = render F (status_doc (rl_dir r) games),
        rp_keep_alive = rq_keep_alive req\<rparr>, p')
    \<and> pr_game p' = pr_game p \<and> pr_relay p' = pr_relay p
    \<and> mset (page_rows games) = image_mset (session_row w) (mset_set {s. game_name w s \<noteq> None})
    \<and> (\<forall>g\<in>set games. sm_user_count g = card {s. game_name w s = Some (sm_code g)})
    \<and> (\<forall>m ports k q. dir_find m (rl_dir r) = Some ports \<and> q \<in> set (ports_of k ports) \<longrightarrow>
        (\<exists>t<rl_next r. \<not> rs_finished (rl_sess r t) \<and> rs_registered (rl_sess r t) \<and> port_key (rl_sess r t) = (m, k, q)))"
proof -
  have inv: "server_inv w" "relay_inv F {} r" using assms(1,3,6) by (simp_all add: process_inv_def)
  obtain games where games: "build_status_games api w = Some (Inr games, Some h)"
    "mset (page_rows games) = image_mset (session_row w) (mset_set {s. game_name w s \<noteq> None})"
    "\<forall>g\<in>set games. sm_user_count g = card {s. game_name w s = Some (sm_code g)}"
    using page_of_sessions[OF inv(1) assms(2,4,5)] by blast
  have ports: "\<exists>t<rl_next r. \<not> rs_finished (rl_sess r t) \<and> rs_registered (rl_sess r t) \<and> port_key (rl_sess r t) = (m, k, q)"
    if "dir_find m (rl_dir r) = Some ports" "q \<in> set (ports_of k ports)" for m ports k q
  proof -
    have "(m, k, q) \<in> dir_has (rl_dir r)" using that by (simp add: dir_has_def dir_find_def)
    then show ?thesis using relay_invD(5)[OF inv(2)] unfolding dir_ok_def active_def by fastforce
  qed
  have world: "(pr_game p)\<lparr>gs_world := w\<lparr>w_db := Some h\<rparr>\<rparr> = pr_game p" using assms(3,4) by simp
  define p' where "p' = p\<lparr>pr_status_conns := pr_status_conns p - (if err \<or> \<not> rq_keep_alive req then 1 else 0)\<rparr>"
  have "status_request api F req err p = Some (Inr \<lparr>rp_status = 200,
        rp_content_type = ascii ''application/json; charset=utf-8'', rp_body = render F (status_doc (rl_dir r) games),
        rp_keep_alive = rq_keep_alive req\<rparr>, p')"
    using games(1) world assms(3,6-8)
    by (simp add: status_request_def status_response_def build_status_json_def games_text_eq p'_def Let_def)
  then show ?thesis using games(2,3) ports by (intro exI[of _ games] exI[of _ p']) (simp add: p'_def)
qed

definition ex_process :: "tables process" where
  "ex_process = \<lparr>pr_game = \<lparr>gs_world = ex_world, gs_now = 3, gs_open = True, gs_loop = True, gs_running = True\<rparr>,
     pr_relay = ex_relay, pr_status_open = True, pr_status_loop = True, pr_status_conns = 1\<rparr>"

theorem status_page_truthful_witness:
  "\<exists>games p'. status_request table_api std_fmt \<lparr>rq_get = True, rq_target = ascii ''/data.json'', rq_keep_alive = False\<rparr>
      False ex_process
    = Some (Inr \<lparr>rp_status = 200, rp_content_type = ascii ''application/json; charset=utf-8'',
        rp_body = render std_fmt (status_doc (rl_dir (rv_relay ex_relay)) games), rp_keep_alive = False\<rparr>, p')
    \<and> mset (page_rows games) = image_mset (session_row ex_world) (mset_set {s. game_name ex_world s \<noteq> None})"
proof -
  have inv: "process_inv std_fmt ex_process"
    using ex_server_inv relay_reachable_inv[OF ex_relay_reachable(2)] by (simp add: process_inv_def ex_process_def)
  have w: "ex_world = gs_world (pr_game ex_process)" "rv_relay ex_relay = rv_relay (pr_relay ex_process)"
    by (simp_all add: ex_process_def)
  have db: "w_db ex_world = Some \<lparr>tb_productids = [(ex_code, ascii ''Game'')], tb_crosslinks = []\<rparr>"
    by (simp add: ex_world_def)
  let ?q = "\<lparr>rq_get = True, rq_target = ascii ''/data.json'', rq_keep_alive = False\<rparr>"
  have q: "rq_get ?q" "rq_target ?q = ascii ''/data.json''" "rq_keep_alive ?q = False" by simp_all
  from status_page_truthful[OF inv tb.sqlite_tables_axioms w(1) db TrueI w(2) q(1,2), of False, unfolded q(3)]
  show ?thesis by blast
qed

section \<open>Every step is defined\<close>

text \<open>
  C32: In every reachable state of the process every step of each of its parts, a request for the status
  page included, is defined: it follows no dangling pointer, indexes no vector out of range and ends, and
  the invariants of the game server and of the relay hold again.  The stop signal closes all three
  acceptors; from then on the drain timer can end, and when it does the event loop takes no step more.
\<close>

theorem process_steps_defined:
  assumes "process_reachable api F h p" "process_enabled a p"
  shows "\<exists>p'. process_perform api F a p = Some p' \<and> server_inv (gs_world (pr_game p'))
    \<and> relay_inv F {} (rv_relay (pr_relay p'))
    \<and> (a = Process_stop \<longrightarrow> \<not> gs_open (pr_game p') \<and> \<not> rv_open (pr_relay p') \<and> \<not> pr_status_open p'
        \<and> process_enabled (Game_step Drained) p'
        \<and> (\<exists>q. process_perform api F (Game_step Drained) p' = Some q \<and> (\<forall>b. \<not> process_enabled b q)))"
proof -
  obtain p' where p': "process_perform api F a p = Some p'" "process_inv F p'"
    using process_step_safe[OF process_reachable_inv[OF assms(1)] assms(2)] by blast
  have run: "gs_running (pr_game p)" using assms(2) by (simp add: process_enabled_def)
  have stop: "\<not> gs_open (pr_game p') \<and> \<not> rv_open (pr_relay p') \<and> \<not> pr_status_open p' \<and> gs_running (pr_game p')"
    if "a = Process_stop"
    using p'(1) that run
    by (auto simp: process_perform_def process_stop_def on_stop_signal_def relay_stop_def split: bind_splits)
  have "process_enabled (Game_step Drained) p'
      \<and> (\<exists>q. process_perform api F (Game_step Drained) p' = Some q \<and> (\<forall>b. \<not> process_enabled b q))" if "a = Process_stop"
    using stop[OF that] by (simp add: process_enabled_def enabled_def process_perform_def perform_def)
  then show ?thesis using p' stop by (simp add: process_inv_def)
qed

theorem process_steps_defined_witness:
  "\<exists>p'. process_perform table_api std_fmt Process_stop (process_init None True True) = Some p' \<and> \<not> gs_open (pr_game p')
    \<and> \<not> rv_open (pr_relay p')"
proof -
  have "process_enabled Process_stop (process_init None True True)"
    by (simp add: process_enabled_def process_init_def server_init_def enabled_def)
  from process_steps_defined[OF process_reachable.start this, of table_api std_fmt] show ?thesis by auto
qed

section \<open>The write queues\<close>

text \<open>
  C33: The write queues of both kinds of sessions are first in, first out, and nothing stays behind.  After
  any sequence of sends, closes, wake-ups and completed or failed writes, the blocks handed to the socket
  followed by the blocks still queued are the blocks that were queued followed by those that were
  accepted, where a block is handed to the socket by the write that the writer then waits for; and from
  then on, while the session stays open and its writes succeed, as many writes as there are blocks hand
  over the whole queue in its order.
\<close>

theorem write_queues_fifo:
  assumes "outbox.ob_run si_closed si_writer send_bytes session_close writer_loop writer_finish es x
    = (y, started, accepted)"
    "outbox.ob_run rs_closed rs_writer queue_send relay_close relay_writer_loop relay_writer_finish es' u
    = (v, started', accepted')"
  shows "started @ si_write_queue y = si_write_queue x @ accepted \<and> started' @ rs_write_queue v = rs_write_queue u @ accepted'
    \<and> (\<not> si_closed y \<and> si_writer y = Wr_write b \<longrightarrow> (\<exists>z. outbox.ob_run si_closed si_writer send_bytes
        session_close writer_loop writer_finish (replicate (length (si_write_queue y)) Ob_written) y = (z, si_write_queue y, [])
        \<and> si_write_queue z = []))
    \<and> (\<not> rs_closed v \<and> rs_writer v = Wr_write b \<longrightarrow> (\<exists>z. outbox.ob_run rs_closed rs_writer queue_send
        relay_close relay_writer_loop relay_writer_finish (replicate (length (rs_write_queue v)) Ob_written) v = (z, rs_write_queue v, [])
        \<and> rs_write_queue z = []))"
  using so.ob_run_fifo[OF assms(1)] ro.ob_run_fifo[OF assms(2)] so.ob_drain[OF _ _ refl, of y b] ro.ob_drain[OF _ _ refl, of v b]
  by blast

theorem write_queues_fifo_witness:
  "\<exists>y v z. outbox.ob_run si_closed si_writer send_bytes session_close writer_loop writer_finish
      [Ob_send [1], Ob_send [2], Ob_resume] (ex_session 3 None None) = (y, [[1]], [[1], [2]]) \<and> si_write_queue y = [[2]]
    \<and> outbox.ob_run rs_closed rs_writer queue_send relay_close relay_writer_loop relay_writer_finish
      [Ob_send [3], Ob_resume] ex_pdp_session = (v, [[3]], [[3]]) \<and> rs_write_queue v = []
    \<and> outbox.ob_run si_closed si_writer send_bytes session_close writer_loop writer_finish
      [Ob_written] y = (z, [[2]], []) \<and> si_write_queue z = []"
proof -
  have x: "si_write_queue (ex_session 3 None None) = []" "\<not> si_closed (ex_session 3 None None)"
    "si_writer (ex_session 3 None None) = Wr_start" by simp_all
  have u: "rs_write_queue ex_pdp_session = []" "\<not> rs_closed ex_pdp_session" "rs_writer ex_pdp_session = Wr_start"
    "rs_queued_bytes ex_pdp_session = 0"
    by (simp_all add: ex_pdp_session_def new_relay_session_def)
  obtain y where y: "outbox.ob_run si_closed si_writer send_bytes session_close writer_loop
      writer_finish [Ob_send [1], Ob_send [2], Ob_resume] (ex_session 3 None None) = (y, [[1]], [[1], [2]])"
    "\<not> si_closed y" "si_writer y = Wr_write [1]"
    using x by (simp add: so.ob_run.simps so.ob_step_def so.ob_accepted_def so.ob_started_def writer_loop_def send_bytes_def)
  obtain v where v: "outbox.ob_run rs_closed rs_writer queue_send relay_close relay_writer_loop
      relay_writer_finish [Ob_send [3], Ob_resume] ex_pdp_session = (v, [[3]], [[3]])"
    using u by (simp add: ro.ob_run.simps ro.ob_step_def ro.ob_accepted_def ro.ob_started_def relay_writer_loop_def
        queue_send_def Let_def)
  note t = write_queues_fifo[OF y(1) v, where b = "[1]", unfolded x(1) u(1)]
  have q: "si_write_queue y = [[2]]" "rs_write_queue v = []" using t by auto
  with t y(2,3) obtain z where "outbox.ob_run si_closed si_writer send_bytes session_close writer_loop
      writer_finish [Ob_written] y = (z, [[2]], [])" "si_write_queue z = []" by auto
  then show ?thesis using y(1) v q by blast
qed

end
