(* ===== verification/Spec2Isabelle.thy ===== *)
theory Spec2Isabelle
  imports Game_Properties Client_Properties Packet_Properties Relay_Properties Relay_Switchboard Relay_Liveness Status_Properties Startup_Properties Process_Properties
begin

text \<open>
  A verification library for the ad hoc hub, a server with which PSP games find each other over the
  internet.  One process (\<^verbatim>\<open>source/main.cpp\<close>) runs three parts on one single-threaded
  event loop of Boost.Asio: the game server keeps who plays what in which group, the relay forwards
  the games' traffic, and the status page shows both.

  \<^bold>\<open>Execution.\<close> Coroutines run without interruption between two awaits, so every
  stretch of code between two awaits is one function of the model, the program counter of each
  coroutine is a field of its session, and a completion (a read with its bytes, a write, a timer, an
  accepted socket) is an action.  The reachable states are the inductive relations
  \<^theory_text>\<open>reachable\<close> (game server), \<^theory_text>\<open>relay_reachable\<close> and
  \<^theory_text>\<open>process_reachable\<close>.  Which action comes next, and what a socket delivers, is
  left open, so a property of the reachable states holds under every interleaving and all input.

  \<^bold>\<open>The game server.\<close>
  \<^item> Prelude: bytes, \<^verbatim>\<open>std::string\<close> as a byte list, little-endian integers, the hash
    map as an association list (its order is that of the iteration; an action may permute it).
  \<^item> Protocol: \<^verbatim>\<open>source/protocol.hpp\<close>, \<^verbatim>\<open>source/string.hpp\<close> and the
    checks of \<^verbatim>\<open>source/registry.cpp\<close>: packets as records with their byte images.
  \<^item> Database: \<^verbatim>\<open>source/database.cpp\<close>; an exception is a left summand.
  \<^item> Outbox: the contract of the write queue both kinds of sessions have, a locale; Session:
    \<^verbatim>\<open>source/session.hpp\<close> and the writer and watchdog of
    \<^verbatim>\<open>source/session.cpp\<close>.
  \<^item> Registry: \<^verbatim>\<open>source/registry.hpp\<close> and \<^verbatim>\<open>source/registry.cpp\<close>.
    The pointers of its nodes are addresses of three heaps, and following a dangling one is
    \<^term>\<open>None\<close>.  Registry\_Links states how the pointers fit together, Registry\_Leave,
    Registry\_Join and Registry\_Messages that each handler is defined and what it does to them,
    Registry\_Inv collects the invariant \<^theory_text>\<open>server_inv\<close>.
  \<^item> Lobby: the abstract state without pointers, and that each handler implements its operation on
    it; Registry\_Contract adds what each handler sends.
  \<^item> Reader: the reader coroutine with its parse loop (a \<^theory_text>\<open>partial_function\<close> in
    the option monad; Reader\_Safe proves that it ends on every state the invariant admits, since each
    round consumes bytes or leaves the loop).  Game\_Server: \<^verbatim>\<open>source/game_server.cpp\<close>,
    the shutdown, and the transition system.

  \<^item> Client\_Steps, Client\_Effects: whatever bytes a read delivers, the code that runs is a sequence of
    \<^theory_text>\<open>client_step\<close>s of that session (fixed-point induction over the parse loop); by
    rule induction, the abstract lobby moves by that session's operations and the other sessions see
    packets only.  Session\_Life: the timers, the end of closed sessions, the fate of a silent client.
    Client\_Reads: what a read of one whole login or connect packet does.

  \<^bold>\<open>The relay,\<close> \<^verbatim>\<open>source/relay_server.hpp\<close> and
  \<^verbatim>\<open>source/relay_server.cpp\<close>.
  \<^item> Relay\_Directory: the sorted port vectors per MAC address, refining a set of triples.
  \<^item> Relay\_Names: the session names, injective when the conversions of fmt are.
  \<^item> Relay\_Session: packed structs, the session's members, the session map with its waiters, and
    every step of the session coroutine.  Shared pointers keep sessions alive, so no reference dangles.
  \<^item> Relay\_Inv, Relay\_Steps, Relay\_Server: the invariant \<^theory_text>\<open>relay_inv\<close>, its
    preservation, the acceptor and the transition system.  Relay\_Contract: what registering, refusing,
    bonding, forwarding and ending a session do.
  \<^item> Relay\_Frame: a step changes other sessions by five operations only, stated as a locale
    \<^theory_text>\<open>step_keeps\<close> in which every step is shown to keep what these keep, and interpreted
    for the timers and for a bystander.  Relay\_Switchboard: the abstract state a relay has for its
    clients (where names lead, the open ports, the count), and that every step of a session is one of four
    moves on it.  Relay\_Life: a measure that each step of a closed session decreases,
    and what the end of a timer does.

  \<^bold>\<open>The status page,\<close> \<^verbatim>\<open>source/status_server.cpp\<close>: Status is the code
  (grouping, JSON text, routing, keep-alive loop), Status\_Json the reference: grouping by first
  appearance, a JSON document with its rendering, and a reader of JSON strings; Json\_Reader a reader of
  whole documents, with the length of the text as fuel, which is enough since each level of a document
  has a bracket of its own; Status\_Page what is on the page: the logged-in sessions, each in one row.

  \<^bold>\<open>Command line and process,\<close> \<^verbatim>\<open>source/main.cpp\<close>: Cli has the arguments,
  the endpoint grammar, the usage text and what is reported on standard error, and the exit status (with
  \<^verbatim>\<open>source/utf8.cpp\<close>); Process composes the three parts; Startup is the way from the
  arguments over \<^verbatim>\<open>to_acceptor\<close> and the database to the initial state of Process and
  the lines that announce the servers.

  \<^bold>\<open>Properties.\<close> Game\_Properties and Login\_Properties: every step is defined and keeps
  the invariant; capacity; lost wake-ups; what joining, leaving, scanning, chatting, logging in and
  closing do to the lobby and send to whom.  Client\_Properties: the server simulates the lobby, clients
  are isolated, closed sessions end, silent clients are logged out by the watchdog.  Packet\_Properties: round
  trips, and which group names a connect packet gets past the server.
  Relay\_Properties: the map, well-formed sessions, the directory, opening a port, bonding,
  forwarding, ending.  Relay\_Switchboard: the relay simulates its abstract switchboard.  Relay\_Liveness: sessions are isolated, closed ones end, and one that nobody answers
  while it is being established ends within five seconds.  Status\_Properties, Cli\_Properties,
  Startup\_Properties and Process\_Properties: the page, the command line, the start, the composition (what
  the page shows of registry and relay, and that the write queues of both kinds of sessions are first in,
  first out).  Example, Game\_Example (a reachable state in which two clients share a group) and
  Relay\_Example: the states of the witnesses.

  \<^bold>\<open>Parameters.\<close> Libraries that are not in the repository are arguments of the
  definitions: SQLite (\<^theory_text>\<open>sqlite_api\<close>, with the documented behaviour of an open
  database in the locale \<^theory_text>\<open>sqlite_tables\<close>), fmt (\<^theory_text>\<open>fmt_api\<close>;
  \<^theory_text>\<open>fmt_laws\<close>, \<^theory_text>\<open>hex_laws\<close> and \<^theory_text>\<open>json_laws\<close> say that its conversions are
  decimal digits without leading zeros and hexadecimal digits, and injective), Boost.Asio's address parser and scnlib
  (\<^theory_text>\<open>net_api\<close>, \<^theory_text>\<open>net_laws\<close>), the operating system's binding of
  sockets and its files (\<^theory_text>\<open>os_api\<close>, without hypotheses).  Each locale is interpreted on a
  concrete function that computes what the library documents.

  \<^bold>\<open>Over-approximations.\<close> A read or write may fail at any time; a client may send any
  bytes at any time; the drain of 250 milliseconds after the stop signal may end at any time; the clocks of game server (seconds) and relay (milliseconds) tick independently; the order of a hash map may change between any two steps.

  \<^bold>\<open>Not modelled.\<close> The text of log lines (their dereferences are); allocation failure;
  sockets below their completions; the texts of exceptions that come from libraries; the HTTP parser and serialiser of Boost.Beast; the headers that only name a library type
  (\<^verbatim>\<open>fwd_mov.hpp\<close>, \<^verbatim>\<open>deque.hpp\<close>, \<^verbatim>\<open>heterogeneous.hpp\<close>);
  build files.
\<close>

end
